(* ===== verification/Ptp_Prelude.thy ===== *)
theory Ptp_Prelude
  imports Main "HOL-Library.Word" "HOL-Library.Monad_Syntax"
begin

section \<open>Prelude: the Go run time the model uses\<close>

text \<open>
  Shared ground of the development:
  \<^item> names for Go's fixed-width integers, byte slices, durations and points in time;
  \<^item> the run-time panic as a value: a computation of type \<^typ>\<open>'a option\<close> that is
    \<^term>\<open>None\<close> has panicked (index or slice bound out of range, division by zero,
    non-positive ticker interval). The program never recovers, so a panic ends it;
  \<^item> Go's \<^verbatim>\<open>error\<close> results stay ordinary values and never become a panic;
  \<^item> slice reads and writes with the bound checks Go performs, and the big-endian and
    little-endian codecs of \<^verbatim>\<open>encoding/binary\<close>;
  \<^item> the locale \<open>codec\<close>: what every encoder and decoder pair of the protocol promises.
  Buffers are modelled by their contents. Every buffer the program writes to comes from
  \<^verbatim>\<open>make([]byte, n)\<close> or is a tail slice of one, so its capacity is its length.
\<close>

unbundle bit_operations_syntax

type_synonym u8 = "8 word"
type_synonym u16 = "16 word"
type_synonym u32 = "32 word"
type_synonym u64 = "64 word"
type_synonym bytes = "u8 list"

text \<open>Durations and times are numbers of nanoseconds; times count from the Unix epoch.\<close>

type_synonym duration = int
type_synonym time = int

named_theorems go_simps "unfolding of the Go primitives on slices"
named_theorems codec_simps "rewrite rules of the encoders and decoders"

subsection \<open>Durations, times and signed 64-bit wrap-around\<close>

definition wrap64 :: "int \<Rightarrow> int" where
  "wrap64 i = (i + 2 ^ 63) mod 2 ^ 64 - 2 ^ 63"

definition int64_range :: "int \<Rightarrow> bool" where
  "int64_range i \<longleftrightarrow> - (2 ^ 63) \<le> i \<and> i < 2 ^ 63"

abbreviation Nanosecond :: duration where "Nanosecond \<equiv> 1"
abbreviation Microsecond :: duration where "Microsecond \<equiv> 1000"
abbreviation Millisecond :: duration where "Millisecond \<equiv> 1000000"
abbreviation Second :: duration where "Second \<equiv> 1000000000"
abbreviation Minute :: duration where "Minute \<equiv> 60000000000"
abbreviation Hour :: duration where "Hour \<equiv> 3600000000000"

text \<open>
  \<^verbatim>\<open>time.Time\<close>: the zero value is 1 January of the year 1, \<^verbatim>\<open>Unix()\<close> and
  \<^verbatim>\<open>Nanosecond()\<close> split a time, \<^verbatim>\<open>time.Unix\<close> builds one (the seconds are an
  \<^verbatim>\<open>int64\<close> and wrap; nanoseconds outside a second are carried), and
  \<^verbatim>\<open>UnixNano()\<close> wraps.
\<close>

definition zero_time :: time where
  "zero_time = - 62135596800 * 1000000000"

definition IsZero :: "time \<Rightarrow> bool" where
  "IsZero t \<longleftrightarrow> t = zero_time"

definition time_Unix :: "time \<Rightarrow> int" where
  "time_Unix t = t div 1000000000"

definition time_Nanosecond :: "time \<Rightarrow> int" where
  "time_Nanosecond t = t mod 1000000000"

definition unix_time :: "int \<Rightarrow> int \<Rightarrow> time" where
  "unix_time sec nsec =
     wrap64 (sec + nsec div 1000000000) * 1000000000 + nsec mod 1000000000"

definition UnixNano :: "time \<Rightarrow> int" where
  "UnixNano t = wrap64 t"

lemma wrap64_id [simp]: "int64_range i \<Longrightarrow> wrap64 i = i"
  by (simp add: wrap64_def int64_range_def)

lemma wrap64_range: "int64_range (wrap64 i)"
proof -
  have "0 \<le> (i + 2 ^ 63) mod 2 ^ 64" "(i + 2 ^ 63) mod 2 ^ 64 < (2 ^ 64 :: int)"
    by (rule pos_mod_sign pos_mod_bound, simp)+
  then show ?thesis by (simp add: wrap64_def int64_range_def)
qed

lemma wrap64_mod: "wrap64 i mod 2 ^ 64 = i mod 2 ^ 64"
  by (simp add: wrap64_def mod_simps)

lemma unix_time_normal:
  assumes "int64_range sec" and "0 \<le> nsec" and "nsec < 1000000000"
  shows "unix_time sec nsec = sec * 1000000000 + nsec"
    and "time_Unix (unix_time sec nsec) = sec"
    and "time_Nanosecond (unix_time sec nsec) = nsec"
  using assms by (simp_all add: unix_time_def time_Unix_def time_Nanosecond_def)

subsection \<open>Slices\<close>

text \<open>
  \<open>get_at i b\<close> is \<^verbatim>\<open>b[i]\<close>, \<open>slice_from i b\<close> is \<^verbatim>\<open>b[i:]\<close>,
  \<open>slice_to n b\<close> is \<^verbatim>\<open>b[:n]\<close>, \<open>slice2 lo hi b\<close> is \<^verbatim>\<open>b[lo:hi]\<close>, \<open>read_at n i b\<close> the \<open>n\<close> bytes that
  \<^verbatim>\<open>binary.BigEndian.UintX(b[i:])\<close> looks at, \<open>put_at i xs b\<close> the assignment of
  \<open>xs\<close> at \<open>i\<close> (an index assignment or a \<^verbatim>\<open>PutUintX(b[i:], v)\<close>) and
  \<open>copy_at i xs b\<close> is \<^verbatim>\<open>copy(b[i:], xs)\<close>, which stops at the end of the shorter one.
\<close>

definition get_at :: "nat \<Rightarrow> 'a list \<Rightarrow> 'a option" where
  "get_at i b = (if i < length b then Some (b ! i) else None)"

definition slice_from :: "nat \<Rightarrow> 'a list \<Rightarrow> 'a list option" where
  "slice_from i b = (if i \<le> length b then Some (drop i b) else None)"

definition slice_to :: "nat \<Rightarrow> 'a list \<Rightarrow> 'a list option" where
  "slice_to n b = (if n \<le> length b then Some (take n b) else None)"

definition slice2 :: "nat \<Rightarrow> nat \<Rightarrow> 'a list \<Rightarrow> 'a list option" where
  "slice2 lo hi b = (if lo \<le> hi \<and> hi \<le> length b then Some (take (hi - lo) (drop lo b)) else None)"

definition read_at :: "nat \<Rightarrow> nat \<Rightarrow> 'a list \<Rightarrow> 'a list option" where
  "read_at n i b = (if i + n \<le> length b then Some (take n (drop i b)) else None)"

definition put_at :: "nat \<Rightarrow> 'a list \<Rightarrow> 'a list \<Rightarrow> 'a list option" where
  "put_at i xs b =
     (if i + length xs \<le> length b then Some (take i b @ xs @ drop (i + length xs) b) else None)"

definition copy_at :: "nat \<Rightarrow> 'a list \<Rightarrow> 'a list \<Rightarrow> 'a list option" where
  "copy_at i xs b =
     (if i \<le> length b
      then Some (take i b @ take (length b - i) xs @ drop (i + length xs) b) else None)"

lemma put_at_length: "put_at i xs b = Some b' \<Longrightarrow> length b' = length b"
  by (auto simp: put_at_def split: if_splits)

lemma put_at_front [codec_simps]:
  "length xs \<le> length b \<Longrightarrow> put_at 0 xs b = Some (xs @ drop (length xs) b)"
  by (simp add: put_at_def)

lemma put_at_next [codec_simps]:
  assumes "length ys = i" and "i + length xs \<le> length b"
  shows "put_at i xs (ys @ drop i b) = Some ((ys @ xs) @ drop (i + length xs) b)"
  using assms by (simp add: put_at_def add.commute)

lemma copy_at_next [codec_simps]:
  assumes "length ys = i" and "i + length xs \<le> length b"
  shows "copy_at i xs (ys @ drop i b) = Some ((ys @ xs) @ drop (i + length xs) b)"
  using assms by (simp add: copy_at_def add.commute)

lemma put_at_none: "length b < i + length xs \<Longrightarrow> put_at i xs b = None"
  by (simp add: put_at_def)

lemma put_at_neq_None: "put_at i xs b \<noteq> None \<longleftrightarrow> i + length xs \<le> length b"
  by (simp add: put_at_def)

lemma read_at_prefix [codec_simps]:
  "length xs = i \<Longrightarrow> length ys = n \<Longrightarrow> read_at n i (xs @ ys @ zs) = Some ys"
  by (simp add: read_at_def)

lemma read_at_Some [simp]: "i + n \<le> length b \<Longrightarrow> read_at n i b = Some (take n (drop i b))"
  by (simp add: read_at_def)

lemma get_at_Some [simp]: "i < length b \<Longrightarrow> get_at i b = Some (b ! i)"
  by (simp add: get_at_def)

lemma slice_from_Some [simp]: "i \<le> length b \<Longrightarrow> slice_from i b = Some (drop i b)"
  by (simp add: slice_from_def)

subsection \<open>Big-endian and little-endian integers\<close>

text \<open>
  \<open>be_bytes n v\<close> are the low \<open>n\<close> bytes of \<open>v\<close>, most significant first;
  \<open>be_val\<close> reads them back. \<open>le_bytes\<close> is the little-endian order.
\<close>

definition be_bytes :: "nat \<Rightarrow> 'a::len word \<Rightarrow> bytes" where
  "be_bytes n v = map (\<lambda>i. ucast (drop_bit (8 * (n - 1 - i)) v)) [0..<n]"

definition be_val :: "bytes \<Rightarrow> 'a::len word" where
  "be_val bs = foldl (\<lambda>acc x. push_bit 8 acc OR ucast x) 0 bs"

definition le_bytes :: "nat \<Rightarrow> 'a::len word \<Rightarrow> bytes" where
  "le_bytes n v = map (\<lambda>i. ucast (drop_bit (8 * i) v)) [0..<n]"

abbreviation be16 :: "u16 \<Rightarrow> bytes" where "be16 \<equiv> be_bytes 2"
abbreviation be32 :: "u32 \<Rightarrow> bytes" where "be32 \<equiv> be_bytes 4"
abbreviation be64 :: "u64 \<Rightarrow> bytes" where "be64 \<equiv> be_bytes 8"

definition get16 :: "nat \<Rightarrow> bytes \<Rightarrow> u16 option" where
  "get16 i b = map_option be_val (read_at 2 i b)"

definition get32 :: "nat \<Rightarrow> bytes \<Rightarrow> u32 option" where
  "get32 i b = map_option be_val (read_at 4 i b)"

definition get64 :: "nat \<Rightarrow> bytes \<Rightarrow> u64 option" where
  "get64 i b = map_option be_val (read_at 8 i b)"

lemma length_be_bytes [simp]: "length (be_bytes n v) = n"
  by (simp add: be_bytes_def)

lemma length_le_bytes [simp]: "length (le_bytes n v) = n"
  by (simp add: le_bytes_def)

lemma be_bytes_0 [simp]: "be_bytes 0 v = []"
  by (simp add: be_bytes_def)

lemma be_bytes_Suc: "be_bytes (Suc n) v = be_bytes n (drop_bit 8 v) @ [ucast v]"
proof -
  have "8 * (Suc n - 1 - i) = 8 + 8 * (n - 1 - i)" if "i < n" for i
    using that by (simp add: diff_mult_distrib2)
  then show ?thesis
    by (auto simp: be_bytes_def drop_bit_drop_bit add.commute intro!: map_cong)
qed

lemma be_val_Nil [simp]: "be_val [] = 0"
  by (simp add: be_val_def)

lemma be_val_snoc: "be_val (bs @ [x]) = push_bit 8 (be_val bs) OR ucast x"
  by (simp add: be_val_def)

lemma word_split_8: "push_bit 8 (drop_bit 8 v) OR ucast (ucast v :: u8) = (v :: 'a::len word)"
  by (rule bit_word_eqI) (auto simp: bit_simps)

lemma be_val_be_bytes_gen:
  "be_val (be_bytes n v) = take_bit (8 * n) (v :: 'a::len word)"
proof (induction n arbitrary: v)
  case 0
  then show ?case by simp
next
  case (Suc n)
  have "be_val (be_bytes (Suc n) v) =
      push_bit 8 (take_bit (8 * n) (drop_bit 8 v)) OR ucast (ucast v :: u8)"
    by (simp add: be_bytes_Suc be_val_snoc Suc)
  also have "\<dots> = take_bit (8 * Suc n) v"
    by (rule bit_word_eqI) (auto simp: bit_simps)
  finally show ?case .
qed

lemma be_val_be_bytes [simp]:
  "LENGTH('a) \<le> 8 * n \<Longrightarrow> be_val (be_bytes n v) = (v :: 'a::len word)"
  by (simp add: be_val_be_bytes_gen take_bit_word_eq_self)

lemma be_bytes_be_val [simp]:
  assumes "length bs = n" and "8 * n \<le> LENGTH('a)"
  shows "be_bytes n (be_val bs :: 'a::len word) = bs"
  using assms
proof (induction n arbitrary: bs)
  case 0
  then show ?case by simp
next
  case (Suc n)
  then obtain xs x where bs: "bs = xs @ [x]" and len: "length xs = n"
    by (metis length_Suc_conv_rev)
  have low: "ucast (push_bit 8 (be_val xs :: 'a word) OR ucast x) = x"
    by (rule bit_word_eqI) (use Suc.prems(2) in \<open>auto simp: bit_simps\<close>)
  have bound: "take_bit (8 * n) (be_val xs :: 'a word) = be_val xs"
    using Suc.IH [OF len] Suc.prems(2) be_val_be_bytes_gen [of n "be_val xs :: 'a word"] by simp
  have high: "drop_bit 8 (push_bit 8 (be_val xs :: 'a word) OR ucast x) = be_val xs"
  proof (rule bit_word_eqI)
    fix k assume k: "k < LENGTH('a)"
    have "bit (be_val xs :: 'a word) k \<Longrightarrow> k < 8 * n"
      using bound by (metis bit_take_bit_iff)
    then show "bit (drop_bit 8 (push_bit 8 (be_val xs :: 'a word) OR ucast x)) k
        \<longleftrightarrow> bit (be_val xs :: 'a word) k"
      using Suc.prems(2) k bit_imp_le_length [of x "8 + k"] by (auto simp: bit_simps)
  qed
  show ?case
    using Suc.IH [OF len] Suc.prems(2) by (simp only: bs be_val_snoc be_bytes_Suc low high) simp
qed

lemma le_bytes_rev: "le_bytes n v = rev (be_bytes n v)"
  by (auto simp: le_bytes_def be_bytes_def rev_map rev_nth intro!: nth_equalityI)

lemma le_bytes_inj:
  assumes "le_bytes n v = le_bytes n (w :: 'a::len word)" and "LENGTH('a) \<le> 8 * n"
  shows "v = w"
proof -
  have "be_bytes n v = be_bytes n w" using assms(1) by (simp add: le_bytes_rev)
  then have "be_val (be_bytes n v) = (be_val (be_bytes n w) :: 'a word)" by simp
  then show ?thesis using assms(2) by simp
qed

subsection \<open>The contract of a codec\<close>

text \<open>
  What a reader relies on when it decodes what a writer produced: an encoding of a
  well-formed value has a known size, and decoding it gives the value back whatever
  follows it in the buffer. Unambiguity of the wire format follows once and for all.
\<close>

locale codec =
  fixes enc :: "'a \<Rightarrow> bytes"
    and dec :: "bytes \<Rightarrow> 'a option"
    and wf :: "'a \<Rightarrow> bool"
    and size :: "'a \<Rightarrow> nat"
  assumes enc_size: "wf x \<Longrightarrow> length (enc x) = size x"
    and dec_enc: "wf x \<Longrightarrow> dec (enc x @ rest) = Some x"
begin

lemma enc_prefix_free:
  assumes "wf x" and "wf y" and "enc x @ r = enc y @ s"
  shows "x = y \<and> r = s"
proof -
  have "dec (enc x @ r) = Some x" "dec (enc y @ s) = Some y"
    using assms(1,2) by (simp_all add: dec_enc)
  then have "x = y" using assms(3) by simp
  then show ?thesis using assms(3) by simp
qed

lemma enc_inj: "wf x \<Longrightarrow> wf y \<Longrightarrow> enc x = enc y \<Longrightarrow> x = y"
  using enc_prefix_free [of x y "[]" "[]"] by simp

lemma enc_list_inj:
  assumes "\<forall>x \<in> set xs. wf x" and "\<forall>y \<in> set ys. wf y" and "length xs = length ys"
    and "concat (map enc xs) @ r = concat (map enc ys) @ s"
  shows "xs = ys"
  using assms(3,1,2,4)
proof (induction xs ys rule: list_induct2)
  case (Cons x xs y ys)
  then have "x = y \<and> concat (map enc xs) @ r = concat (map enc ys) @ s"
    by (intro enc_prefix_free) auto
  with Cons show ?case by auto
qed simp

end

text \<open>
  A fixed layout is stronger: every sufficiently long buffer decodes, and encoding the
  result reproduces the bytes that were read.
\<close>

locale fixed_layout = codec enc dec "\<lambda>_. True" "\<lambda>_. n"
  for enc :: "'a \<Rightarrow> bytes" and dec :: "bytes \<Rightarrow> 'a option" and n :: nat +
  assumes dec_short: "length b < n \<Longrightarrow> dec b = None"
    and enc_dec: "length b = n \<Longrightarrow> \<exists>x. b = enc x"
begin

lemma dec_total:
  assumes "n \<le> length b"
  obtains x where "dec b = Some x" and "b = enc x @ drop n b"
proof -
  obtain x where x: "take n b = enc x"
    using enc_dec [of "take n b"] assms by auto
  then have b: "b = enc x @ drop n b" by (metis append_take_drop_id)
  then have "dec b = Some x" using dec_enc [of x "drop n b"] by simp
  then show ?thesis using b that by blast
qed

lemma dec_Some_iff: "dec b = Some x \<longleftrightarrow> n \<le> length b \<and> take n b = enc x"
proof (cases "n \<le> length b")
  case True
  then obtain y where y: "dec b = Some y" "b = enc y @ drop n b" by (rule dec_total)
  have "take n b = enc y" using y(2) enc_size [of y] by (metis append_eq_conv_conj)
  then show ?thesis using True y(1) enc_inj [of x y] by auto
qed (simp add: dec_short)

lemma dec_None_iff: "dec b = None \<longleftrightarrow> length b < n"
  using dec_short dec_total by (metis linorder_not_le option.distinct(1))

end

text \<open>The fixed-width integers are fixed layouts.\<close>

interpretation be16c: fixed_layout "be_bytes 2 :: u16 \<Rightarrow> bytes" "get16 0" 2
proof
  fix b :: bytes
  show "length b = 2 \<Longrightarrow> \<exists>x :: u16. b = be_bytes 2 x" by (rule exI [of _ "be_val b"]) simp
qed (simp_all add: get16_def read_at_def)

interpretation be32c: fixed_layout "be_bytes 4 :: u32 \<Rightarrow> bytes" "get32 0" 4
proof
  fix b :: bytes
  show "length b = 4 \<Longrightarrow> \<exists>x :: u32. b = be_bytes 4 x" by (rule exI [of _ "be_val b"]) simp
qed (simp_all add: get32_def read_at_def)

interpretation be64c: fixed_layout "be_bytes 8 :: u64 \<Rightarrow> bytes" "get64 0" 8
proof
  fix b :: bytes
  show "length b = 8 \<Longrightarrow> \<exists>x :: u64. b = be_bytes 8 x" by (rule exI [of _ "be_val b"]) simp
qed (simp_all add: get64_def read_at_def)

subsection \<open>Decimal numbers\<close>

text \<open>
  \<^verbatim>\<open>%d\<close> of \<^verbatim>\<open>fmt\<close>, and \<^verbatim>\<open>strconv.Atoi\<close> for the 64-bit \<^verbatim>\<open>int\<close>: an
  optional sign and decimal digits, in range.
\<close>

fun nat_digits :: "nat \<Rightarrow> string" where
  "nat_digits n = (if n < 10 then [char_of (48 + n)] else nat_digits (n div 10) @ [char_of (48 + n mod 10)])"

declare nat_digits.simps [simp del]

definition fmt_d :: "int \<Rightarrow> string" where
  "fmt_d i = (if i < 0 then CHR ''-'' # nat_digits (nat (- i)) else nat_digits (nat i))"

definition digits_val :: "string \<Rightarrow> nat" where
  "digits_val = foldl (\<lambda>a c. 10 * a + (of_char c - 48)) 0"

definition is_digit :: "char \<Rightarrow> bool" where
  "is_digit c \<longleftrightarrow> 48 \<le> (of_char c :: nat) \<and> of_char c < (58 :: nat)"

datatype atoi_error = ErrSyntax | ErrRange

fun Atoi_unsigned :: "int \<Rightarrow> string \<Rightarrow> atoi_error + int" where
  "Atoi_unsigned sign ds =
     (if ds = [] \<or> \<not> list_all is_digit ds then Inl ErrSyntax
      else let n = sign * int (digits_val ds)
           in if n < - (2 ^ 63) \<or> n \<ge> 2 ^ 63 then Inl ErrRange else Inr n)"

fun Atoi :: "string \<Rightarrow> atoi_error + int" where
  "Atoi [] = Inl ErrSyntax"
| "Atoi (c # cs) =
     (if c = CHR ''-'' then Atoi_unsigned (- 1) cs
      else if c = CHR ''+'' then Atoi_unsigned 1 cs
      else Atoi_unsigned 1 (c # cs))"

lemma nat_digits_chars: "c \<in> set (nat_digits n) \<Longrightarrow> 48 \<le> (of_char c :: nat) \<and> of_char c < (58 :: nat)"
proof (induction n rule: nat_digits.induct)
  case (1 n)
  have *: "(48 + m) mod 256 = 48 + m" if "m < 10" for m :: nat using that by simp
  show ?case
    using 1 by (subst (asm) (2) nat_digits.simps) (auto split: if_splits simp: of_char_of *)
qed

lemma digits_val_nat_digits: "digits_val (nat_digits n) = n"
proof (induction n rule: nat_digits.induct)
  case (1 n)
  have *: "(48 + m) mod 256 = 48 + m" if "m < 10" for m :: nat using that by simp
  show ?case
    using 1 by (subst nat_digits.simps) (simp add: digits_val_def of_char_of *)
qed

lemma nat_digits_inj: "nat_digits m = nat_digits n \<longleftrightarrow> m = n"
  by (metis digits_val_nat_digits)

lemma nat_digits_no: "CHR ''-'' \<notin> set (nat_digits n)" "CHR ''.'' \<notin> set (nat_digits n)"
  using nat_digits_chars by fastforce+

lemma fmt_d_inj: "fmt_d i = fmt_d j \<longleftrightarrow> i = j"
proof -
  have "nat_digits m \<noteq> CHR ''-'' # xs" for m xs by (metis list.set_intros(1) nat_digits_no(1))
  then show ?thesis by (auto simp: fmt_d_def nat_digits_inj dest: sym)
qed

lemma nat_digits_not_Nil [simp]: "nat_digits n \<noteq> []"
  by (subst nat_digits.simps) simp

lemma nat_digits_is_digit [simp]: "list_all is_digit (nat_digits n)"
  using nat_digits_chars by (auto simp: list_all_iff is_digit_def)

lemma Atoi_fmt_d: "- (2 ^ 63) \<le> i \<Longrightarrow> i < 2 ^ 63 \<Longrightarrow> Atoi (fmt_d i) = Inr i"
proof (cases "i < 0")
  case False
  assume i: "- (2 ^ 63) \<le> i" "i < 2 ^ 63"
  obtain c cs where c: "nat_digits (nat i) = c # cs" using nat_digits_not_Nil by (meson list.exhaust)
  then have "is_digit c" using nat_digits_is_digit [of "nat i"] by simp
  then have "c \<noteq> CHR ''-''" "c \<noteq> CHR ''+''" by (auto simp: is_digit_def)
  then have "Atoi (nat_digits (nat i)) = Atoi_unsigned 1 (nat_digits (nat i))" by (simp add: c)
  then show ?thesis using False i by (simp add: fmt_d_def digits_val_nat_digits)
qed (simp add: fmt_d_def digits_val_nat_digits)

end
