(* ===== verification/Ptp_Types.thy ===== *)
theory Ptp_Types
  imports Ptp_Prelude "HOL-Library.Log_Nat"
begin

section \<open>Protocol data types (\<^verbatim>\<open>src/protocol/types.go\<close>)\<close>

text \<open>
  The scalar types of PTP and their operations: message and TLV type codes, clock and port
  identities, the 48-bit seconds and 80-bit timestamps, clock accuracy classes, log intervals,
  the length-prefixed text and the port address. Go's named integer types are words of their
  width; a signed one is read with \<^const>\<open>sint\<close>. The \<^verbatim>\<open>String()\<close> methods that only
  print are in \<^verbatim>\<open>Ptp_Text\<close>.
\<close>

subsection \<open>Errors\<close>

text \<open>One constructor per error the protocol package returns, with the values it reports.\<close>

datatype go_error =
    ErrProbeMsgType
  | ErrNotEnoughData string
  | ErrNotEnoughBuffer string
  | ErrMessageLength u16 nat
  | ErrTLVHeadShort
  | ErrTLVLengthStrict u16 nat u16
  | ErrTLVLengthMin u16 nat u16
  | ErrTLVLengthBuffer nat nat
  | ErrTLVNotImplemented u16
  | ErrNoTLVs
  | ErrNotSignaling
  | ErrUnsupportedType u8
  | ErrRead string
  | ErrTextShort nat u8
  | ErrTextTooLong
  | ErrUnsupportedMAC nat
  | ErrLogIntervalTooBig int
  | ErrLogIntervalTooSmall int
  | ErrUnsupportedNetworkProtocol u16
  | ErrUnexpectedAddressLength nat

subsection \<open>Message types\<close>

abbreviation MessageSync :: u8 where "MessageSync \<equiv> 0x0"
abbreviation MessageDelayReq :: u8 where "MessageDelayReq \<equiv> 0x1"
abbreviation MessagePDelayReq :: u8 where "MessagePDelayReq \<equiv> 0x2"
abbreviation MessagePDelayResp :: u8 where "MessagePDelayResp \<equiv> 0x3"
abbreviation MessageFollowUp :: u8 where "MessageFollowUp \<equiv> 0x8"
abbreviation MessageDelayResp :: u8 where "MessageDelayResp \<equiv> 0x9"
abbreviation MessagePDelayRespFollowUp :: u8 where "MessagePDelayRespFollowUp \<equiv> 0xA"
abbreviation MessageAnnounce :: u8 where "MessageAnnounce \<equiv> 0xB"
abbreviation MessageSignaling :: u8 where "MessageSignaling \<equiv> 0xC"
abbreviation MessageManagement :: u8 where "MessageManagement \<equiv> 0xD"

definition MessageTypeToString :: "(u8 \<times> string) list" where
  "MessageTypeToString =
    [(MessageSync, ''SYNC''), (MessageDelayReq, ''DELAY_REQ''), (MessagePDelayReq, ''PDELAY_REQ''),
     (MessagePDelayResp, ''PDELAY_RES''), (MessageFollowUp, ''FOLLOW_UP''),
     (MessageDelayResp, ''DELAY_RESP''), (MessagePDelayRespFollowUp, ''PDELAY_RESP_FOLLOW_UP''),
     (MessageAnnounce, ''ANNOUNCE''), (MessageSignaling, ''SIGNALING''),
     (MessageManagement, ''MANAGEMENT'')]"

text \<open>A missing key of a Go map gives the zero value, here the empty string.\<close>

definition MessageType_String :: "u8 \<Rightarrow> string" where
  "MessageType_String m = (case map_of MessageTypeToString m of Some s \<Rightarrow> s | None \<Rightarrow> [])"

definition SdoID_MsgType :: "u8 \<Rightarrow> u8" where
  "SdoID_MsgType m = m AND 0xf"

definition NewSdoIDAndMsgType :: "u8 \<Rightarrow> u8 \<Rightarrow> u8" where
  "NewSdoIDAndMsgType msgType sdoID = push_bit 4 sdoID OR msgType"

definition ProbeMsgType :: "bytes \<Rightarrow> go_error + u8" where
  "ProbeMsgType data =
     (if length data < 1 then Inl ErrProbeMsgType else Inr (SdoID_MsgType (data ! 0)))"

text \<open>From \<^verbatim>\<open>src/protocol/unicast.go\<close>: the message type in the high nibble, flags in the low one.\<close>

definition Unicast_MsgType :: "u8 \<Rightarrow> u8" where
  "Unicast_MsgType m = drop_bit 4 m"

definition NewUnicastMsgTypeAndFlags :: "u8 \<Rightarrow> u8 \<Rightarrow> u8" where
  "NewUnicastMsgTypeAndFlags msgType flags = push_bit 4 msgType OR (flags AND 0x0f)"

lemma u8_15_mask: "(15 :: u8) = mask 4"
  by (simp add: mask_eq_exp_minus_1)

lemma u8_nibble: "(t :: u8) < 16 \<Longrightarrow> take_bit 4 t = t"
  using less_mask_eq [of t 4] by (simp add: take_bit_eq_mask)

lemma SdoID_MsgType_bound: "SdoID_MsgType m < 16"
  unfolding SdoID_MsgType_def using word_and_le1 [of m 15] by (rule le_less_trans) simp

lemma SdoID_MsgType_New:
  "msgType < 16 \<Longrightarrow> SdoID_MsgType (NewSdoIDAndMsgType msgType sdoID) = msgType"
  unfolding SdoID_MsgType_def NewSdoIDAndMsgType_def u8_15_mask take_bit_eq_mask [symmetric]
  by (simp add: u8_nibble take_bit_push_bit)

lemma Unicast_MsgType_New:
  assumes "msgType < 16"
  shows "Unicast_MsgType (NewUnicastMsgTypeAndFlags msgType flags) = msgType"
proof -
  have "bit msgType n \<Longrightarrow> n < 4" for n
    using u8_nibble [OF assms] by (metis bit_take_bit_iff)
  then show ?thesis
    unfolding Unicast_MsgType_def NewUnicastMsgTypeAndFlags_def
    by (intro bit_word_eqI) (auto simp: u8_15_mask bit_simps)
qed

lemma Unicast_MsgType_bound: "Unicast_MsgType m < 16"
proof -
  have "unat m < 2 ^ LENGTH(8)" by (rule unsigned_less)
  then have "unat m div 16 < 16" by simp
  then show ?thesis
    by (simp add: Unicast_MsgType_def word_less_nat_alt drop_bit_eq_div unat_div)
qed

subsection \<open>TLV types\<close>

abbreviation TLVManagement :: u16 where "TLVManagement \<equiv> 0x0001"
abbreviation TLVManagementErrorStatus :: u16 where "TLVManagementErrorStatus \<equiv> 0x0002"
abbreviation TLVOrganizationExtension :: u16 where "TLVOrganizationExtension \<equiv> 0x0003"
abbreviation TLVRequestUnicastTransmission :: u16 where "TLVRequestUnicastTransmission \<equiv> 0x0004"
abbreviation TLVGrantUnicastTransmission :: u16 where "TLVGrantUnicastTransmission \<equiv> 0x0005"
abbreviation TLVCancelUnicastTransmission :: u16 where "TLVCancelUnicastTransmission \<equiv> 0x0006"
abbreviation TLVAcknowledgeCancelUnicastTransmission :: u16
  where "TLVAcknowledgeCancelUnicastTransmission \<equiv> 0x0007"
abbreviation TLVPathTrace :: u16 where "TLVPathTrace \<equiv> 0x0008"
abbreviation TLVAlternateTimeOffsetIndicator :: u16 where "TLVAlternateTimeOffsetIndicator \<equiv> 0x0009"
abbreviation TLVAlternateResponsePort :: u16 where "TLVAlternateResponsePort \<equiv> 0x2007"

subsection \<open>Clock identities\<close>

definition TooBig :: "u64 \<Rightarrow> bool" where
  "TooBig t \<longleftrightarrow> t = 0x7fffffffffffffff"

definition ClockIdentity_MAC :: "u64 \<Rightarrow> bytes" where
  "ClockIdentity_MAC c =
     [ucast (drop_bit 56 c), ucast (drop_bit 48 c), ucast (drop_bit 40 c),
      ucast (drop_bit 16 c), ucast (drop_bit 8 c), ucast c]"

definition NewClockIdentity :: "bytes \<Rightarrow> go_error + u64" where
  "NewClockIdentity mac =
     (if length mac = 6 then
        Inr (be_val [mac ! 0, mac ! 1, mac ! 2, 0xFF, 0xFE, mac ! 3, mac ! 4, mac ! 5])
      else if length mac = 8 then Inr (be_val mac)
      else Inl (ErrUnsupportedMAC (length mac)))"

subsection \<open>Port identities\<close>

datatype PortIdentity = PortIdentity (ClockIdentity: u64) (PortNumber: u16)

definition PortIdentity_Compare :: "PortIdentity \<Rightarrow> PortIdentity \<Rightarrow> int" where
  "PortIdentity_Compare p q =
     (if ClockIdentity p < ClockIdentity q then - 1
      else if ClockIdentity p > ClockIdentity q then 1
      else if PortNumber p < PortNumber q then - 1
      else if PortNumber p > PortNumber q then 1
      else 0)"

definition PortIdentity_Less :: "PortIdentity \<Rightarrow> PortIdentity \<Rightarrow> bool" where
  "PortIdentity_Less p q \<longleftrightarrow> PortIdentity_Compare p q = - 1"

text \<open>\<^verbatim>\<open>Less\<close> is a linear order, so port identities join the library's ordered types.\<close>

instantiation PortIdentity :: linorder
begin

definition less_PortIdentity :: "PortIdentity \<Rightarrow> PortIdentity \<Rightarrow> bool" where
  "less_PortIdentity p q \<longleftrightarrow> PortIdentity_Less p q"

definition less_eq_PortIdentity :: "PortIdentity \<Rightarrow> PortIdentity \<Rightarrow> bool" where
  "less_eq_PortIdentity p q \<longleftrightarrow> \<not> PortIdentity_Less q p"

instance
  by standard
    (auto simp: less_PortIdentity_def less_eq_PortIdentity_def PortIdentity_Less_def
       PortIdentity_Compare_def PortIdentity.expand split: if_splits)

end

subsection \<open>Seconds and timestamps\<close>

text \<open>The array \<^verbatim>\<open>[6]uint8\<close>; \<open>seconds_list\<close> is \<^verbatim>\<open>s[:]\<close>, \<open>seconds_copy\<close> is \<^verbatim>\<open>copy(s[:], b)\<close>.\<close>

datatype PTPSeconds = PTPSeconds u8 u8 u8 u8 u8 u8

fun seconds_list :: "PTPSeconds \<Rightarrow> bytes" where
  "seconds_list (PTPSeconds a b c d e f) = [a, b, c, d, e, f]"

definition seconds_of_list :: "bytes \<Rightarrow> PTPSeconds" where
  "seconds_of_list xs = PTPSeconds (xs ! 0) (xs ! 1) (xs ! 2) (xs ! 3) (xs ! 4) (xs ! 5)"

definition seconds_copy :: "PTPSeconds \<Rightarrow> bytes \<Rightarrow> PTPSeconds" where
  "seconds_copy s b = seconds_of_list (take 6 b @ drop (min 6 (length b)) (seconds_list s))"

abbreviation zero_seconds :: PTPSeconds where
  "zero_seconds \<equiv> PTPSeconds 0 0 0 0 0 0"

definition PTPSeconds_Empty :: "PTPSeconds \<Rightarrow> bool" where
  "PTPSeconds_Empty s \<longleftrightarrow> s = zero_seconds"

fun PTPSeconds_Seconds :: "PTPSeconds \<Rightarrow> u64" where
  "PTPSeconds_Seconds (PTPSeconds s0 s1 s2 s3 s4 s5) =
     ucast s5 OR push_bit 8 (ucast s4) OR push_bit 16 (ucast s3) OR push_bit 24 (ucast s2)
       OR push_bit 32 (ucast s1) OR push_bit 40 (ucast s0)"

definition PTPSeconds_Time :: "PTPSeconds \<Rightarrow> time" where
  "PTPSeconds_Time s =
     (if PTPSeconds_Empty s then zero_time else unix_time (sint (PTPSeconds_Seconds s)) 0)"

definition seconds_of_u64 :: "u64 \<Rightarrow> PTPSeconds" where
  "seconds_of_u64 v =
     PTPSeconds (ucast (drop_bit 40 v)) (ucast (drop_bit 32 v)) (ucast (drop_bit 24 v))
       (ucast (drop_bit 16 v)) (ucast (drop_bit 8 v)) (ucast v)"

definition NewPTPSeconds :: "time \<Rightarrow> PTPSeconds" where
  "NewPTPSeconds t =
     (if IsZero t then zero_seconds else seconds_of_u64 (word_of_int (time_Unix t)))"

record Timestamp =
  ts_Seconds :: PTPSeconds
  ts_Nanoseconds :: u32

abbreviation zero_timestamp :: Timestamp where
  "zero_timestamp \<equiv> \<lparr>ts_Seconds = zero_seconds, ts_Nanoseconds = 0\<rparr>"

definition Timestamp_Empty :: "Timestamp \<Rightarrow> bool" where
  "Timestamp_Empty t \<longleftrightarrow> ts_Nanoseconds t = 0 \<and> PTPSeconds_Empty (ts_Seconds t)"

definition Timestamp_Time :: "Timestamp \<Rightarrow> time" where
  "Timestamp_Time t =
     (if Timestamp_Empty t then zero_time
      else unix_time (sint (PTPSeconds_Seconds (ts_Seconds t))) (uint (ts_Nanoseconds t)))"

definition NewTimestamp :: "time \<Rightarrow> Timestamp" where
  "NewTimestamp t =
     (if IsZero t then zero_timestamp
      else \<lparr>ts_Seconds = seconds_of_u64 (word_of_int (time_Unix t)),
            ts_Nanoseconds = word_of_int (time_Nanosecond t)\<rparr>)"

subsection \<open>Clock accuracy\<close>

abbreviation ClockAccuracyNanosecond25 :: u8 where "ClockAccuracyNanosecond25 \<equiv> 0x20"
abbreviation ClockAccuracyNanosecond100 :: u8 where "ClockAccuracyNanosecond100 \<equiv> 0x21"
abbreviation ClockAccuracyNanosecond250 :: u8 where "ClockAccuracyNanosecond250 \<equiv> 0x22"
abbreviation ClockAccuracyMicrosecond1 :: u8 where "ClockAccuracyMicrosecond1 \<equiv> 0x23"
abbreviation ClockAccuracyMicrosecond2point5 :: u8 where "ClockAccuracyMicrosecond2point5 \<equiv> 0x24"
abbreviation ClockAccuracyMicrosecond10 :: u8 where "ClockAccuracyMicrosecond10 \<equiv> 0x25"
abbreviation ClockAccuracyMicrosecond25 :: u8 where "ClockAccuracyMicrosecond25 \<equiv> 0x26"
abbreviation ClockAccuracyMicrosecond100 :: u8 where "ClockAccuracyMicrosecond100 \<equiv> 0x27"
abbreviation ClockAccuracyMicrosecond250 :: u8 where "ClockAccuracyMicrosecond250 \<equiv> 0x28"
abbreviation ClockAccuracyMillisecond1 :: u8 where "ClockAccuracyMillisecond1 \<equiv> 0x29"
abbreviation ClockAccuracyMillisecond2point5 :: u8 where "ClockAccuracyMillisecond2point5 \<equiv> 0x2A"
abbreviation ClockAccuracyMillisecond10 :: u8 where "ClockAccuracyMillisecond10 \<equiv> 0x2B"
abbreviation ClockAccuracyMillisecond25 :: u8 where "ClockAccuracyMillisecond25 \<equiv> 0x2C"
abbreviation ClockAccuracyMillisecond100 :: u8 where "ClockAccuracyMillisecond100 \<equiv> 0x2D"
abbreviation ClockAccuracyMillisecond250 :: u8 where "ClockAccuracyMillisecond250 \<equiv> 0x2E"
abbreviation ClockAccuracySecond1 :: u8 where "ClockAccuracySecond1 \<equiv> 0x2F"
abbreviation ClockAccuracySecond10 :: u8 where "ClockAccuracySecond10 \<equiv> 0x30"
abbreviation ClockAccuracySecondGreater10 :: u8 where "ClockAccuracySecondGreater10 \<equiv> 0x31"

definition ClockAccuracyFromOffset :: "duration \<Rightarrow> u8" where
  "ClockAccuracyFromOffset offset0 =
    (let offset = (if offset0 < 0 then wrap64 (offset0 * - 1) else offset0) in
     if offset \<le> 25 * Nanosecond then ClockAccuracyNanosecond25
     else if offset \<le> 100 * Nanosecond then ClockAccuracyNanosecond100
     else if offset \<le> 250 * Nanosecond then ClockAccuracyNanosecond250
     else if offset \<le> Microsecond then ClockAccuracyMicrosecond1
     else if offset \<le> 2500 * Nanosecond then ClockAccuracyMicrosecond2point5
     else if offset \<le> 10 * Microsecond then ClockAccuracyMicrosecond10
     else if offset \<le> 25 * Microsecond then ClockAccuracyMicrosecond25
     else if offset \<le> 100 * Microsecond then ClockAccuracyMicrosecond100
     else if offset \<le> 250 * Microsecond then ClockAccuracyMicrosecond250
     else if offset \<le> Millisecond then ClockAccuracyMillisecond1
     else if offset \<le> 2500 * Microsecond then ClockAccuracyMillisecond2point5
     else if offset \<le> 10 * Millisecond then ClockAccuracyMillisecond10
     else if offset \<le> 25 * Millisecond then ClockAccuracyMillisecond25
     else if offset \<le> 100 * Millisecond then ClockAccuracyMillisecond100
     else if offset \<le> 250 * Millisecond then ClockAccuracyMillisecond250
     else if offset \<le> Second then ClockAccuracySecond1
     else if offset \<le> 10 * Second then ClockAccuracySecond10
     else ClockAccuracySecondGreater10)"

definition ClockAccuracy_Duration :: "u8 \<Rightarrow> duration" where
  "ClockAccuracy_Duration c =
    (if c = ClockAccuracyNanosecond25 then 25 * Nanosecond
     else if c = ClockAccuracyNanosecond100 then 100 * Nanosecond
     else if c = ClockAccuracyNanosecond250 then 250 * Nanosecond
     else if c = ClockAccuracyMicrosecond1 then 1000 * Nanosecond
     else if c = ClockAccuracyMicrosecond2point5 then 2500 * Nanosecond
     else if c = ClockAccuracyMicrosecond10 then 10 * Microsecond
     else if c = ClockAccuracyMicrosecond25 then 25 * Microsecond
     else if c = ClockAccuracyMicrosecond100 then 100 * Microsecond
     else if c = ClockAccuracyMicrosecond250 then 250 * Microsecond
     else if c = ClockAccuracyMillisecond1 then 1 * Millisecond
     else if c = ClockAccuracyMillisecond2point5 then 2500 * Microsecond
     else if c = ClockAccuracyMillisecond10 then 10 * Millisecond
     else if c = ClockAccuracyMillisecond25 then 25 * Millisecond
     else if c = ClockAccuracyMillisecond100 then 100 * Millisecond
     else if c = ClockAccuracyMillisecond250 then 250 * Millisecond
     else if c = ClockAccuracySecond1 then 1 * Second
     else if c = ClockAccuracySecond10 then 10 * Second
     else 25 * Second)"

text \<open>The time source of the announcements; the others are in \<^verbatim>\<open>Ptp_Text\<close>.\<close>

abbreviation TimeSourceGNSS :: u8 where "TimeSourceGNSS \<equiv> 0x20"

record ClockQuality =
  ClockClass :: u8
  ClockAccuracy :: u8
  OffsetScaledLogVariance :: u16

subsection \<open>Log intervals\<close>

text \<open>
  \<^verbatim>\<open>Duration\<close> multiplies the exact power of two by the float of a second (the product needs
  21 bits, so it is exact) and converts to \<^verbatim>\<open>int64\<close>, which truncates. From exponent 34 on
  the product exceeds \<^verbatim>\<open>int64\<close> and Go leaves the result to the target: \<open>oor\<close> is what the
  target gives (the least \<^verbatim>\<open>int64\<close> on amd64, the largest on arm64).
  \<^verbatim>\<open>NewLogInterval\<close> takes \<^verbatim>\<open>int(math.Log2(d.Seconds()))\<close> from the floating-point library:
  \<open>log2i d\<close> stands for it.
\<close>

definition LogInterval_Duration :: "int \<Rightarrow> u8 \<Rightarrow> duration" where
  "LogInterval_Duration oor i =
     (if sint i \<ge> 34 then oor
      else if sint i \<ge> 0 then 2 ^ nat (sint i) * Second
      else Second div 2 ^ nat (- sint i))"

definition NewLogInterval :: "(duration \<Rightarrow> int) \<Rightarrow> duration \<Rightarrow> u8 \<times> go_error option" where
  "NewLogInterval log2i d =
     (let li = log2i d in
      if li > 127 then (0, Some (ErrLogIntervalTooBig li))
      else if li < - 128 then (0, Some (ErrLogIntervalTooSmall li))
      else (word_of_int li, None))"

subsection \<open>Text\<close>

text \<open>
  A \<^verbatim>\<open>PTPText\<close> is a Go string, that is bytes. \<^verbatim>\<open>UnmarshalBinary\<close> leaves its receiver alone
  when the text is empty, and computes \<^verbatim>\<open>length+1\<close> in \<^verbatim>\<open>uint8\<close>. It reads the text
  through a \<^verbatim>\<open>bytes.Reader\<close>, which fails, without a panic, when bytes are missing.
\<close>

definition PTPText_UnmarshalBinary :: "bytes \<Rightarrow> bytes \<Rightarrow> bytes \<times> go_error option" where
  "PTPText_UnmarshalBinary p rawBytes =
     (case rawBytes of
        [] \<Rightarrow> (p, Some (ErrRead ''PTPText LengthField''))
      | len # reader \<Rightarrow>
          if len = 0 then (p, None)
          else if length rawBytes < unat (len + 1)
          then (p, Some (ErrTextShort (length rawBytes) (len + 1)))
          else if length reader < unat len
          then (p, Some (ErrRead ''PTPText TextField''))
          else (take (unat len) reader, None))"

definition PTPText_MarshalBinary :: "bytes \<Rightarrow> go_error + bytes" where
  "PTPText_MarshalBinary p =
     (if length p > 255 then Inl ErrTextTooLong
      else let len = (word_of_nat (length p) :: u8) in
        Inr (len # p @ (if len mod 2 \<noteq> 0 then [0] else [])))"

subsection \<open>Port addresses\<close>

abbreviation TransportTypeUDPIPV4 :: u16 where "TransportTypeUDPIPV4 \<equiv> 1"
abbreviation TransportTypeUDPIPV6 :: u16 where "TransportTypeUDPIPV6 \<equiv> 2"

record PortAddress =
  NetworkProtocol :: u16
  AddressLength :: u16
  AddressField :: bytes

text \<open>The upper bound of the slice \<^verbatim>\<open>b[4:4+p.AddressLength]\<close> is computed in \<^verbatim>\<open>uint16\<close>.\<close>

definition PortAddress_UnmarshalBinary ::
  "PortAddress \<Rightarrow> bytes \<Rightarrow> (PortAddress \<times> go_error option) option" where
  "PortAddress_UnmarshalBinary p b =
     (if length b < 8 then Some (p, Some (ErrNotEnoughData ''PortAddress''))
      else do {
        np \<leftarrow> get16 0 b;
        al \<leftarrow> get16 2 b;
        let p = p\<lparr>NetworkProtocol := np, AddressLength := al\<rparr>;
        if length b < 4 + unat al
        then Some (p, Some (ErrNotEnoughData ''PortAddress address''))
        else do {
          src \<leftarrow> slice2 4 (unat (4 + al)) b;
          Some (p\<lparr>AddressField := take (unat al) src @ replicate (unat al - length src) 0\<rparr>, None)
        }
      })"

definition PortAddress_IP :: "PortAddress \<Rightarrow> go_error + bytes" where
  "PortAddress_IP p =
     (if NetworkProtocol p \<noteq> TransportTypeUDPIPV4 \<and> NetworkProtocol p \<noteq> TransportTypeUDPIPV6
      then Inl (ErrUnsupportedNetworkProtocol (NetworkProtocol p))
      else if NetworkProtocol p = TransportTypeUDPIPV4
              \<and> (AddressLength p \<noteq> 4 \<or> length (AddressField p) \<noteq> 4)
      then Inl (ErrUnexpectedAddressLength (length (AddressField p)))
      else if NetworkProtocol p = TransportTypeUDPIPV6
              \<and> (AddressLength p \<noteq> 16 \<or> length (AddressField p) \<noteq> 16)
      then Inl (ErrUnexpectedAddressLength (length (AddressField p)))
      else Inr (AddressField p))"

definition PortAddress_MarshalBinary :: "PortAddress \<Rightarrow> bytes" where
  "PortAddress_MarshalBinary p =
     be16 (NetworkProtocol p) @ be16 (AddressLength p) @ AddressField p"

subsection \<open>Lemmas on seconds\<close>

lemma length_seconds_list [simp]: "length (seconds_list s) = 6"
  by (cases s) simp

lemma seconds_of_list_list [simp]: "seconds_of_list (seconds_list s @ xs) = s"
  by (cases s) (simp add: seconds_of_list_def)

lemma seconds_copy_prefix [codec_simps]: "seconds_copy s (seconds_list t @ b) = t"
  using seconds_of_list_list [of t "[]"] by (simp add: seconds_copy_def)

lemma seconds_copy_Some: "6 \<le> length b \<Longrightarrow> seconds_list (seconds_copy s b) = take 6 b"
  by (auto simp: seconds_copy_def seconds_of_list_def numeral_eq_Suc Suc_le_length_iff)

lemma seconds_list_inj: "seconds_list s = seconds_list t \<Longrightarrow> s = t"
  by (cases s; cases t) simp

lemma Seconds_be_val: "PTPSeconds_Seconds s = be_val (seconds_list s)"
  by (cases s)
    (simp add: be_val_def push_bit_or or.assoc or.commute or.left_commute)

lemma seconds_of_u64_list: "seconds_list (seconds_of_u64 v) = be_bytes 6 v"
  by (simp add: seconds_of_u64_def be_bytes_def numeral_eq_Suc)

lemma Seconds_of_u64: "PTPSeconds_Seconds (seconds_of_u64 v) = take_bit 48 v"
  by (simp add: Seconds_be_val seconds_of_u64_list be_val_be_bytes_gen)

lemma Seconds_inj:
  assumes "PTPSeconds_Seconds s = PTPSeconds_Seconds t"
  shows "s = t"
proof -
  have "be_bytes 6 (PTPSeconds_Seconds x) = seconds_list x" for x
    unfolding Seconds_be_val by (rule be_bytes_be_val) simp_all
  then show ?thesis using assms by (metis seconds_list_inj)
qed

subsection \<open>Properties\<close>

lemma if_caseI: "(a \<Longrightarrow> P b) \<Longrightarrow> (\<not> a \<Longrightarrow> P c) \<Longrightarrow> P (if a then b else c)"
  by simp

lemma sint_of_int_small: "0 \<le> x \<Longrightarrow> x < 2 ^ 63 \<Longrightarrow> sint (word_of_int x :: u64) = x"
  by (simp add: signed_of_int signed_take_bit_int_eq_self)

lemma take_bit_of_int_small:
  "0 \<le> x \<Longrightarrow> x < 2 ^ 48 \<Longrightarrow> take_bit 48 (word_of_int x :: u64) = word_of_int x"
  by (simp add: take_bit_of_int take_bit_int_eq_self)

lemma sint_Seconds_of_time:
  assumes "0 \<le> x" "x < 2 ^ 48"
  shows "sint (PTPSeconds_Seconds (seconds_of_u64 (word_of_int x))) = x"
  using assms by (simp add: Seconds_of_u64 take_bit_of_int_small sint_of_int_small)

lemma seconds_of_time_Empty:
  assumes "0 \<le> x" "x < 2 ^ 48"
  shows "PTPSeconds_Empty (seconds_of_u64 (word_of_int x)) \<longleftrightarrow> x = 0"
proof -
  have "sint (PTPSeconds_Seconds zero_seconds) = 0" by simp
  then show ?thesis
    using sint_Seconds_of_time [OF assms] Seconds_inj [of _ zero_seconds]
    by (auto simp: PTPSeconds_Empty_def) (simp add: seconds_of_u64_def)
qed

text \<open>C34: every time after the Unix epoch whose seconds fit 48 bits survives the conversion to an 80-bit PTP timestamp and back, nanoseconds included (the epoch itself becomes the empty timestamp).\<close>

theorem timestamp_roundtrip:
  assumes "0 < t" and "t < 2 ^ 48 * 1000000000"
  shows "Timestamp_Time (NewTimestamp t) = t"
proof -
  let ?s = "t div 1000000000" and ?n = "t mod 1000000000"
  have s: "0 \<le> ?s" "?s < 2 ^ 48" using assms by auto
  have n: "0 \<le> ?n" "?n < 1000000000" by simp_all
  then have nn: "uint (word_of_int ?n :: u32) = ?n"
    by (simp add: uint_word_of_int_eq take_bit_int_eq_self)
  have nz: "\<not> IsZero t" using assms(1) by (simp add: IsZero_def zero_time_def)
  have "\<not> (?s = 0 \<and> ?n = 0)" using assms(1) by (metis add_0 div_mult_mod_eq mult_zero_left less_irrefl)
  moreover have "(word_of_int ?n :: u32) = 0 \<longleftrightarrow> ?n = 0" using nn by (metis uint_0_iff)
  ultimately have ne: "\<not> Timestamp_Empty (NewTimestamp t)"
    using seconds_of_time_Empty [OF s] nz
    by (auto simp: Timestamp_Empty_def NewTimestamp_def time_Unix_def time_Nanosecond_def)
  have "int64_range ?s" using s by (simp add: int64_range_def)
  then show ?thesis
    using ne nz unix_time_normal(1) [of ?s ?n] n nn sint_Seconds_of_time [OF s]
    by (simp add: Timestamp_Time_def NewTimestamp_def time_Unix_def time_Nanosecond_def)
qed

theorem timestamp_roundtrip_witness:
  "Timestamp_Time (NewTimestamp 1700000000123456789) = 1700000000123456789"
  by (rule timestamp_roundtrip) simp_all



text \<open>Each of the seventeen bounded accuracy classes is the one chosen for its own bound.\<close>

lemma clock_accuracy_tightest:
  assumes "0x20 \<le> c" and "c \<le> 0x30"
  shows "ClockAccuracyFromOffset (ClockAccuracy_Duration c) = c"
proof -
  have "unat c \<in> {32..48}" using assms by (simp add: word_le_nat_alt)
  moreover have "c = word_of_nat (unat c)" by simp
  ultimately obtain n where "c = word_of_nat n" and "n \<in> {32..48}" by blast
  then show ?thesis
    by (auto simp: ClockAccuracyFromOffset_def ClockAccuracy_Duration_def atLeastAtMost_upt upt_rec)
qed

lemma clock_accuracy_tightest_witness:
  "ClockAccuracyFromOffset (ClockAccuracy_Duration 0x2A) = 0x2A"
  by (rule clock_accuracy_tightest) simp_all

text \<open>The clock identity built from an EUI-48 address is defined and gives the address back.\<close>

lemma clock_identity_mac:
  assumes "length mac = 6"
  shows "\<exists>c. NewClockIdentity mac = Inr c \<and> ClockIdentity_MAC c = mac"
proof -
  obtain a b c d e f where mac: "mac = [a, b, c, d, e, f]"
    using assms by (auto simp: numeral_eq_Suc length_Suc_conv)
  let ?v = "be_val [a, b, c, 0xFF, 0xFE, d, e, f] :: u64"
  have "be_bytes 8 ?v = [a, b, c, 0xFF, 0xFE, d, e, f]" by (rule be_bytes_be_val) simp_all
  then show ?thesis
    by (simp add: mac NewClockIdentity_def ClockIdentity_MAC_def be_bytes_def numeral_eq_Suc)
qed

lemma clock_identity_mac_witness:
  "\<exists>c. NewClockIdentity [0x0c, 0x42, 0xa1, 0x6d, 0x7c, 0xa6] = Inr c
     \<and> ClockIdentity_MAC c = [0x0c, 0x42, 0xa1, 0x6d, 0x7c, 0xa6]"
  by (rule clock_identity_mac) simp

lemma unat_of_nat_u8: "n \<le> 255 \<Longrightarrow> unat (word_of_nat n :: u8) = n"
  by (simp add: unat_of_nat)

lemma u8_succ:
  assumes "(v :: u8) \<noteq> 255"
  shows "unat (v + 1) = unat v + 1"
proof -
  have "unat v < 2 ^ LENGTH(8)" by (rule unsigned_less)
  moreover have "unat v \<noteq> 255" using assms by (auto simp: word_unat_eq_iff)
  ultimately show ?thesis by (simp add: unat_word_ariths)
qed

lemma u8_odd: "(v :: u8) mod 2 = 0 \<longleftrightarrow> even (unat v)"
  by (simp add: word_unat_eq_iff unat_mod even_iff_mod_2_eq_zero)

lemma ptptext_marshal_eq:
  "length p \<le> 255 \<Longrightarrow> PTPText_MarshalBinary p =
     Inr (word_of_nat (length p) # p @ (if odd (length p) then [0] else []))"
  by (simp add: PTPText_MarshalBinary_def Let_def u8_odd unat_of_nat_u8)

lemma ptptext_unmarshal_eq:
  assumes "length p \<le> 255"
  shows "PTPText_UnmarshalBinary [] (word_of_nat (length p) # p @ rest) = (p, None)"
proof -
  let ?l = "word_of_nat (length p) :: u8"
  have l: "unat ?l = length p" using assms by (rule unat_of_nat_u8)
  have z: "?l = 0 \<longleftrightarrow> p = []" using l by (metis length_0_conv unat_0_iff)
  have "unat (?l + 1) \<le> Suc (length p)"
    using u8_succ [of ?l] l by (cases "?l = 255") auto
  then show ?thesis
    using l z by (auto simp: PTPText_UnmarshalBinary_def)
qed

text \<open>A text of at most 255 bytes marshals, takes an odd number of bytes with its length byte and padding, and unmarshals to itself whatever follows it.\<close>

lemma ptptext_roundtrip:
  assumes "length p \<le> 255"
  shows "\<exists>raw. PTPText_MarshalBinary p = Inr raw \<and> odd (length raw)
    \<and> PTPText_UnmarshalBinary [] (raw @ rest) = (p, None)"
  using ptptext_marshal_eq [OF assms] ptptext_unmarshal_eq [OF assms] by simp

lemma ptptext_roundtrip_witness:
  "\<exists>raw. PTPText_MarshalBinary [0x50, 0x53, 0x54] = Inr raw \<and> odd (length raw)
    \<and> PTPText_UnmarshalBinary [] (raw @ [1, 2]) = ([0x50, 0x53, 0x54], None)"
  by (rule ptptext_roundtrip) simp

lemma sint_u8_range: "- 128 \<le> sint (i :: u8) \<and> sint i \<le> 127"
  using sint_ge [of i] sint_lt [of i] by simp

lemma log_interval_duration_pos:
  assumes "sint i < 34"
  shows "0 < LogInterval_Duration oor i \<longleftrightarrow> - 30 < sint i"
proof (cases "sint i \<ge> 0")
  case True
  then show ?thesis using assms by (simp add: LogInterval_Duration_def)
next
  case False
  let ?k = "nat (- sint i)"
  have "0 < Second div 2 ^ ?k \<longleftrightarrow> (2::int) ^ ?k \<le> Second"
    by (simp add: pos_imp_zdiv_pos_iff)
  also have "\<dots> \<longleftrightarrow> ?k < 30"
  proof
    assume "(2::int) ^ ?k \<le> Second"
    then show "?k < 30"
      using power_increasing [of 30 ?k "2::int"] by (cases "?k < 30") simp_all
  next
    assume "?k < 30"
    then show "(2::int) ^ ?k \<le> Second"
      using power_increasing [of ?k 29 "2::int"] by simp
  qed
  finally show ?thesis using False by (auto simp: LogInterval_Duration_def)
qed

text \<open>For exponents below 34 the period is a non-negative int64, and it is zero exactly for exponents of -30 and less.\<close>

lemma log_interval_duration_bounds:
  assumes "sint i < 34"
  shows "int64_range (LogInterval_Duration oor i) \<and> 0 \<le> LogInterval_Duration oor i
    \<and> (LogInterval_Duration oor i = 0 \<longleftrightarrow> sint i \<le> - 30)"
proof -
  have nn: "0 \<le> LogInterval_Duration oor i"
    using assms by (auto simp: LogInterval_Duration_def intro: pos_imp_zdiv_nonneg_iff [THEN iffD2])
  have "LogInterval_Duration oor i \<le> 2 ^ 33 * Second"
  proof (cases "sint i \<ge> 0")
    case True
    then have "(2::int) ^ nat (sint i) \<le> 2 ^ 33" using assms by (intro power_increasing) auto
    then show ?thesis using True assms by (simp add: LogInterval_Duration_def)
  next
    case False
    have "Second div 2 ^ nat (- sint i) \<le> Second"
      using zdiv_mono2 [of Second 1 "2 ^ nat (- sint i)"] by simp
    then show ?thesis using False by (simp add: LogInterval_Duration_def)
  qed
  then show ?thesis
    using nn log_interval_duration_pos [OF assms, of oor] by (auto simp: int64_range_def)
qed

lemma log_interval_duration_bounds_witness:
  "int64_range (LogInterval_Duration 0 (- 30)) \<and> 0 \<le> LogInterval_Duration 0 (- 30)
    \<and> (LogInterval_Duration 0 (- 30) = 0 \<longleftrightarrow> sint (- 30 :: u8) \<le> - 30)"
  by (rule log_interval_duration_bounds) simp

text \<open>A period computed from an exponent in (-30, 34) converts back to that exponent without error, given that the floating-point binary logarithm is exact on powers of two and truncates towards zero below one second.\<close>

lemma log_interval_roundtrip:
  assumes exact: "\<And>k. k < 34 \<Longrightarrow> log2i (2 ^ k * Second) = int k"
    and trunc: "\<And>j d. 0 < d \<Longrightarrow> d * 2 ^ j \<le> Second \<Longrightarrow> Second < d * 2 ^ Suc j \<Longrightarrow> log2i d = - int j"
    and range: "- 30 < sint i" "sint i < 34"
  shows "NewLogInterval log2i (LogInterval_Duration oor i) = (i, None)"
proof -
  have "log2i (LogInterval_Duration oor i) = sint i"
  proof (cases "sint i \<ge> 0")
    case True
    then show ?thesis using exact [of "nat (sint i)"] range by (simp add: LogInterval_Duration_def)
  next
    case False
    let ?j = "nat (- sint i)" and ?d = "Second div 2 ^ nat (- sint i)"
    have d: "LogInterval_Duration oor i = ?d" using False by (simp add: LogInterval_Duration_def)
    have pos: "0 < ?d" using log_interval_duration_pos [of i oor] range d by simp
    have q: "?d * 2 ^ ?j + Second mod 2 ^ ?j = Second" by (rule div_mult_mod_eq)
    have r: "0 \<le> Second mod 2 ^ ?j" "Second mod 2 ^ ?j < 2 ^ ?j" by simp_all
    have "2 ^ ?j * 1 \<le> 2 ^ ?j * ?d" using pos by (intro mult_left_mono) simp_all
    then have "2 ^ ?j \<le> ?d * 2 ^ ?j" by (simp add: mult.commute)
    moreover have "?d * 2 ^ Suc ?j = 2 * (?d * 2 ^ ?j)" by simp
    ultimately have "?d * 2 ^ ?j \<le> Second" "Second < ?d * 2 ^ Suc ?j"
      using q r by linarith+
    with pos have "log2i ?d = - int ?j" by (rule trunc)
    then show ?thesis using d False by simp
  qed
  then show ?thesis using range by (simp add: NewLogInterval_def)
qed

text \<open>A logarithm with those properties, which shows that they can hold.\<close>

definition log2_ideal :: "duration \<Rightarrow> int" where
  "log2_ideal d =
     (if Second \<le> d then int (floorlog 2 (nat (d div Second))) - 1
      else 1 - int (floorlog 2 (nat (Second div d))))"

lemma floorlog_2_eq: "2 ^ j \<le> n \<Longrightarrow> n < 2 ^ Suc j \<Longrightarrow> floorlog 2 n = Suc j"
  using floorlog_le_iff [of 2 n j] floorlog_le_iff [of 2 n "Suc j"] by simp

lemma log2_ideal_exact: "k < 34 \<Longrightarrow> log2_ideal (2 ^ k * Second) = int k"
proof -
  have "1 \<le> (2::int) ^ k" by simp
  moreover have "floorlog 2 (2 ^ k) = Suc k" by (rule floorlog_2_eq) simp_all
  ultimately show ?thesis by (simp add: log2_ideal_def nat_power_eq)
qed

lemma log2_ideal_trunc:
  assumes "0 < d" "d * 2 ^ j \<le> Second" "Second < d * 2 ^ Suc j"
  shows "log2_ideal d = - int j"
proof (cases "Second \<le> d")
  case True
  have "1 \<le> (2::int) ^ j" by simp
  then have "d * 1 \<le> d * 2 ^ j" using assms(1) by (intro mult_left_mono) simp_all
  then have d: "d = Second" using True assms(2) by linarith
  then have "(2::int) ^ j \<le> 1" using assms(2) by simp
  then have "j = 0" using power_increasing [of 1 j "2::int"] by (cases "j = 0") simp_all
  then show ?thesis using d floorlog_2_eq [of 0 1] by (simp add: log2_ideal_def)
next
  case False
  have "2 ^ j \<le> Second div d"
    using zdiv_mono1 [OF assms(2), of d] assms(1) by simp
  moreover have "Second div d < 2 ^ Suc j"
  proof -
    have "d * (Second div d) \<le> Second"
      using mult_div_mod_eq [of d Second] pos_mod_sign [OF assms(1), of Second] by linarith
    then have "d * (Second div d) < d * 2 ^ Suc j" using assms(3) by linarith
    then show ?thesis using assms(1) by (simp only: mult_less_cancel_left_pos)
  qed
  ultimately have "2 ^ j \<le> nat (Second div d)" "nat (Second div d) < 2 ^ Suc j"
    by (simp_all add: nat_less_iff le_nat_iff)
  then show ?thesis using False floorlog_2_eq by (simp add: log2_ideal_def)
qed

lemma log_interval_roundtrip_witness:
  "NewLogInterval log2_ideal (LogInterval_Duration 0 (- 3)) = (- 3, None)"
  by (rule log_interval_roundtrip [OF log2_ideal_exact log2_ideal_trunc]) simp_all

text \<open>Compare is 0 exactly on equal identities, is -1 and 1 exactly for the strict linear order by clock identity and port number, and is antisymmetric.\<close>

lemma port_identity_compare:
  "(PortIdentity_Compare p q = 0 \<longleftrightarrow> p = q)
   \<and> (PortIdentity_Compare p q = - 1 \<longleftrightarrow> p < q) \<and> (PortIdentity_Compare p q = 1 \<longleftrightarrow> q < p)
   \<and> PortIdentity_Compare q p = - PortIdentity_Compare p q"
  by (auto simp: less_PortIdentity_def PortIdentity_Less_def PortIdentity_Compare_def
      PortIdentity.expand split: if_splits)

lemma u16_4_plus: 
  "unat (4 + (al :: u16)) = (if unat al < 65532 then 4 + unat al else unat al - 65532)"
proof -
  have "unat al < 2 ^ LENGTH(16)" by (rule unsigned_less)
  then show ?thesis by (auto simp: unat_word_ariths le_mod_geq)
qed

text \<open>Decoding a port address panics exactly when the buffer holds at least 65536 bytes and announces an address of 65532 bytes or more that the buffer covers, since the end of the slice is computed in 16 bits.\<close>

lemma port_address_panics:
  "PortAddress_UnmarshalBinary p b = None \<longleftrightarrow>
     65536 \<le> length b \<and> 65532 \<le> unat (be_val (take 2 (drop 2 b)) :: u16)
       \<and> 4 + unat (be_val (take 2 (drop 2 b)) :: u16) \<le> length b"
proof -
  let ?al = "be_val (take 2 (drop 2 b)) :: u16"
  have "unat ?al < 2 ^ LENGTH(16)" by (rule unsigned_less)
  then show ?thesis
    by (auto simp: PortAddress_UnmarshalBinary_def get16_def read_at_def slice2_def u16_4_plus Let_def)
qed

text \<open>A port address whose length field is the length of its address, between 4 and 65531 bytes, decodes from its own encoding whatever follows it.\<close>

lemma port_address_roundtrip:
  assumes "unat (AddressLength p) = length (AddressField p)" and "4 \<le> length (AddressField p)"
    and "length (AddressField p) < 65532"
  shows "PortAddress_UnmarshalBinary q (PortAddress_MarshalBinary p @ rest) = Some (p, None)"
  using assms
  by (simp add: PortAddress_UnmarshalBinary_def PortAddress_MarshalBinary_def get16_def
      slice2_def u16_4_plus Let_def)

lemma port_address_roundtrip_witness:
  "PortAddress_UnmarshalBinary \<lparr>NetworkProtocol = 0, AddressLength = 0, AddressField = []\<rparr>
     (PortAddress_MarshalBinary \<lparr>NetworkProtocol = 1, AddressLength = 4, AddressField = [10, 0, 0, 1]\<rparr> @ [])
   = Some (\<lparr>NetworkProtocol = 1, AddressLength = 4, AddressField = [10, 0, 0, 1]\<rparr>, None)"
  by (rule port_address_roundtrip) simp_all

end
