(* ===== verification/Ptp_Timestamp.thy ===== *)
theory Ptp_Timestamp
  imports Ptp_Types
begin

section \<open>Timestamp kinds and socket addresses (\<^verbatim>\<open>src/timestamp/timestamp.go\<close>)\<close>

text \<open>
  The timestamp kind with its textual form, the conversions between IP addresses and socket
  addresses, and the IP operations of Go's \<^verbatim>\<open>net\<close> package they use. A \<^verbatim>\<open>net.IP\<close> is a byte
  list, \<^verbatim>\<open>nil\<close> the empty one.
\<close>

subsection \<open>Timestamp kinds\<close>

type_synonym TimestampKind = int

abbreviation SW :: TimestampKind where "SW \<equiv> 0"
abbreviation SWRX :: TimestampKind where "SWRX \<equiv> 1"
abbreviation HW :: TimestampKind where "HW \<equiv> 2"
abbreviation HWRX :: TimestampKind where "HWRX \<equiv> 3"

definition Unsupported :: string where
  "Unsupported = ''Unsupported''"

definition timestampToString :: "(TimestampKind \<times> string) list" where
  "timestampToString =
     [(SW, ''software''), (SWRX, ''software_rx''), (HW, ''hardware''), (HWRX, ''hardware_rx'')]"

definition Kind_String :: "TimestampKind \<Rightarrow> string" where
  "Kind_String t = (case map_of timestampToString t of Some v \<Rightarrow> v | None \<Rightarrow> Unsupported)"

text \<open>\<^verbatim>\<open>MarshalText\<close> returns text and an optional error, here the kind it could not name.\<close>

definition Kind_MarshalText :: "TimestampKind \<Rightarrow> string \<times> string option" where
  "Kind_MarshalText t =
     (case map_of timestampToString t of
        Some v \<Rightarrow> (Kind_String t, None)
      | None \<Rightarrow> (Unsupported, Some Unsupported))"

definition timestampFromString :: "string \<Rightarrow> string + TimestampKind" where
  "timestampFromString value =
     (case List.find (\<lambda>(k, v). v = value) timestampToString of
        Some (k, v) \<Rightarrow> Inr k
      | None \<Rightarrow> Inl value)"

definition Kind_Set :: "TimestampKind \<Rightarrow> string \<Rightarrow> TimestampKind \<times> string option" where
  "Kind_Set t value =
     (case timestampFromString value of
        Inl err \<Rightarrow> (t, Some err)
      | Inr ts \<Rightarrow> (ts, None))"

definition Kind_UnmarshalText :: "TimestampKind \<Rightarrow> string \<Rightarrow> TimestampKind \<times> string option" where
  "Kind_UnmarshalText t value = Kind_Set t value"

subsection \<open>IP addresses\<close>

definition v4InV6Prefix :: bytes where
  "v4InV6Prefix = [0, 0, 0, 0, 0, 0, 0, 0, 0, 0, 0xff, 0xff]"

definition To4 :: "bytes \<Rightarrow> bytes" where
  "To4 ip = (if length ip = 4 then ip
     else if length ip = 16 \<and> take 12 ip = v4InV6Prefix then drop 12 ip else [])"

definition To16 :: "bytes \<Rightarrow> bytes" where
  "To16 ip = (if length ip = 4 then v4InV6Prefix @ ip else if length ip = 16 then ip else [])"

definition IP_Equal :: "bytes \<Rightarrow> bytes \<Rightarrow> bool" where
  "IP_Equal ip x =
     (if length ip = length x then ip = x
      else if length ip = 4 \<and> length x = 16 then take 12 x = v4InV6Prefix \<and> ip = drop 12 x
      else if length ip = 16 \<and> length x = 4 then take 12 ip = v4InV6Prefix \<and> drop 12 ip = x
      else False)"

definition IPv6zero :: bytes where "IPv6zero = replicate 16 0"
definition IPv4zero :: bytes where "IPv4zero = v4InV6Prefix @ replicate 4 0"

text \<open>\<^verbatim>\<open>netip.Addr\<close>: the zero value, an IPv4 or an IPv6 address.\<close>

datatype Addr = AddrZero | AddrFrom4 bytes | AddrFrom16 bytes

fun Is4 :: "Addr \<Rightarrow> bool" where
  "Is4 (AddrFrom4 a) = True"
| "Is4 _ = False"

fun As16 :: "Addr \<Rightarrow> bytes" where
  "As16 AddrZero = replicate 16 0"
| "As16 (AddrFrom4 a) = v4InV6Prefix @ a"
| "As16 (AddrFrom16 a) = a"

subsection \<open>Socket addresses\<close>

text \<open>
  The values of the interface \<^verbatim>\<open>unix.Sockaddr\<close>: the IPv4 and IPv6 structures (port, IPv6
  zone, address bytes), any other socket address, and \<^verbatim>\<open>nil\<close>.
\<close>

datatype Sockaddr =
    SockaddrInet4 int bytes
  | SockaddrInet6 int u32 bytes
  | SockaddrOther
  | SockaddrNil

text \<open>\<^verbatim>\<open>copy(sa.Addr[:], ip)\<close> into a zeroed array of \<open>n\<close> bytes.\<close>

definition addr_array :: "nat \<Rightarrow> bytes \<Rightarrow> bytes" where
  "addr_array n ip = take n (ip @ replicate n 0)"

definition IPToSockaddr :: "bytes \<Rightarrow> int \<Rightarrow> Sockaddr" where
  "IPToSockaddr ip port =
     (if To4 ip \<noteq> [] then SockaddrInet4 port (addr_array 4 (To4 ip))
      else SockaddrInet6 port 0 (addr_array 16 (To16 ip)))"

fun AddrToSockaddr :: "Addr \<Rightarrow> int \<Rightarrow> Sockaddr" where
  "AddrToSockaddr (AddrFrom4 a) port = SockaddrInet4 port a"
| "AddrToSockaddr ip port = SockaddrInet6 port 0 (As16 ip)"

fun SockaddrToIP :: "Sockaddr \<Rightarrow> bytes" where
  "SockaddrToIP (SockaddrInet4 port addr) = addr"
| "SockaddrToIP (SockaddrInet6 port zone addr) = addr"
| "SockaddrToIP _ = []"

fun SockaddrToAddr :: "Sockaddr \<Rightarrow> Addr" where
  "SockaddrToAddr (SockaddrInet4 port addr) = AddrFrom4 addr"
| "SockaddrToAddr (SockaddrInet6 port zone addr) = AddrFrom16 addr"
| "SockaddrToAddr _ = AddrZero"

fun SockaddrToPort :: "Sockaddr \<Rightarrow> int" where
  "SockaddrToPort (SockaddrInet4 port addr) = port"
| "SockaddrToPort (SockaddrInet6 port zone addr) = port"
| "SockaddrToPort _ = 0"

fun NewSockaddrWithPort :: "Sockaddr \<Rightarrow> int \<Rightarrow> Sockaddr" where
  "NewSockaddrWithPort (SockaddrInet4 p addr) port = SockaddrInet4 port addr"
| "NewSockaddrWithPort (SockaddrInet6 p zone addr) port = SockaddrInet6 port 0 addr"
| "NewSockaddrWithPort _ port = SockaddrNil"

subsection \<open>Lemmas\<close>

lemma kinds_distinct: "distinct (map fst timestampToString)" "distinct (map snd timestampToString)"
  by (simp_all add: timestampToString_def)

lemma length_To4: "To4 ip \<noteq> [] \<Longrightarrow> length (To4 ip) = 4"
  by (auto simp: To4_def split: if_splits)

lemma length_IPv4zero [simp]: "length IPv4zero = 16" "length IPv6zero = 16"
  by (simp_all add: IPv4zero_def IPv6zero_def v4InV6Prefix_def)

lemma IP_Equal_refl [simp]: "IP_Equal ip ip"
  by (simp add: IP_Equal_def)

text \<open>The text of each of the four timestamp kinds is read back as that kind and any other text is rejected, leaving the kind unchanged.\<close>

lemma timestamp_kind_text:
  "(Kind_MarshalText t = (s, None) \<longrightarrow> Kind_UnmarshalText u s = (t, None))
   \<and> (s \<notin> snd ` set timestampToString \<longrightarrow> Kind_UnmarshalText u s = (u, Some s))"
  by (auto simp: Kind_MarshalText_def Kind_UnmarshalText_def Kind_Set_def timestampFromString_def
    Kind_String_def timestampToString_def split: if_splits)

lemma timestamp_kind_text_witness:
  "Kind_UnmarshalText SW ''hardware'' = (HW, None) \<and> Kind_UnmarshalText HW ''ntp'' = (HW, Some ''ntp'')"
  using timestamp_kind_text [of HW "''hardware''" SW] timestamp_kind_text [of HW "''ntp''" HW]
  by (simp add: Kind_MarshalText_def Kind_String_def timestampToString_def)

text \<open>A socket address made from an IPv4 or IPv6 address gives back an equal address and the port, and replacing the port of it changes the port alone.\<close>

lemma sockaddr_roundtrip:
  assumes "length ip = 4 \<or> length ip = 16"
  shows "IP_Equal ip (SockaddrToIP (IPToSockaddr ip port))
    \<and> SockaddrToPort (IPToSockaddr ip port) = port
    \<and> NewSockaddrWithPort (IPToSockaddr ip port) port' = IPToSockaddr ip port'"
  using assms by (auto simp: IPToSockaddr_def To4_def To16_def IP_Equal_def addr_array_def)

lemma sockaddr_roundtrip_witness:
  "IP_Equal [127, 0, 0, 1] (SockaddrToIP (IPToSockaddr [127, 0, 0, 1] 319))"
  using sockaddr_roundtrip [of "[127, 0, 0, 1]" 319 320] by simp

end
