(* ===== verification/Ptp_Config.thy ===== *)
theory Ptp_Config
  imports Ptp_Timestamp
begin

section \<open>Configuration (\<^verbatim>\<open>src/server/config.go\<close>, \<^verbatim>\<open>src/drain\<close>, \<^verbatim>\<open>src/main.go\<close>)\<close>

text \<open>
  The static and dynamic configuration with their validation, the files around them, the drain
  files, and the start-up sequence of \<^verbatim>\<open>main\<close> up to the server. What the
  operating system, the network package and the YAML package answer is the argument \<open>env\<close>.
\<close>

subsection \<open>Environment and errors\<close>

type_synonym os_error = string

datatype config_error =
    errUnsupportedDSCP int
  | errUnsupportedDomainNumber nat
  | errInvalidRecvWorkers int
  | errInvalidSendWorkers int
  | errInvalidMonitoringPort int
  | errNegativeQueueSize int
  | errUnsupportedTimestampType string
  | errInvalidIP
  | errIPNotFoundOnIface bytes string
  | errCheckingIPOnIface os_error
  | errInvalidPprofAddr os_error
  | errInsaneUTCoffset
  | errNegativeDuration
  | errInconsistentSubInt duration duration
  | errFile os_error
  | errYAML os_error

subsection \<open>Structures\<close>

record StaticConfig =
  ConfigFile :: string
  DebugAddr :: string
  cfg_DomainNumber :: nat
  DrainFileName :: string
  DSCP :: int
  Interface :: string
  cfg_IP :: bytes
  LogLevel :: string
  MonitoringPort :: int
  PidFile :: string
  QueueSize :: int
  RecvWorkers :: int
  SendWorkers :: int
  TimestampType :: TimestampKind
  UndrainFileName :: string

record DynamicConfig =
  cfg_ClockAccuracy :: u8
  cfg_ClockClass :: u8
  DrainInterval :: duration
  MaxSubDuration :: duration
  MetricInterval :: duration
  MinSubInterval :: duration
  UTCOffset :: duration

record Config =
  cfg_static :: StaticConfig
  cfg_dynamic :: DynamicConfig
  cfg_clockIdentity :: u64

text \<open>
  \<^verbatim>\<open>net.InterfaceByName\<close> with \<^verbatim>\<open>Addrs\<close> (the addresses of an interface, or an error)
  and with \<^verbatim>\<open>HardwareAddr\<close>,
  \<^verbatim>\<open>net.SplitHostPort\<close> (only its error is used), \<^verbatim>\<open>net.ParseIP\<close>, the file system
  (contents of readable files, \<^verbatim>\<open>os.Stat\<close>, and whether writing or removing a file fails), the process
  number, and \<^verbatim>\<open>yaml.Unmarshal\<close> into a configuration with \<^verbatim>\<open>yaml.Marshal\<close> of one.
\<close>

record config_env =
  InterfaceAddrs :: "string \<Rightarrow> os_error + bytes list"
  InterfaceMAC :: "string \<Rightarrow> os_error + bytes"
  SplitHostPort_error :: "string \<Rightarrow> os_error option"
  ParseIP :: "string \<Rightarrow> bytes"
  ReadFile :: "string \<Rightarrow> os_error + string"
  Stat_ok :: "string \<Rightarrow> bool"
  WriteFile_error :: "string \<Rightarrow> os_error option"
  Remove_error :: "string \<Rightarrow> os_error option"
  Getpid :: int
  yaml_Unmarshal :: "string \<Rightarrow> DynamicConfig \<Rightarrow> os_error + DynamicConfig"
  yaml_Marshal :: "DynamicConfig \<Rightarrow> os_error + string"

text \<open>\<^verbatim>\<open>os.WriteFile\<close> and \<^verbatim>\<open>os.Remove\<close>: the error, and the file system afterwards.\<close>

definition WriteFile :: "string \<Rightarrow> string \<Rightarrow> config_env \<Rightarrow> os_error option \<times> config_env" where
  "WriteFile path text env =
     (case WriteFile_error env path of
        Some err \<Rightarrow> (Some err, env)
      | None \<Rightarrow> (None, env\<lparr>ReadFile := (ReadFile env)(path := Inr text),
                            Stat_ok := (Stat_ok env)(path := True)\<rparr>))"

definition RemoveFile :: "string \<Rightarrow> config_env \<Rightarrow> os_error option \<times> config_env" where
  "RemoveFile path env =
     (case Remove_error env path of
        Some err \<Rightarrow> (Some err, env)
      | None \<Rightarrow> (None, env\<lparr>ReadFile := (ReadFile env)(path := Inl ''ENOENT''),
                            Stat_ok := (Stat_ok env)(path := False)\<rparr>))"

subsection \<open>Validation\<close>

definition ifaceIPs :: "config_env \<Rightarrow> string \<Rightarrow> os_error + bytes list" where
  "ifaceIPs env iface =
     (case InterfaceAddrs env iface of
        Inl err \<Rightarrow> Inl err
      | Inr addrs \<Rightarrow> Inr (addrs @ [IPv6zero] @ [IPv4zero]))"

definition IfaceHasIP :: "config_env \<Rightarrow> StaticConfig \<Rightarrow> os_error + bool" where
  "IfaceHasIP env c =
     (case ifaceIPs env (Interface c) of
        Inl err \<Rightarrow> Inl err
      | Inr ips \<Rightarrow> Inr (list_ex (IP_Equal (cfg_IP c)) ips))"

definition Config_Validate :: "config_env \<Rightarrow> StaticConfig \<Rightarrow> config_error option" where
  "Config_Validate env c =
     (if DSCP c < 0 \<or> DSCP c > 63 then Some (errUnsupportedDSCP (DSCP c))
      else if cfg_DomainNumber c > 255 then Some (errUnsupportedDomainNumber (cfg_DomainNumber c))
      else if RecvWorkers c \<le> 0 then Some (errInvalidRecvWorkers (RecvWorkers c))
      else if SendWorkers c \<le> 0 then Some (errInvalidSendWorkers (SendWorkers c))
      else if MonitoringPort c \<le> 0 \<or> MonitoringPort c > 65535
           then Some (errInvalidMonitoringPort (MonitoringPort c))
      else if QueueSize c < 0 then Some (errNegativeQueueSize (QueueSize c))
      else if TimestampType c \<noteq> SW \<and> TimestampType c \<noteq> HW
           then Some (errUnsupportedTimestampType (Kind_String (TimestampType c)))
      else if cfg_IP c = [] then Some errInvalidIP
      else case IfaceHasIP env c of
          Inl err \<Rightarrow> Some (errCheckingIPOnIface err)
        | Inr found \<Rightarrow>
            if \<not> found then Some (errIPNotFoundOnIface (cfg_IP c) (Interface c))
            else if DebugAddr c \<noteq> [] then
              (case SplitHostPort_error env (DebugAddr c) of
                 Some err \<Rightarrow> Some (errInvalidPprofAddr err)
               | None \<Rightarrow> None)
            else None)"

definition NewDefaultDynamicConfig :: DynamicConfig where
  "NewDefaultDynamicConfig =
     \<lparr>cfg_ClockAccuracy = 0x21, cfg_ClockClass = 6, DrainInterval = 30 * Second,
      MaxSubDuration = 1 * Hour, MetricInterval = 1 * Minute, MinSubInterval = 1 * Second,
      UTCOffset = 37 * Second\<rparr>"

definition DynamicConfig_Validate :: "DynamicConfig \<Rightarrow> config_error option" where
  "DynamicConfig_Validate dc =
     (if UTCOffset dc < 30 * Second \<or> UTCOffset dc > 50 * Second then Some errInsaneUTCoffset
      else if DrainInterval dc < 0 \<or> MaxSubDuration dc < 0 \<or> MetricInterval dc < 0
              \<or> MinSubInterval dc < 0 then Some errNegativeDuration
      else if MaxSubDuration dc < MinSubInterval dc
           then Some (errInconsistentSubInt (MaxSubDuration dc) (MinSubInterval dc))
      else None)"

definition ReadDynamicConfig :: "config_env \<Rightarrow> string \<Rightarrow> config_error + DynamicConfig" where
  "ReadDynamicConfig env path =
     (let dc = NewDefaultDynamicConfig in
      case ReadFile env path of
        Inl err \<Rightarrow> Inl (errFile err)
      | Inr cData \<Rightarrow>
          (case yaml_Unmarshal env cData dc of
             Inl err \<Rightarrow> Inl (errYAML err)
           | Inr dc \<Rightarrow>
               (case DynamicConfig_Validate dc of
                  Some err \<Rightarrow> Inl err
                | None \<Rightarrow> Inr dc)))"

definition DynamicConfig_Write :: "string \<Rightarrow> config_env \<Rightarrow> DynamicConfig \<Rightarrow> os_error option \<times> config_env" where
  "DynamicConfig_Write path env dc =
     (case yaml_Marshal env dc of
        Inl err \<Rightarrow> (Some err, env)
      | Inr d \<Rightarrow> WriteFile path d env)"

definition CreatePidFile :: "config_env \<Rightarrow> StaticConfig \<Rightarrow> os_error option \<times> config_env" where
  "CreatePidFile env c = WriteFile (PidFile c) (fmt_d (Getpid env) @ [CHR 0x0A]) env"

definition DeletePidFile :: "config_env \<Rightarrow> StaticConfig \<Rightarrow> os_error option \<times> config_env" where
  "DeletePidFile env c = RemoveFile (PidFile c) env"

datatype pid_error = PidRead os_error | PidParse atoi_error

definition ReadPidFile :: "config_env \<Rightarrow> string \<Rightarrow> pid_error + int" where
  "ReadPidFile env path =
     (case ReadFile env path of
        Inl err \<Rightarrow> Inl (PidRead err)
      | Inr content \<Rightarrow>
          (case Atoi (filter (\<lambda>c. c \<noteq> CHR 0x0A) content) of
             Inl err \<Rightarrow> Inl (PidParse err)
           | Inr pid \<Rightarrow> Inr pid))"

subsection \<open>Drain files\<close>

record FileDrain =
  FileName :: string

definition FileDrain_Check :: "config_env \<Rightarrow> FileDrain \<Rightarrow> bool" where
  "FileDrain_Check env f = Stat_ok env (FileName f)"

definition drain_Undrain :: "config_env \<Rightarrow> string \<Rightarrow> bool" where
  "drain_Undrain env filename = Stat_ok env filename"

subsection \<open>Start-up\<close>

datatype log_level = LevelDebug | LevelInfo | LevelWarn | LevelError

datatype exit_reason =
    UnrecognizedLogLevel string
  | CannotReadConfig config_error
  | ValidationFailed config_error

definition log_level_of :: "string \<Rightarrow> log_level option" where
  "log_level_of s =
     (if s = ''debug'' then Some LevelDebug
      else if s = ''info'' then Some LevelInfo
      else if s = ''warn'' \<or> s = ''warning'' then Some LevelWarn
      else if s = ''error'' then Some LevelError
      else None)"

text \<open>
  \<^verbatim>\<open>main\<close> after \<^verbatim>\<open>flag.Parse\<close>: the static part as the flags set it and the text of the
  \<^verbatim>\<open>-ip\<close> flag, to a validated configuration or the reason for exiting with status 1.
\<close>

definition main_setup :: "config_env \<Rightarrow> StaticConfig \<Rightarrow> string \<Rightarrow> exit_reason + (log_level \<times> Config)" where
  "main_setup env c ipaddr =
     (case log_level_of (LogLevel c) of
        None \<Rightarrow> Inl (UnrecognizedLogLevel (LogLevel c))
      | Some level \<Rightarrow>
          (case (if ConfigFile c \<noteq> [] then ReadDynamicConfig env (ConfigFile c)
                 else Inr NewDefaultDynamicConfig) of
             Inl err \<Rightarrow> Inl (CannotReadConfig err)
           | Inr dc \<Rightarrow>
               (let c = c\<lparr>cfg_IP := ParseIP env ipaddr\<rparr> in
                case Config_Validate env c of
                  Some err \<Rightarrow> Inl (ValidationFailed err)
                | None \<Rightarrow> Inr (level, \<lparr>cfg_static = c, cfg_dynamic = dc, cfg_clockIdentity = 0\<rparr>))))"

subsection \<open>Properties\<close>

lemma default_dynamic_valid: "DynamicConfig_Validate NewDefaultDynamicConfig = None"
  by (simp add: DynamicConfig_Validate_def NewDefaultDynamicConfig_def)

lemma DynamicConfig_Validate_None:
  "DynamicConfig_Validate dc = None \<longleftrightarrow> 30 * Second \<le> UTCOffset dc \<and> UTCOffset dc \<le> 50 * Second
     \<and> 0 \<le> DrainInterval dc \<and> 0 \<le> MetricInterval dc
     \<and> 0 \<le> MinSubInterval dc \<and> MinSubInterval dc \<le> MaxSubDuration dc"
  by (auto simp: DynamicConfig_Validate_def)

lemma ReadDynamicConfig_valid: "ReadDynamicConfig env path = Inr dc \<Longrightarrow> DynamicConfig_Validate dc = None"
  by (auto simp: ReadDynamicConfig_def Let_def split: sum.splits option.splits)

lemma Config_Validate_None:
  assumes "Config_Validate env c = None"
  shows "0 \<le> DSCP c" "DSCP c \<le> 63" "cfg_DomainNumber c \<le> 255" "0 < RecvWorkers c" "0 < SendWorkers c"
    "0 \<le> QueueSize c" "TimestampType c = SW \<or> TimestampType c = HW" "cfg_IP c \<noteq> []"
    "IfaceHasIP env c = Inr True"
  using assms by (auto simp: Config_Validate_def split: if_splits sum.splits)

text \<open>C38: whatever flags and files it is given, the program starts the server only with a configuration in which the divisor of the worker choice is positive, the domain number fits its byte, the DSCP value shifted into the traffic class fits a byte, the queue length is not negative, the bind address is one of the interface's or unspecified, and the dynamic part passes its own validation.\<close>

theorem main_setup_validated:
  assumes "main_setup env c ipaddr = Inr (level, cfg)"
  shows "0 < SendWorkers (cfg_static cfg) \<and> 0 < RecvWorkers (cfg_static cfg)
    \<and> 0 \<le> QueueSize (cfg_static cfg)
    \<and> uint (word_of_nat (cfg_DomainNumber (cfg_static cfg)) :: u8) = int (cfg_DomainNumber (cfg_static cfg))
    \<and> 0 \<le> push_bit 2 (DSCP (cfg_static cfg)) \<and> push_bit 2 (DSCP (cfg_static cfg)) < 256
    \<and> (\<exists>ips. InterfaceAddrs env (Interface (cfg_static cfg)) = Inr ips
         \<and> (\<exists>ip \<in> set ips \<union> {IPv6zero, IPv4zero}. IP_Equal (ParseIP env ipaddr) ip))
    \<and> DynamicConfig_Validate (cfg_dynamic cfg) = None"
proof -
  have v: "Config_Validate env (cfg_static cfg) = None" and ip: "cfg_IP (cfg_static cfg) = ParseIP env ipaddr"
    and d: "DynamicConfig_Validate (cfg_dynamic cfg) = None"
    using assms ReadDynamicConfig_valid default_dynamic_valid
    by (auto simp: main_setup_def Let_def split: option.splits sum.splits if_splits)
  note c = Config_Validate_None [OF v]
  have "uint (word_of_nat (cfg_DomainNumber (cfg_static cfg)) :: u8) = int (cfg_DomainNumber (cfg_static cfg))"
    using c(3) by (simp add: unsigned_of_nat take_bit_nat_eq_self)
  moreover have "\<exists>ips. InterfaceAddrs env (Interface (cfg_static cfg)) = Inr ips
      \<and> (\<exists>a \<in> set ips \<union> {IPv6zero, IPv4zero}. IP_Equal (ParseIP env ipaddr) a)"
    using c(9) by (auto simp: IfaceHasIP_def ifaceIPs_def list_ex_iff ip split: sum.splits)
  ultimately show ?thesis using c d by (simp add: push_bit_eq_mult)
qed

definition sample_static :: StaticConfig where
  "sample_static = \<lparr>ConfigFile = [], DebugAddr = [], cfg_DomainNumber = 0, DrainFileName = ''d'', DSCP = 46,
     Interface = ''eth0'', cfg_IP = [], LogLevel = ''warn'', MonitoringPort = 8888, PidFile = ''p'',
     QueueSize = 0, RecvWorkers = 10, SendWorkers = 100, TimestampType = HW, UndrainFileName = ''u''\<rparr>"

definition sample_env :: config_env where
  "sample_env = \<lparr>InterfaceAddrs = (\<lambda>i. Inr [[10, 0, 0, 1]]),
     InterfaceMAC = (\<lambda>i. Inr [1, 2, 3, 4, 5, 6]), SplitHostPort_error = (\<lambda>a. None),
     ParseIP = (\<lambda>s. IPv6zero), ReadFile = (\<lambda>f. Inl ''ENOENT''), Stat_ok = (\<lambda>f. f = ''d''),
     WriteFile_error = (\<lambda>f. None), Remove_error = (\<lambda>f. None), Getpid = 4711,
     yaml_Unmarshal = (\<lambda>s dc. Inr dc), yaml_Marshal = (\<lambda>dc. Inr ''x'')\<rparr>"

theorem main_setup_validated_witness:
  "\<exists>cfg. main_setup sample_env sample_static ''::'' = Inr (LevelWarn, cfg)
     \<and> DynamicConfig_Validate (cfg_dynamic cfg) = None \<and> 0 < SendWorkers (cfg_static cfg)"
proof -
  have "main_setup sample_env sample_static ''::'' = Inr (LevelWarn,
      \<lparr>cfg_static = sample_static\<lparr>cfg_IP := IPv6zero\<rparr>, cfg_dynamic = NewDefaultDynamicConfig,
       cfg_clockIdentity = 0\<rparr>)"
    by (simp add: main_setup_def log_level_of_def sample_static_def sample_env_def Config_Validate_def
      IfaceHasIP_def ifaceIPs_def IPv6zero_def)
  from main_setup_validated [OF this] this show ?thesis by blast
qed

text \<open>A reload takes effect only as a whole and only when it is valid: reading a configuration either fails with the reason, or gives the defaults overlaid by the file, with a UTC offset between 30 and 50 seconds and a maximal subscription duration not below the minimal interval. A minimal interval of zero passes.\<close>

lemma ReadDynamicConfig_sound:
  assumes "ReadFile env path = Inr cData"
    and "yaml_Unmarshal env cData NewDefaultDynamicConfig = Inr dc"
  shows "ReadDynamicConfig env path = Inr dc \<longleftrightarrow>
    30 * Second \<le> UTCOffset dc \<and> UTCOffset dc \<le> 50 * Second \<and> 0 \<le> DrainInterval dc
    \<and> 0 \<le> MetricInterval dc \<and> 0 \<le> MinSubInterval dc \<and> MinSubInterval dc \<le> MaxSubDuration dc"
  using assms DynamicConfig_Validate_None [of dc] by (auto simp: ReadDynamicConfig_def split: option.splits)

lemma ReadDynamicConfig_sound_witness:
  "ReadDynamicConfig (sample_env\<lparr>ReadFile := \<lambda>f. Inr [],
     yaml_Unmarshal := \<lambda>s dc. Inr (dc\<lparr>MinSubInterval := 0\<rparr>)\<rparr>) ''f''
   = Inr (NewDefaultDynamicConfig\<lparr>MinSubInterval := 0\<rparr>)"
  using ReadDynamicConfig_sound [of "sample_env\<lparr>ReadFile := \<lambda>f. Inr [],
     yaml_Unmarshal := \<lambda>s dc. Inr (dc\<lparr>MinSubInterval := 0\<rparr>)\<rparr>" "''f''" "[]"
     "NewDefaultDynamicConfig\<lparr>MinSubInterval := 0\<rparr>"]
  by (simp add: NewDefaultDynamicConfig_def)

lemma fmt_d_no_newline: "CHR 0x0A \<notin> set (fmt_d i)"
  using nat_digits_chars [of "CHR 0x0A"] by (auto simp: fmt_d_def)

text \<open>The pid file is read back as the process number that was written, until it is deleted: then reading it fails.\<close>

lemma pid_file_roundtrip:
  assumes "CreatePidFile env c = (None, env1)" and "DeletePidFile env1 c = (None, env2)"
    and "0 \<le> Getpid env" and "Getpid env < 2 ^ 63"
  shows "ReadPidFile env1 (PidFile c) = Inr (Getpid env) \<and> Getpid env1 = Getpid env
    \<and> ReadPidFile env2 (PidFile c) = Inl (PidRead ''ENOENT'')
    \<and> (\<forall>f. f \<noteq> PidFile c \<longrightarrow> ReadFile env2 f = ReadFile env f)"
proof -
  have "filter (\<lambda>c. c \<noteq> CHR 0x0A) (fmt_d (Getpid env)) = fmt_d (Getpid env)"
    by (rule filter_True) (metis fmt_d_no_newline)
  then show ?thesis
    using assms Atoi_fmt_d [of "Getpid env"]
    by (auto simp: CreatePidFile_def DeletePidFile_def WriteFile_def RemoveFile_def ReadPidFile_def split: option.splits)
qed

lemma pid_file_roundtrip_witness:
  "ReadPidFile (snd (CreatePidFile sample_env sample_static)) ''p'' = Inr 4711"
  using pid_file_roundtrip [of sample_env sample_static "snd (CreatePidFile sample_env sample_static)"
      "snd (DeletePidFile (snd (CreatePidFile sample_env sample_static)) sample_static)"]
  by (simp add: CreatePidFile_def DeletePidFile_def WriteFile_def RemoveFile_def sample_env_def sample_static_def)

text \<open>A valid dynamic configuration that is written to a file is what a reload from that file reads, when the YAML package decodes what it encodes.\<close>

lemma config_write_roundtrip:
  assumes "DynamicConfig_Write path env dc = (None, env')" and "DynamicConfig_Validate dc = None"
    and "\<And>text dc0. yaml_Marshal env dc = Inr text \<Longrightarrow> yaml_Unmarshal env text dc0 = Inr dc"
  shows "ReadDynamicConfig env' path = Inr dc"
  using assms by (auto simp: DynamicConfig_Write_def ReadDynamicConfig_def WriteFile_def split: sum.splits option.splits)

definition sample_yaml :: config_env where
  "sample_yaml = sample_env\<lparr>yaml_Unmarshal := \<lambda>s dc. Inr (NewDefaultDynamicConfig\<lparr>MinSubInterval := int (length s)\<rparr>),
     yaml_Marshal := \<lambda>dc. Inr (replicate (nat (MinSubInterval dc)) CHR ''x'')\<rparr>"

lemma config_write_roundtrip_witness:
  "ReadDynamicConfig (snd (DynamicConfig_Write ''f'' sample_yaml (NewDefaultDynamicConfig\<lparr>MinSubInterval := 3\<rparr>))) ''f''
     = Inr (NewDefaultDynamicConfig\<lparr>MinSubInterval := 3\<rparr>)"
  by (rule config_write_roundtrip [of _ sample_yaml])
    (auto simp: DynamicConfig_Write_def WriteFile_def sample_yaml_def sample_env_def DynamicConfig_Validate_def
      NewDefaultDynamicConfig_def)

end
