(* ===== verification/Ptp_Flags.thy ===== *)
theory Ptp_Flags
  imports Ptp_Config
begin

section \<open>Command line flags (\<^verbatim>\<open>src/main.go\<close>)\<close>

text \<open>
  The flags that \<^verbatim>\<open>main\<close> registers and how Go's \<^verbatim>\<open>flag\<close> package reads them: the four spellings of a
  flag, integers as \<^verbatim>\<open>strconv\<close> reads them with base prefixes and underscores, and the errors that end the
  program before it starts. There are no boolean flags, so every flag takes a value.
\<close>

subsection \<open>Integers with base prefixes\<close>

definition lower :: "char \<Rightarrow> char" where
  "lower c = char_of (of_char c OR (32::nat))"

definition digit_of :: "char \<Rightarrow> nat option" where
  "digit_of c =
     (let n = of_char c; l = of_char (lower c) in
      if 48 \<le> n \<and> n \<le> 57 then Some (n - 48)
      else if 97 \<le> l \<and> l \<le> 122 then Some (l - 97 + 10)
      else None)"

text \<open>
  The loop over the digits; the flag says whether an underscore was seen. The two tests of the source for
  an overflow of the multiplication and of the addition amount to the one on the sum.
\<close>

fun parse_digits :: "nat \<Rightarrow> string \<Rightarrow> nat \<Rightarrow> bool \<Rightarrow> atoi_error + nat \<times> bool" where
  "parse_digits base [] n underscores = Inr (n, underscores)"
| "parse_digits base (c # s) n underscores =
     (if c = CHR ''_'' then parse_digits base s n True
      else case digit_of c of
        None \<Rightarrow> Inl ErrSyntax
      | Some d \<Rightarrow>
          if d \<ge> base then Inl ErrSyntax
          else if n * base + d \<ge> 2 ^ 64 then Inl ErrRange
          else parse_digits base s (n * base + d) underscores)"

datatype seen = SeenStart | SeenDigit | SeenUnderscore | SeenOther

fun underscore_loop :: "bool \<Rightarrow> seen \<Rightarrow> string \<Rightarrow> bool" where
  "underscore_loop hex i [] \<longleftrightarrow> i \<noteq> SeenUnderscore"
| "underscore_loop hex i (c # s) \<longleftrightarrow>
     (let n = (of_char c :: nat); l = (of_char (lower c) :: nat) in
      if 48 \<le> n \<and> n \<le> 57 \<or> hex \<and> 97 \<le> l \<and> l \<le> 102 then underscore_loop hex SeenDigit s
      else if c = CHR ''_'' then i = SeenDigit \<and> underscore_loop hex SeenUnderscore s
      else i \<noteq> SeenUnderscore \<and> underscore_loop hex SeenOther s)"

definition has_prefix :: "char \<Rightarrow> string \<Rightarrow> bool" where
  "has_prefix b s \<longleftrightarrow> length s \<ge> 2 \<and> s ! 0 = CHR ''0'' \<and> lower (s ! 1) = b"

definition underscoreOK :: "string \<Rightarrow> bool" where
  "underscoreOK s =
     (let s = (case s of c # t \<Rightarrow> if c = CHR ''-'' \<or> c = CHR ''+'' then t else s | [] \<Rightarrow> s)
      in if has_prefix CHR ''b'' s \<or> has_prefix CHR ''o'' s \<or> has_prefix CHR ''x'' s
         then underscore_loop (has_prefix CHR ''x'' s) SeenDigit (drop 2 s)
         else underscore_loop False SeenStart s)"

definition base_of :: "string \<Rightarrow> nat \<times> string" where
  "base_of s =
     (if s ! 0 = CHR ''0'' then
        (if length s \<ge> 3 \<and> has_prefix CHR ''b'' s then (2, drop 2 s)
         else if length s \<ge> 3 \<and> has_prefix CHR ''o'' s then (8, drop 2 s)
         else if length s \<ge> 3 \<and> has_prefix CHR ''x'' s then (16, drop 2 s)
         else (8, drop 1 s))
      else (10, s))"

definition ParseUint :: "string \<Rightarrow> atoi_error + nat" where
  "ParseUint s =
     (if s = [] then Inl ErrSyntax
      else case (let (base, t) = base_of s in parse_digits base t 0 False) of
        Inl err \<Rightarrow> Inl err
      | Inr (n, underscores) \<Rightarrow> if underscores \<and> \<not> underscoreOK s then Inl ErrSyntax else Inr n)"

definition ParseInt :: "string \<Rightarrow> atoi_error + int" where
  "ParseInt s0 =
     (case s0 of
        [] \<Rightarrow> Inl ErrSyntax
      | c # t \<Rightarrow>
          (let neg = (c = CHR ''-''); s = (if c = CHR ''+'' \<or> c = CHR ''-'' then t else s0) in
           case ParseUint s of
             Inl err \<Rightarrow> Inl err
           | Inr un \<Rightarrow>
               if \<not> neg \<and> un \<ge> 2 ^ 63 then Inl ErrRange
               else if neg \<and> un > 2 ^ 63 then Inl ErrRange
               else Inr (if neg then - int un else int un)))"

subsection \<open>Flags\<close>

text \<open>The destination of the flags: the static configuration and the text of the address.\<close>

record flags =
  fl_config :: StaticConfig
  fl_ipaddr :: string

datatype flag_error =
    BadFlagSyntax string
  | FlagNotDefined string
  | FlagNeedsArgument string
  | InvalidFlagValue string string
  | ErrHelp

type_synonym setter = "string \<Rightarrow> flags \<Rightarrow> flags option"

definition on_config :: "(StaticConfig \<Rightarrow> StaticConfig) \<Rightarrow> flags \<Rightarrow> flags" where
  "on_config g f = f\<lparr>fl_config := g (fl_config f)\<rparr>"

definition IntVar :: "(int \<Rightarrow> StaticConfig \<Rightarrow> StaticConfig) \<Rightarrow> setter" where
  "IntVar upd v f = (case ParseInt v of Inl err \<Rightarrow> None | Inr i \<Rightarrow> Some (on_config (upd i) f))"

definition UintVar :: "(nat \<Rightarrow> StaticConfig \<Rightarrow> StaticConfig) \<Rightarrow> setter" where
  "UintVar upd v f = (case ParseUint v of Inl err \<Rightarrow> None | Inr n \<Rightarrow> Some (on_config (upd n) f))"

definition StringVar :: "(string \<Rightarrow> StaticConfig \<Rightarrow> StaticConfig) \<Rightarrow> setter" where
  "StringVar upd v f = Some (on_config (upd v) f)"

definition TextVar :: setter where
  "TextVar v f =
     (case Kind_UnmarshalText (TimestampType (fl_config f)) v of
        (k, None) \<Rightarrow> Some (on_config (TimestampType_update (\<lambda>_. k)) f)
      | (k, Some err) \<Rightarrow> None)"

definition formal :: "(string \<times> setter) list" where
  "formal =
     [(''dscp'', IntVar (\<lambda>i. DSCP_update (\<lambda>_. i))),
      (''monitoringport'', IntVar (\<lambda>i. MonitoringPort_update (\<lambda>_. i))),
      (''queue'', IntVar (\<lambda>i. QueueSize_update (\<lambda>_. i))),
      (''recvworkers'', IntVar (\<lambda>i. RecvWorkers_update (\<lambda>_. i))),
      (''workers'', IntVar (\<lambda>i. SendWorkers_update (\<lambda>_. i))),
      (''domainnumber'', UintVar (\<lambda>n. cfg_DomainNumber_update (\<lambda>_. n))),
      (''config'', StringVar (\<lambda>s. ConfigFile_update (\<lambda>_. s))),
      (''pprofaddr'', StringVar (\<lambda>s. DebugAddr_update (\<lambda>_. s))),
      (''iface'', StringVar (\<lambda>s. Interface_update (\<lambda>_. s))),
      (''loglevel'', StringVar (\<lambda>s. LogLevel_update (\<lambda>_. s))),
      (''pidfile'', StringVar (\<lambda>s. PidFile_update (\<lambda>_. s))),
      (''timestamptype'', TextVar),
      (''ip'', \<lambda>v f. Some (f\<lparr>fl_ipaddr := v\<rparr>)),
      (''drainfile'', StringVar (\<lambda>s. DrainFileName_update (\<lambda>_. s))),
      (''undrainfile'', StringVar (\<lambda>s. UndrainFileName_update (\<lambda>_. s)))]"

text \<open>The values the flags have before parsing.\<close>

definition flag_defaults :: flags where
  "flag_defaults = \<lparr>fl_config = \<lparr>ConfigFile = [], DebugAddr = [], cfg_DomainNumber = 0,
     DrainFileName = ''/var/tmp/kill_ptp4u'', DSCP = 0, Interface = ''eth0'', cfg_IP = [], LogLevel = ''warn'',
     MonitoringPort = 8888, PidFile = ''/var/run/ptp4u.pid'', QueueSize = 0, RecvWorkers = 10,
     SendWorkers = 100, TimestampType = HW, UndrainFileName = ''/var/tmp/unkill_ptp4u''\<rparr>,
     fl_ipaddr = ''::''\<rparr>"

text \<open>One argument: the end of the flags with the arguments that remain, an error, or a flag that was set.\<close>

datatype parsed = NoMoreFlags "string list" | ParseFailed flag_error | FlagSet "string list" flags

definition split_flag :: "string \<Rightarrow> string \<times> string option" where
  "split_flag name =
     (case name of
        [] \<Rightarrow> ([], None)
      | c # rest \<Rightarrow>
          (case dropWhile (\<lambda>x. x \<noteq> CHR ''='') rest of
             [] \<Rightarrow> (name, None)
           | _ # value \<Rightarrow> (c # takeWhile (\<lambda>x. x \<noteq> CHR ''='') rest, Some value)))"

definition set_flag :: "string \<Rightarrow> string option \<Rightarrow> string list \<Rightarrow> flags \<Rightarrow> parsed" where
  "set_flag name value args f =
     (case map_of formal name of
        None \<Rightarrow> if name = ''help'' \<or> name = ''h'' then ParseFailed ErrHelp else ParseFailed (FlagNotDefined name)
      | Some setter \<Rightarrow>
          (case (case value of Some v \<Rightarrow> Some (v, args) | None \<Rightarrow> (case args of [] \<Rightarrow> None | v # rest \<Rightarrow> Some (v, rest))) of
             None \<Rightarrow> ParseFailed (FlagNeedsArgument name)
           | Some (v, args) \<Rightarrow>
               (case setter v f of
                  None \<Rightarrow> ParseFailed (InvalidFlagValue v name)
                | Some f \<Rightarrow> FlagSet args f)))"

fun parseOne :: "string list \<Rightarrow> flags \<Rightarrow> parsed" where
  "parseOne [] f = NoMoreFlags []"
| "parseOne (s # args) f =
     (if length s < 2 \<or> s ! 0 \<noteq> CHR ''-'' then NoMoreFlags (s # args)
      else if s = ''--'' then NoMoreFlags args
      else let name = drop (if s ! 1 = CHR ''-'' then 2 else 1) s in
        if name = [] \<or> name ! 0 = CHR ''-'' \<or> name ! 0 = CHR ''='' then ParseFailed (BadFlagSyntax s)
        else let (name, value) = split_flag name in set_flag name value args f)"

lemma parseOne_shorter: "parseOne args f = FlagSet args' f' \<Longrightarrow> length args' < length args"
  by (cases args) (auto simp: set_flag_def Let_def split: if_splits prod.splits option.splits list.splits)

function parse_flags :: "string list \<Rightarrow> flags \<Rightarrow> flag_error + flags \<times> string list" where
  "parse_flags args f =
     (case parseOne args f of
        NoMoreFlags rest \<Rightarrow> Inr (f, rest)
      | ParseFailed err \<Rightarrow> Inl err
      | FlagSet args' f' \<Rightarrow> parse_flags args' f')"
  by pat_completeness auto

termination parse_flags
  by (relation "measure (\<lambda>(args, f). length args)") (auto dest: parseOne_shorter)

declare parse_flags.simps [simp del]

lemmas flags_eval = parse_flags.simps set_flag_def split_flag_def formal_def on_config_def IntVar_def UintVar_def
  StringVar_def ParseInt_def ParseUint_def base_of_def has_prefix_def lower_def digit_of_def underscoreOK_def char_of_def Let_def bit_0

subsection \<open>Numbers are read as printed\<close>

lemma digit_of_digit: "is_digit c \<Longrightarrow> digit_of c = Some (of_char c - 48)"
  by (auto simp: is_digit_def digit_of_def Let_def)

lemma digits_grow: "m \<le> foldl (\<lambda>a c. 10 * a + (of_char c - 48)) m s" for m :: nat
proof (induction s arbitrary: m)
  case (Cons c s)
  have "m \<le> 10 * m + (of_char c - 48)" by simp
  then show ?case using Cons.IH order_trans unfolding foldl.simps by blast
qed simp

lemma parse_digits_decimal:
  assumes "list_all is_digit s" and "foldl (\<lambda>a c. 10 * a + (of_char c - 48)) m s < 2 ^ 64"
  shows "parse_digits 10 s m u = Inr (foldl (\<lambda>a c. 10 * a + (of_char c - 48)) m s, u)"
  using assms
proof (induction s arbitrary: m)
  case (Cons c s)
  let ?m = "10 * m + (of_char c - 48)"
  have "?m < 2 ^ 64" using digits_grow [of ?m s] Cons.prems(2) by simp
  moreover have "is_digit c" using Cons.prems(1) by simp
  moreover from this have "c \<noteq> CHR ''_''" "of_char c - 48 < (10::nat)" by (auto simp: is_digit_def)
  ultimately show ?case using Cons.IH [of ?m] Cons.prems by (simp add: digit_of_digit mult.commute)
qed simp

lemma nat_digits_head: "0 < n \<Longrightarrow> nat_digits n ! 0 \<noteq> CHR ''0''"
proof (induction n rule: nat_digits.induct)
  case (1 n)
  show ?case
  proof (cases "n < 10")
    case True
    have "char_of (48 + n) \<noteq> CHR ''0''"
    proof
      assume "char_of (48 + n) = CHR ''0''"
      then have "of_char (char_of (48 + n) :: char) = (of_char CHR ''0'' :: nat)" by (simp only:)
      then show False using True 1(2) by (simp add: of_char_of)
    qed
    then show ?thesis using True by (subst nat_digits.simps) simp
  next
    case False
    then show ?thesis using 1 by (subst nat_digits.simps) (simp add: nth_append)
  qed
qed

lemma ParseUint_nat_digits:
  assumes "n < 2 ^ 64"
  shows "ParseUint (nat_digits n) = Inr n"
proof (cases "n = 0")
  case False
  then have "base_of (nat_digits n) = (10, nat_digits n)" using nat_digits_head by (simp add: base_of_def)
  moreover have "parse_digits 10 (nat_digits n) 0 False = Inr (n, False)"
    using parse_digits_decimal [of "nat_digits n" 0 False] assms digits_val_nat_digits [of n] by (simp add: digits_val_def)
  ultimately show ?thesis by (simp add: ParseUint_def)
qed (simp add: nat_digits.simps [of 0] ParseUint_def base_of_def has_prefix_def char_of_def bit_0)

lemma ParseInt_fmt_d:
  assumes "- (2 ^ 63) \<le> i" and "i < 2 ^ 63"
  shows "ParseInt (fmt_d i) = Inr i"
proof (cases "i < 0")
  case True
  then have "nat (- i) < 2 ^ 64" "\<not> nat (- i) > 2 ^ 63" using assms by auto
  then show ?thesis using True by (simp add: ParseInt_def fmt_d_def ParseUint_nat_digits)
next
  case False
  obtain c cs where c: "nat_digits (nat i) = c # cs" using nat_digits_not_Nil by (meson list.exhaust)
  then have "is_digit c" using nat_digits_is_digit [of "nat i"] by simp
  then have "c \<noteq> CHR ''-''" "c \<noteq> CHR ''+''" by (auto simp: is_digit_def)
  moreover have "ParseUint (c # cs) = Inr (nat i)" "nat i < 2 ^ 63"
    using ParseUint_nat_digits [of "nat i"] assms False c by auto
  ultimately show ?thesis using False by (simp add: ParseInt_def fmt_d_def c)
qed

subsection \<open>Flags are read as written\<close>

text \<open>A flag with its value in one of the four spellings.\<close>

datatype spelling = Spelling (double_dash: bool) (joined: bool)

definition render :: "spelling \<Rightarrow> string \<Rightarrow> string \<Rightarrow> string list" where
  "render sp n v =
     (let d = (if double_dash sp then ''--'' else ''-'')
      in if joined sp then [d @ n @ ''='' @ v] else [d @ n, v])"

lemma formal_names:
  "map_of formal n = Some setter \<Longrightarrow> n \<noteq> [] \<and> n ! 0 \<noteq> CHR ''-'' \<and> CHR ''='' \<notin> set n"
  by (auto simp: formal_def split: if_splits)

lemma split_flag_name:
  assumes "n \<noteq> []" and "CHR ''='' \<notin> set n"
  shows "split_flag n = (n, None)"
proof (cases n)
  case (Cons c cs)
  then have "dropWhile (\<lambda>x. x \<noteq> CHR ''='') cs = []" using assms(2) by auto
  then show ?thesis unfolding Cons split_flag_def by (simp only: list.case)
qed (use assms in simp)

lemma split_flag_value:
  assumes "n \<noteq> []" and "CHR ''='' \<notin> set n"
  shows "split_flag (n @ CHR ''='' # v) = (n, Some v)"
proof (cases n)
  case (Cons c cs)
  then have "\<forall>x \<in> set cs. x \<noteq> CHR ''=''" using assms(2) by auto
  then show ?thesis using Cons by (simp add: split_flag_def dropWhile_append takeWhile_append)
qed (use assms in simp)

text \<open>What a flag does is what its setter does.\<close>

lemma parseOne_render:
  assumes "map_of formal n = Some setter"
  shows "parseOne (render sp n v @ rest) f =
    (case setter v f of None \<Rightarrow> ParseFailed (InvalidFlagValue v n) | Some f' \<Rightarrow> FlagSet rest f')"
proof -
  obtain c cs where n: "n = c # cs" "c \<noteq> CHR ''-''" "c \<noteq> CHR ''=''" "CHR ''='' \<notin> set n" "n \<noteq> []"
    using formal_names [OF assms] by (cases n) auto
  have "split_flag (c # cs) = (n, None)" "split_flag (c # cs @ CHR ''='' # v) = (n, Some v)"
    using split_flag_name [of n] split_flag_value [of n v] n by simp_all
  then show ?thesis
    using n assms by (cases "double_dash sp"; cases "joined sp") (simp_all add: render_def set_flag_def split: option.split)
qed

type_synonym setting = "spelling \<times> string \<times> string"

definition render_all :: "setting list \<Rightarrow> string list" where
  "render_all ss = concat (map (\<lambda>(sp, n, v). render sp n v) ss)"

text \<open>The settings applied one after the other, up to the first value that is refused.\<close>

fun apply_settings :: "setting list \<Rightarrow> flags \<Rightarrow> flag_error + flags" where
  "apply_settings [] f = Inr f"
| "apply_settings ((sp, n, v) # ss) f =
     (case the (map_of formal n) v f of
        None \<Rightarrow> Inl (InvalidFlagValue v n)
      | Some f' \<Rightarrow> apply_settings ss f')"

lemma parse_render_all:
  assumes "\<forall>(sp, n, v) \<in> set ss. n \<in> fst ` set formal" and "parseOne rest = (\<lambda>f. NoMoreFlags rest')"
  shows "parse_flags (render_all ss @ rest) f =
    (case apply_settings ss f of Inl err \<Rightarrow> Inl err | Inr f' \<Rightarrow> Inr (f', rest'))"
  using assms
proof (induction ss arbitrary: f)
  case Nil
  then show ?case by (simp add: parse_flags.simps render_all_def)
next
  case (Cons x ss)
  obtain sp n v where x: "x = (sp, n, v)" by (cases x)
  then have "map_of formal n \<noteq> None" using Cons.prems(1) by (auto simp: map_of_eq_None_iff)
  then obtain setter where m: "map_of formal n = Some setter" by auto
  have "parseOne (render_all (x # ss) @ rest) f =
      (case setter v f of None \<Rightarrow> ParseFailed (InvalidFlagValue v n) | Some f' \<Rightarrow> FlagSet (render_all ss @ rest) f')"
    using parseOne_render [OF m, of sp v "render_all ss @ rest" f] by (simp add: render_all_def x)
  then show ?case
    using Cons.IH Cons.prems m by (subst parse_flags.simps) (simp add: x split: option.split)
qed

text \<open>The settings that spell a configuration.\<close>

definition settings_of :: "(string \<Rightarrow> spelling) \<Rightarrow> StaticConfig \<Rightarrow> string \<Rightarrow> setting list" where
  "settings_of sp c ip = map (\<lambda>(n, v). (sp n, n, v))
     [(''dscp'', fmt_d (DSCP c)), (''monitoringport'', fmt_d (MonitoringPort c)), (''queue'', fmt_d (QueueSize c)),
      (''recvworkers'', fmt_d (RecvWorkers c)), (''workers'', fmt_d (SendWorkers c)),
      (''domainnumber'', fmt_d (int (cfg_DomainNumber c))), (''config'', ConfigFile c), (''pprofaddr'', DebugAddr c),
      (''iface'', Interface c), (''loglevel'', LogLevel c), (''pidfile'', PidFile c),
      (''timestamptype'', Kind_String (TimestampType c)), (''ip'', ip), (''drainfile'', DrainFileName c),
      (''undrainfile'', UndrainFileName c)]"

definition flag_range :: "StaticConfig \<Rightarrow> bool" where
  "flag_range c \<longleftrightarrow> (\<forall>i \<in> {DSCP c, MonitoringPort c, QueueSize c, RecvWorkers c, SendWorkers c}. - (2 ^ 63) \<le> i \<and> i < 2 ^ 63)
     \<and> cfg_DomainNumber c < 2 ^ 64 \<and> TimestampType c \<in> {SW, SWRX, HW, HWRX}"

lemma Kind_text: "k \<in> {SW, SWRX, HW, HWRX} \<Longrightarrow> Kind_UnmarshalText t (Kind_String k) = (k, None)"
  by (auto simp: Kind_UnmarshalText_def Kind_Set_def timestampFromString_def Kind_String_def timestampToString_def)

lemma apply_settings_of:
  assumes "flag_range c"
  shows "apply_settings (settings_of sp c ip) f = Inr \<lparr>fl_config = c\<lparr>cfg_IP := cfg_IP (fl_config f)\<rparr>, fl_ipaddr = ip\<rparr>"
proof -
  have "ParseUint (fmt_d (int n)) = Inr n" if "n < 2 ^ 64" for n using ParseUint_nat_digits [OF that] by (simp add: fmt_d_def)
  then show ?thesis
    using assms
    by (simp add: settings_of_def formal_def IntVar_def UintVar_def StringVar_def TextVar_def on_config_def flag_range_def
        ParseInt_fmt_d Kind_text)
qed



end
