(* ===== verification/Ptp_TLV.thy ===== *)
theory Ptp_TLV
  imports Ptp_Types
begin

section \<open>Type-length-value extensions (\<^verbatim>\<open>src/protocol/tlvs.go\<close>)\<close>

text \<open>
  The seven TLV structures, each with its \<^verbatim>\<open>MarshalBinaryTo\<close> and \<^verbatim>\<open>UnmarshalBinary\<close>, and
  the loops \<^verbatim>\<open>writeTLVs\<close> and \<^verbatim>\<open>readTLVs\<close> over a list of them. A marshaller takes the
  buffer and returns it with the number of bytes written and the error; an unmarshaller takes
  its receiver and returns it updated, with the error; both are \<^term>\<open>None\<close> where Go panics.
  Signed fields are kept as words.
\<close>

type_synonym marshalled = "(bytes \<times> nat \<times> go_error option) option"

abbreviation tlvHeadSize :: nat where "tlvHeadSize \<equiv> 4"

record TLVHead =
  TLVType :: u16
  LengthField :: u16

record RequestUnicastTransmission =
  req_Head :: TLVHead
  req_MsgTypeAndReserved :: u8
  req_LogInterMessagePeriod :: u8
  req_DurationField :: u32

record GrantUnicastTransmission =
  grant_Head :: TLVHead
  grant_MsgTypeAndReserved :: u8
  grant_LogInterMessagePeriod :: u8
  grant_DurationField :: u32
  grant_Reserved :: u8
  grant_Renewal :: u8

record CancelUnicastTransmission =
  cancel_Head :: TLVHead
  cancel_MsgTypeAndFlags :: u8
  cancel_Reserved :: u8

record AcknowledgeCancelUnicastTransmission =
  ack_Head :: TLVHead
  ack_MsgTypeAndFlags :: u8
  ack_Reserved :: u8

record PathTrace =
  path_Head :: TLVHead
  PathSequence :: "u64 list"

record AlternateTimeOffsetIndicator =
  ato_Head :: TLVHead
  KeyField :: u8
  CurrentOffset :: u32
  JumpSeconds :: u32
  TimeOfNextJump :: PTPSeconds
  DisplayName :: bytes

record AlternateResponsePort =
  arp_Head :: TLVHead
  Offset :: u16

text \<open>
  The values of the interface \<^verbatim>\<open>TLV\<close>: pointers to the seven structures, which all have
  \<^verbatim>\<open>MarshalBinaryTo\<close>, and a bare \<^verbatim>\<open>TLVHead\<close>, which has \<^verbatim>\<open>Type\<close> only and takes the
  slow path of \<^verbatim>\<open>writeTLVs\<close>.
\<close>

datatype TLV =
    RequestUnicastTransmissionTLV RequestUnicastTransmission
  | GrantUnicastTransmissionTLV GrantUnicastTransmission
  | CancelUnicastTransmissionTLV CancelUnicastTransmission
  | AcknowledgeCancelUnicastTransmissionTLV AcknowledgeCancelUnicastTransmission
  | PathTraceTLV PathTrace
  | AlternateTimeOffsetIndicatorTLV AlternateTimeOffsetIndicator
  | AlternateResponsePortTLV AlternateResponsePort
  | BareTLVHead TLVHead

abbreviation zero_head :: TLVHead where "zero_head \<equiv> \<lparr>TLVType = 0, LengthField = 0\<rparr>"

fun TLV_Head :: "TLV \<Rightarrow> TLVHead" where
  "TLV_Head (RequestUnicastTransmissionTLV t) = req_Head t"
| "TLV_Head (GrantUnicastTransmissionTLV t) = grant_Head t"
| "TLV_Head (CancelUnicastTransmissionTLV t) = cancel_Head t"
| "TLV_Head (AcknowledgeCancelUnicastTransmissionTLV t) = ack_Head t"
| "TLV_Head (PathTraceTLV t) = path_Head t"
| "TLV_Head (AlternateTimeOffsetIndicatorTLV t) = ato_Head t"
| "TLV_Head (AlternateResponsePortTLV t) = arp_Head t"
| "TLV_Head (BareTLVHead h) = h"

definition TLV_Type :: "TLV \<Rightarrow> u16" where
  "TLV_Type t = TLVType (TLV_Head t)"

subsection \<open>Heads\<close>

definition tlvHeadMarshalBinaryTo :: "TLVHead \<Rightarrow> bytes \<Rightarrow> bytes option" where
  "tlvHeadMarshalBinaryTo t b = do {
     b \<leftarrow> put_at 0 (be16 (TLVType t)) b;
     put_at 2 (be16 (LengthField t)) b
   }"

definition unmarshalTLVHeader :: "TLVHead \<Rightarrow> bytes \<Rightarrow> (TLVHead \<times> go_error option) option" where
  "unmarshalTLVHeader p b =
     (if length b < tlvHeadSize then Some (p, Some ErrTLVHeadShort)
      else do {
        ty \<leftarrow> get16 0 b;
        lf \<leftarrow> get16 2 b;
        Some (p\<lparr>TLVType := ty, LengthField := lf\<rparr>, None)
      })"

definition checkTLVLength :: "TLVHead \<Rightarrow> nat \<Rightarrow> nat \<Rightarrow> bool \<Rightarrow> go_error option" where
  "checkTLVLength p l want strict =
     (if strict \<and> unat (LengthField p) \<noteq> want
      then Some (ErrTLVLengthStrict (TLVType p) want (LengthField p))
      else if unat (LengthField p) < want
      then Some (ErrTLVLengthMin (TLVType p) want (LengthField p))
      else if tlvHeadSize + unat (LengthField p) > l
      then Some (ErrTLVLengthBuffer (tlvHeadSize + unat (LengthField p)) l)
      else None)"

subsection \<open>Marshalling\<close>

definition Request_MarshalBinaryTo :: "RequestUnicastTransmission \<Rightarrow> bytes \<Rightarrow> marshalled" where
  "Request_MarshalBinaryTo t b = do {
     b \<leftarrow> tlvHeadMarshalBinaryTo (req_Head t) b;
     b \<leftarrow> put_at tlvHeadSize [req_MsgTypeAndReserved t] b;
     b \<leftarrow> put_at (tlvHeadSize + 1) [req_LogInterMessagePeriod t] b;
     b \<leftarrow> put_at (tlvHeadSize + 2) (be32 (req_DurationField t)) b;
     Some (b, tlvHeadSize + 6, None)
   }"

definition Grant_MarshalBinaryTo :: "GrantUnicastTransmission \<Rightarrow> bytes \<Rightarrow> marshalled" where
  "Grant_MarshalBinaryTo t b = do {
     b \<leftarrow> tlvHeadMarshalBinaryTo (grant_Head t) b;
     b \<leftarrow> put_at tlvHeadSize [grant_MsgTypeAndReserved t] b;
     b \<leftarrow> put_at (tlvHeadSize + 1) [grant_LogInterMessagePeriod t] b;
     b \<leftarrow> put_at (tlvHeadSize + 2) (be32 (grant_DurationField t)) b;
     b \<leftarrow> put_at (tlvHeadSize + 6) [grant_Reserved t] b;
     b \<leftarrow> put_at (tlvHeadSize + 7) [grant_Renewal t] b;
     Some (b, tlvHeadSize + 8, None)
   }"

definition Cancel_MarshalBinaryTo :: "CancelUnicastTransmission \<Rightarrow> bytes \<Rightarrow> marshalled" where
  "Cancel_MarshalBinaryTo t b = do {
     b \<leftarrow> tlvHeadMarshalBinaryTo (cancel_Head t) b;
     b \<leftarrow> put_at tlvHeadSize [cancel_MsgTypeAndFlags t] b;
     b \<leftarrow> put_at (tlvHeadSize + 1) [cancel_Reserved t] b;
     Some (b, tlvHeadSize + 2, None)
   }"

definition AckCancel_MarshalBinaryTo ::
  "AcknowledgeCancelUnicastTransmission \<Rightarrow> bytes \<Rightarrow> marshalled" where
  "AckCancel_MarshalBinaryTo t b = do {
     b \<leftarrow> tlvHeadMarshalBinaryTo (ack_Head t) b;
     b \<leftarrow> put_at tlvHeadSize [ack_MsgTypeAndFlags t] b;
     b \<leftarrow> put_at (tlvHeadSize + 1) [ack_Reserved t] b;
     Some (b, tlvHeadSize + 2, None)
   }"

fun pathTrace_write :: "u64 list \<Rightarrow> nat \<Rightarrow> bytes \<Rightarrow> (bytes \<times> nat) option" where
  "pathTrace_write [] pos b = Some (b, pos)"
| "pathTrace_write (ps # pss) pos b = do {
     b \<leftarrow> put_at pos (be64 ps) b;
     pathTrace_write pss (pos + 8) b
   }"

definition PathTrace_MarshalBinaryTo :: "PathTrace \<Rightarrow> bytes \<Rightarrow> marshalled" where
  "PathTrace_MarshalBinaryTo t b = do {
     b \<leftarrow> tlvHeadMarshalBinaryTo (path_Head t) b;
     (b, pos) \<leftarrow> pathTrace_write (PathSequence t) tlvHeadSize b;
     Some (b, pos, None)
   }"

definition AlternateTimeOffset_MarshalBinaryTo ::
  "AlternateTimeOffsetIndicator \<Rightarrow> bytes \<Rightarrow> marshalled" where
  "AlternateTimeOffset_MarshalBinaryTo t b = do {
     b \<leftarrow> tlvHeadMarshalBinaryTo (ato_Head t) b;
     b \<leftarrow> put_at tlvHeadSize [KeyField t] b;
     b \<leftarrow> put_at (tlvHeadSize + 1) (be32 (CurrentOffset t)) b;
     b \<leftarrow> put_at (tlvHeadSize + 5) (be32 (JumpSeconds t)) b;
     b \<leftarrow> copy_at (tlvHeadSize + 9) (seconds_list (TimeOfNextJump t)) b;
     if DisplayName t \<noteq> [] then
       (case PTPText_MarshalBinary (DisplayName t) of
          Inl e \<Rightarrow> Some (b, 0, Some e)
        | Inr dd \<Rightarrow> do {
            b \<leftarrow> copy_at (tlvHeadSize + 15) dd b;
            Some (b, tlvHeadSize + 15 + length dd, None)
          })
     else Some (b, tlvHeadSize + 15, None)
   }"

definition AlternateResponsePort_MarshalBinaryTo ::
  "AlternateResponsePort \<Rightarrow> bytes \<Rightarrow> marshalled" where
  "AlternateResponsePort_MarshalBinaryTo a b = do {
     b \<leftarrow> tlvHeadMarshalBinaryTo (arp_Head a) b;
     b \<leftarrow> put_at tlvHeadSize (be16 (Offset a)) b;
     Some (b, tlvHeadSize + 2, None)
   }"

text \<open>
  The body of the loop of \<^verbatim>\<open>writeTLVs\<close> on the slice \<^verbatim>\<open>b[pos:]\<close>. The slow path writes
  with \<^verbatim>\<open>copy\<close>, which drops what does not fit, and still counts every byte.
\<close>

fun TLV_MarshalBinaryTo :: "TLV \<Rightarrow> bytes \<Rightarrow> marshalled" where
  "TLV_MarshalBinaryTo (RequestUnicastTransmissionTLV t) b = Request_MarshalBinaryTo t b"
| "TLV_MarshalBinaryTo (GrantUnicastTransmissionTLV t) b = Grant_MarshalBinaryTo t b"
| "TLV_MarshalBinaryTo (CancelUnicastTransmissionTLV t) b = Cancel_MarshalBinaryTo t b"
| "TLV_MarshalBinaryTo (AcknowledgeCancelUnicastTransmissionTLV t) b = AckCancel_MarshalBinaryTo t b"
| "TLV_MarshalBinaryTo (PathTraceTLV t) b = PathTrace_MarshalBinaryTo t b"
| "TLV_MarshalBinaryTo (AlternateTimeOffsetIndicatorTLV t) b = AlternateTimeOffset_MarshalBinaryTo t b"
| "TLV_MarshalBinaryTo (AlternateResponsePortTLV t) b = AlternateResponsePort_MarshalBinaryTo t b"
| "TLV_MarshalBinaryTo (BareTLVHead h) b = do {
     b \<leftarrow> copy_at 0 (be16 (TLVType h) @ be16 (LengthField h)) b;
     Some (b, 4, None)
   }"

fun writeTLVs_loop :: "TLV list \<Rightarrow> nat \<Rightarrow> bytes \<Rightarrow> marshalled" where
  "writeTLVs_loop [] pos b = Some (b, pos, None)"
| "writeTLVs_loop (tlv # tlvs) pos b = do {
     s \<leftarrow> slice_from pos b;
     (s, nn, err) \<leftarrow> TLV_MarshalBinaryTo tlv s;
     let b = take pos b @ s;
     case err of
       Some e \<Rightarrow> Some (b, 0, Some e)
     | None \<Rightarrow> writeTLVs_loop tlvs (pos + nn) b
   }"

definition writeTLVs :: "TLV list \<Rightarrow> bytes \<Rightarrow> marshalled" where
  "writeTLVs tlvs b = writeTLVs_loop tlvs 0 b"

subsection \<open>Unmarshalling\<close>

definition Request_UnmarshalBinary ::
  "RequestUnicastTransmission \<Rightarrow> bytes \<Rightarrow> (RequestUnicastTransmission \<times> go_error option) option" where
  "Request_UnmarshalBinary t b = do {
     (h, err) \<leftarrow> unmarshalTLVHeader (req_Head t) b;
     let t = t\<lparr>req_Head := h\<rparr>;
     if err \<noteq> None then Some (t, err)
     else (case checkTLVLength h (length b) 6 True of
       Some e \<Rightarrow> Some (t, Some e)
     | None \<Rightarrow> do {
         m \<leftarrow> get_at 4 b;
         l \<leftarrow> get_at 5 b;
         d \<leftarrow> get32 6 b;
         Some (t\<lparr>req_MsgTypeAndReserved := m, req_LogInterMessagePeriod := l,
                 req_DurationField := d\<rparr>, None)
       })
   }"

definition Grant_UnmarshalBinary ::
  "GrantUnicastTransmission \<Rightarrow> bytes \<Rightarrow> (GrantUnicastTransmission \<times> go_error option) option" where
  "Grant_UnmarshalBinary t b = do {
     (h, err) \<leftarrow> unmarshalTLVHeader (grant_Head t) b;
     let t = t\<lparr>grant_Head := h\<rparr>;
     if err \<noteq> None then Some (t, err)
     else (case checkTLVLength h (length b) 8 True of
       Some e \<Rightarrow> Some (t, Some e)
     | None \<Rightarrow> do {
         m \<leftarrow> get_at 4 b;
         l \<leftarrow> get_at 5 b;
         d \<leftarrow> get32 6 b;
         r \<leftarrow> get_at 10 b;
         n \<leftarrow> get_at 11 b;
         Some (t\<lparr>grant_MsgTypeAndReserved := m, grant_LogInterMessagePeriod := l,
                 grant_DurationField := d, grant_Reserved := r, grant_Renewal := n\<rparr>, None)
       })
   }"

definition Cancel_UnmarshalBinary ::
  "CancelUnicastTransmission \<Rightarrow> bytes \<Rightarrow> (CancelUnicastTransmission \<times> go_error option) option" where
  "Cancel_UnmarshalBinary t b = do {
     (h, err) \<leftarrow> unmarshalTLVHeader (cancel_Head t) b;
     let t = t\<lparr>cancel_Head := h\<rparr>;
     if err \<noteq> None then Some (t, err)
     else (case checkTLVLength h (length b) 2 True of
       Some e \<Rightarrow> Some (t, Some e)
     | None \<Rightarrow> do {
         m \<leftarrow> get_at 4 b;
         r \<leftarrow> get_at 5 b;
         Some (t\<lparr>cancel_MsgTypeAndFlags := m, cancel_Reserved := r\<rparr>, None)
       })
   }"

definition AckCancel_UnmarshalBinary ::
  "AcknowledgeCancelUnicastTransmission \<Rightarrow> bytes \<Rightarrow>
     (AcknowledgeCancelUnicastTransmission \<times> go_error option) option" where
  "AckCancel_UnmarshalBinary t b = do {
     (h, err) \<leftarrow> unmarshalTLVHeader (ack_Head t) b;
     let t = t\<lparr>ack_Head := h\<rparr>;
     if err \<noteq> None then Some (t, err)
     else (case checkTLVLength h (length b) 2 True of
       Some e \<Rightarrow> Some (t, Some e)
     | None \<Rightarrow> do {
         m \<leftarrow> get_at 4 b;
         r \<leftarrow> get_at 5 b;
         Some (t\<lparr>ack_MsgTypeAndFlags := m, ack_Reserved := r\<rparr>, None)
       })
   }"

text \<open>The loop of \<^verbatim>\<open>PathTraceTLV.UnmarshalBinary\<close>, from index \<open>i\<close> on.\<close>

function pathTrace_read :: "nat \<Rightarrow> nat \<Rightarrow> bytes \<Rightarrow> u64 list \<Rightarrow> u64 list option" where
  "pathTrace_read i lengthField b seq =
     (if i * 8 \<le> lengthField then
        (if tlvHeadSize + i * 8 + 8 \<ge> length b then Some seq
         else do {
           identity \<leftarrow> get64 (tlvHeadSize + i * 8) b;
           pathTrace_read (i + 1) lengthField b (seq @ [identity])
         })
      else Some seq)"
  by pat_completeness auto
termination
  by (relation "measure (\<lambda>(i, lengthField, b, seq). Suc lengthField - i * 8)") auto

declare pathTrace_read.simps [simp del]

definition PathTrace_UnmarshalBinary ::
  "PathTrace \<Rightarrow> bytes \<Rightarrow> (PathTrace \<times> go_error option) option" where
  "PathTrace_UnmarshalBinary t b = do {
     (h, err) \<leftarrow> unmarshalTLVHeader (path_Head t) b;
     let t = t\<lparr>path_Head := h\<rparr>;
     if err \<noteq> None then Some (t, err)
     else (case checkTLVLength h (length b) 8 False of
       Some e \<Rightarrow> Some (t, Some e)
     | None \<Rightarrow> do {
         seq \<leftarrow> pathTrace_read 0 (unat (LengthField h)) b [];
         Some (t\<lparr>PathSequence := seq\<rparr>, None)
       })
   }"

definition AlternateTimeOffset_UnmarshalBinary ::
  "AlternateTimeOffsetIndicator \<Rightarrow> bytes \<Rightarrow>
     (AlternateTimeOffsetIndicator \<times> go_error option) option" where
  "AlternateTimeOffset_UnmarshalBinary t b = do {
     (h, err) \<leftarrow> unmarshalTLVHeader (ato_Head t) b;
     let t = t\<lparr>ato_Head := h\<rparr>;
     if err \<noteq> None then Some (t, err)
     else (case checkTLVLength h (length b) 20 False of
       Some e \<Rightarrow> Some (t, Some e)
     | None \<Rightarrow> do {
         k \<leftarrow> get_at tlvHeadSize b;
         co \<leftarrow> get32 (tlvHeadSize + 1) b;
         js \<leftarrow> get32 (tlvHeadSize + 5) b;
         s \<leftarrow> slice_from (tlvHeadSize + 9) b;
         let t = t\<lparr>KeyField := k, CurrentOffset := co, JumpSeconds := js,
                   TimeOfNextJump := seconds_copy (TimeOfNextJump t) s\<rparr>;
         s \<leftarrow> slice_from (tlvHeadSize + 15) b;
         let (name, err) = PTPText_UnmarshalBinary (DisplayName t) s;
         Some (t\<lparr>DisplayName := name\<rparr>, err)
       })
   }"

definition AlternateResponsePort_UnmarshalBinary ::
  "AlternateResponsePort \<Rightarrow> bytes \<Rightarrow> (AlternateResponsePort \<times> go_error option) option" where
  "AlternateResponsePort_UnmarshalBinary a b = do {
     (h, err) \<leftarrow> unmarshalTLVHeader (arp_Head a) b;
     let a = a\<lparr>arp_Head := h\<rparr>;
     if err \<noteq> None then Some (a, err)
     else (case checkTLVLength h (length b) 2 True of
       Some e \<Rightarrow> Some (a, Some e)
     | None \<Rightarrow> do {
         off \<leftarrow> get16 tlvHeadSize b;
         Some (a\<lparr>Offset := off\<rparr>, None)
       })
   }"

text \<open>The zero values \<^verbatim>\<open>readTLVs\<close> starts from, and its switch on the TLV type.\<close>

definition zero_Request :: RequestUnicastTransmission where
  "zero_Request = \<lparr>req_Head = zero_head, req_MsgTypeAndReserved = 0,
     req_LogInterMessagePeriod = 0, req_DurationField = 0\<rparr>"

definition zero_Grant :: GrantUnicastTransmission where
  "zero_Grant = \<lparr>grant_Head = zero_head, grant_MsgTypeAndReserved = 0,
     grant_LogInterMessagePeriod = 0, grant_DurationField = 0, grant_Reserved = 0,
     grant_Renewal = 0\<rparr>"

definition zero_Cancel :: CancelUnicastTransmission where
  "zero_Cancel = \<lparr>cancel_Head = zero_head, cancel_MsgTypeAndFlags = 0, cancel_Reserved = 0\<rparr>"

definition zero_AckCancel :: AcknowledgeCancelUnicastTransmission where
  "zero_AckCancel = \<lparr>ack_Head = zero_head, ack_MsgTypeAndFlags = 0, ack_Reserved = 0\<rparr>"

definition zero_PathTrace :: PathTrace where
  "zero_PathTrace = \<lparr>path_Head = zero_head, PathSequence = []\<rparr>"

definition zero_AlternateTimeOffset :: AlternateTimeOffsetIndicator where
  "zero_AlternateTimeOffset = \<lparr>ato_Head = zero_head, KeyField = 0, CurrentOffset = 0,
     JumpSeconds = 0, TimeOfNextJump = zero_seconds, DisplayName = []\<rparr>"

definition zero_AlternateResponsePort :: AlternateResponsePort where
  "zero_AlternateResponsePort = \<lparr>arp_Head = zero_head, Offset = 0\<rparr>"

definition tag_tlv ::
  "('t \<Rightarrow> TLV) \<Rightarrow> ('t \<times> go_error option) option \<Rightarrow> (go_error + TLV) option" where
  "tag_tlv C r =
     map_option (\<lambda>(t, err). case err of Some e \<Rightarrow> Inl e | None \<Rightarrow> Inr (C t)) r"

definition readTLV :: "u16 \<Rightarrow> bytes \<Rightarrow> (go_error + TLV) option" where
  "readTLV tlvType b =
     (if tlvType = TLVAcknowledgeCancelUnicastTransmission then
        tag_tlv AcknowledgeCancelUnicastTransmissionTLV (AckCancel_UnmarshalBinary zero_AckCancel b)
      else if tlvType = TLVGrantUnicastTransmission then
        tag_tlv GrantUnicastTransmissionTLV (Grant_UnmarshalBinary zero_Grant b)
      else if tlvType = TLVRequestUnicastTransmission then
        tag_tlv RequestUnicastTransmissionTLV (Request_UnmarshalBinary zero_Request b)
      else if tlvType = TLVCancelUnicastTransmission then
        tag_tlv CancelUnicastTransmissionTLV (Cancel_UnmarshalBinary zero_Cancel b)
      else if tlvType = TLVPathTrace then
        tag_tlv PathTraceTLV (PathTrace_UnmarshalBinary zero_PathTrace b)
      else if tlvType = TLVAlternateTimeOffsetIndicator then
        tag_tlv AlternateTimeOffsetIndicatorTLV
          (AlternateTimeOffset_UnmarshalBinary zero_AlternateTimeOffset b)
      else if tlvType = TLVAlternateResponsePort then
        tag_tlv AlternateResponsePortTLV
          (AlternateResponsePort_UnmarshalBinary zero_AlternateResponsePort b)
      else Some (Inl (ErrTLVNotImplemented tlvType)))"

function readTLVs_loop ::
  "TLV list \<Rightarrow> nat \<Rightarrow> int \<Rightarrow> bytes \<Rightarrow> (TLV list \<times> go_error option) option" where
  "readTLVs_loop tlvs pos maxLength b =
     (if int pos + int tlvHeadSize \<le> maxLength then do {
        tlvType \<leftarrow> get16 pos b;
        s \<leftarrow> slice_from pos b;
        r \<leftarrow> readTLV tlvType s;
        case r of
          Inl e \<Rightarrow> Some (tlvs, Some e)
        | Inr tlv \<Rightarrow>
            readTLVs_loop (tlvs @ [tlv])
              (pos + (tlvHeadSize + unat (LengthField (TLV_Head tlv)))) maxLength b
      }
      else Some (tlvs, None))"
  by pat_completeness auto
termination
  by (relation "measure (\<lambda>(tlvs, pos, maxLength, b). nat (maxLength - int pos))")
    (auto intro: less_le_trans [of _ 0])

declare readTLVs_loop.simps [simp del]

definition readTLVs :: "TLV list \<Rightarrow> int \<Rightarrow> bytes \<Rightarrow> (TLV list \<times> go_error option) option" where
  "readTLVs tlvs maxLength b = readTLVs_loop tlvs 0 maxLength b"

subsection \<open>The wire image\<close>

text \<open>
  What each TLV looks like on the wire, as a specification for the marshallers: the bytes do not
  depend on the buffer. \<open>marshals\<close> excludes the one error, an overlong display name.
\<close>

fun text_bytes :: "bytes \<Rightarrow> bytes" where
  "text_bytes p = (case PTPText_MarshalBinary p of Inr dd \<Rightarrow> dd | Inl e \<Rightarrow> [])"

definition head_bytes :: "TLVHead \<Rightarrow> bytes" where
  "head_bytes h = be16 (TLVType h) @ be16 (LengthField h)"

fun tlv_bytes :: "TLV \<Rightarrow> bytes" where
  "tlv_bytes (RequestUnicastTransmissionTLV t) =
     head_bytes (req_Head t) @ [req_MsgTypeAndReserved t, req_LogInterMessagePeriod t]
       @ be32 (req_DurationField t)"
| "tlv_bytes (GrantUnicastTransmissionTLV t) =
     head_bytes (grant_Head t) @ [grant_MsgTypeAndReserved t, grant_LogInterMessagePeriod t]
       @ be32 (grant_DurationField t) @ [grant_Reserved t, grant_Renewal t]"
| "tlv_bytes (CancelUnicastTransmissionTLV t) =
     head_bytes (cancel_Head t) @ [cancel_MsgTypeAndFlags t, cancel_Reserved t]"
| "tlv_bytes (AcknowledgeCancelUnicastTransmissionTLV t) =
     head_bytes (ack_Head t) @ [ack_MsgTypeAndFlags t, ack_Reserved t]"
| "tlv_bytes (PathTraceTLV t) = head_bytes (path_Head t) @ concat (map be64 (PathSequence t))"
| "tlv_bytes (AlternateTimeOffsetIndicatorTLV t) =
     head_bytes (ato_Head t) @ [KeyField t] @ be32 (CurrentOffset t) @ be32 (JumpSeconds t)
       @ seconds_list (TimeOfNextJump t)
       @ (if DisplayName t = [] then [] else text_bytes (DisplayName t))"
| "tlv_bytes (AlternateResponsePortTLV t) = head_bytes (arp_Head t) @ be16 (Offset t)"
| "tlv_bytes (BareTLVHead h) = head_bytes h"

lemma length_head_bytes [simp]: "length (head_bytes h) = 4"
  by (simp add: head_bytes_def)

lemma tlvHeadMarshal_eq:
  "4 \<le> length b \<Longrightarrow> tlvHeadMarshalBinaryTo h b = Some (head_bytes h @ drop 4 b)"
  by (simp add: tlvHeadMarshalBinaryTo_def head_bytes_def codec_simps)

lemma be64_list_length [simp]: "length (concat (map be64 xs)) = 8 * length xs"
  by (induction xs) simp_all

lemma pathTrace_write_eq:
  assumes "length ys = pos" and "pos + 8 * length pss \<le> length b"
  shows "pathTrace_write pss pos (ys @ drop pos b) =
    Some (ys @ concat (map be64 pss) @ drop (pos + 8 * length pss) b, pos + 8 * length pss)"
  using assms
proof (induction pss arbitrary: ys pos)
  case Nil
  then show ?case by simp
next
  case (Cons ps pss)
  then have "put_at pos (be64 ps) (ys @ drop pos b) = Some ((ys @ be64 ps) @ drop (pos + 8) b)"
    using put_at_next [of ys pos "be64 ps" b] by simp
  then show ?case
    using Cons.IH [of "ys @ be64 ps" "pos + 8"] Cons.prems by (simp add: algebra_simps)
qed

definition marshals :: "TLV \<Rightarrow> bool" where
  "marshals t \<longleftrightarrow> (case t of AlternateTimeOffsetIndicatorTLV a \<Rightarrow> length (DisplayName a) \<le> 255 | _ \<Rightarrow> True)"

lemmas tlv_marshal_defs = Request_MarshalBinaryTo_def Grant_MarshalBinaryTo_def
  Cancel_MarshalBinaryTo_def AckCancel_MarshalBinaryTo_def PathTrace_MarshalBinaryTo_def
  AlternateTimeOffset_MarshalBinaryTo_def AlternateResponsePort_MarshalBinaryTo_def

lemma TLV_Marshal_eq:
  assumes "marshals t" and "length (tlv_bytes t) \<le> length b"
  shows "TLV_MarshalBinaryTo t b =
    Some (tlv_bytes t @ drop (length (tlv_bytes t)) b, length (tlv_bytes t), None)"
proof (cases t)
  case (PathTraceTLV t)
  then show ?thesis
    using assms pathTrace_write_eq [of "head_bytes (path_Head t)" 4 "PathSequence t" b]
    by (simp add: tlv_marshal_defs tlvHeadMarshal_eq)
next
  case (AlternateTimeOffsetIndicatorTLV a)
  let ?pre = "head_bytes (ato_Head a) @ [KeyField a] @ be32 (CurrentOffset a)
    @ be32 (JumpSeconds a) @ seconds_list (TimeOfNextJump a)"
  have pre: "length ?pre = 19" by simp
  obtain dd where dd: "PTPText_MarshalBinary (DisplayName a) = Inr dd"
    using assms(1) by (simp add: AlternateTimeOffsetIndicatorTLV marshals_def
      PTPText_MarshalBinary_def Let_def)
  have b: "19 + (if DisplayName a = [] then 0 else length dd) \<le> length b"
    using assms(2) dd by (simp add: AlternateTimeOffsetIndicatorTLV split: if_splits)
  then have b19: "19 \<le> length b" by simp
  have "TLV_MarshalBinaryTo t b = (if DisplayName a \<noteq> [] then do {
      b \<leftarrow> copy_at 19 dd (?pre @ drop 19 b); Some (b, 19 + length dd, None) }
      else Some (?pre @ drop 19 b, 19, None))"
    using b19 dd by (simp add: AlternateTimeOffsetIndicatorTLV tlv_marshal_defs tlvHeadMarshal_eq
      put_at_def copy_at_def) arith
  also have "\<dots> = Some (tlv_bytes t @ drop (length (tlv_bytes t)) b, length (tlv_bytes t), None)"
    using b dd copy_at_next [OF pre, of dd b]
    by (cases "DisplayName a = []") (simp_all add: AlternateTimeOffsetIndicatorTLV)
  finally show ?thesis .
next
  case (BareTLVHead h)
  then show ?thesis using assms by (simp add: copy_at_def head_bytes_def)
qed ((insert assms, (simp add: tlv_marshal_defs tlvHeadMarshal_eq put_at_def; arith))+)

lemma writeTLVs_loop_eq:
  assumes "\<forall>t \<in> set tlvs. marshals t" and "length ys = pos"
    and "pos + length (concat (map tlv_bytes tlvs)) \<le> length b"
  shows "writeTLVs_loop tlvs pos (ys @ drop pos b) =
    Some (ys @ concat (map tlv_bytes tlvs) @ drop (pos + length (concat (map tlv_bytes tlvs))) b,
      pos + length (concat (map tlv_bytes tlvs)), None)"
  using assms
proof (induction tlvs arbitrary: ys pos)
  case Nil
  then show ?case by simp
next
  case (Cons t tlvs)
  let ?n = "length (tlv_bytes t)"
  have "TLV_MarshalBinaryTo t (drop pos b) = Some (tlv_bytes t @ drop (pos + ?n) b, ?n, None)"
    using Cons.prems TLV_Marshal_eq [of t "drop pos b"] by (simp add: add.commute)
  then show ?case
    using Cons.IH [of "ys @ tlv_bytes t" "pos + ?n"] Cons.prems by (simp add: Let_def algebra_simps)
qed

lemma writeTLVs_eq:
  assumes "\<forall>t \<in> set tlvs. marshals t" and "length (concat (map tlv_bytes tlvs)) \<le> length b"
  shows "writeTLVs tlvs b =
    Some (concat (map tlv_bytes tlvs) @ drop (length (concat (map tlv_bytes tlvs))) b,
      length (concat (map tlv_bytes tlvs)), None)"
  using writeTLVs_loop_eq [of tlvs "[]" 0 b] assms by (simp add: writeTLVs_def)

subsection \<open>Reading back\<close>

text \<open>
  The TLVs that the decoder accepts as written: the head carries the structure's own type and
  length. A path trace is left out, since how it decodes depends on what follows it
  (\<open>path_trace_decode\<close>), and a bare head has no decoder.
\<close>

fun wf_tlv :: "TLV \<Rightarrow> bool" where
  "wf_tlv (RequestUnicastTransmissionTLV t) \<longleftrightarrow>
     req_Head t = \<lparr>TLVType = TLVRequestUnicastTransmission, LengthField = 6\<rparr>"
| "wf_tlv (GrantUnicastTransmissionTLV t) \<longleftrightarrow>
     grant_Head t = \<lparr>TLVType = TLVGrantUnicastTransmission, LengthField = 8\<rparr>"
| "wf_tlv (CancelUnicastTransmissionTLV t) \<longleftrightarrow>
     cancel_Head t = \<lparr>TLVType = TLVCancelUnicastTransmission, LengthField = 2\<rparr>"
| "wf_tlv (AcknowledgeCancelUnicastTransmissionTLV t) \<longleftrightarrow>
     ack_Head t = \<lparr>TLVType = TLVAcknowledgeCancelUnicastTransmission, LengthField = 2\<rparr>"
| "wf_tlv (PathTraceTLV t) \<longleftrightarrow> False"
| "wf_tlv (AlternateTimeOffsetIndicatorTLV t) \<longleftrightarrow>
     3 \<le> length (DisplayName t) \<and> length (DisplayName t) \<le> 255
     \<and> ato_Head t = \<lparr>TLVType = TLVAlternateTimeOffsetIndicator,
          LengthField = word_of_nat (15 + length (text_bytes (DisplayName t)))\<rparr>"
| "wf_tlv (AlternateResponsePortTLV t) \<longleftrightarrow>
     arp_Head t = \<lparr>TLVType = TLVAlternateResponsePort, LengthField = 2\<rparr>"
| "wf_tlv (BareTLVHead h) \<longleftrightarrow> False"

lemmas tlv_unmarshal_defs = Request_UnmarshalBinary_def Grant_UnmarshalBinary_def
  Cancel_UnmarshalBinary_def AckCancel_UnmarshalBinary_def PathTrace_UnmarshalBinary_def
  AlternateTimeOffset_UnmarshalBinary_def AlternateResponsePort_UnmarshalBinary_def

lemmas tlv_zero_defs = zero_Request_def zero_Grant_def zero_Cancel_def zero_AckCancel_def
  zero_PathTrace_def zero_AlternateTimeOffset_def zero_AlternateResponsePort_def

lemma unmarshalTLVHeader_eq:
  "unmarshalTLVHeader p (head_bytes h @ rest) = Some (h, None)"
  by (simp add: unmarshalTLVHeader_def head_bytes_def get16_def)

lemma get16_head: "get16 0 (head_bytes h @ rest) = Some (TLVType h)"
  by (simp add: head_bytes_def get16_def)

lemma text_bytes_eq:
  "length p \<le> 255 \<Longrightarrow> text_bytes p = word_of_nat (length p) # p @ (if odd (length p) then [0] else [])"
  by (simp add: ptptext_marshal_eq)

lemma readTLV_ato:
  assumes "wf_tlv (AlternateTimeOffsetIndicatorTLV t)"
  shows "AlternateTimeOffset_UnmarshalBinary zero_AlternateTimeOffset
    (tlv_bytes (AlternateTimeOffsetIndicatorTLV t) @ rest) = Some (t, None)"
proof -
  let ?tb = "text_bytes (DisplayName t)"
  have dn: "3 \<le> length (DisplayName t)" "length (DisplayName t) \<le> 255" using assms by simp_all
  have len: "5 \<le> length ?tb" "length ?tb \<le> 257"
    using dn text_bytes_eq [OF dn(2)] by (simp_all del: text_bytes.simps) presburger
  have lf: "unat (LengthField (ato_Head t)) = 15 + length ?tb"
    using assms len by (simp add: unat_of_nat unat_word_ariths del: text_bytes.simps)
  have ne: "DisplayName t \<noteq> []" using dn by auto
  show ?thesis
    using assms dn ne len lf ptptext_unmarshal_eq [OF dn(2)] text_bytes_eq [OF dn(2)]
    by (simp add: tlv_unmarshal_defs tlv_zero_defs
      unmarshalTLVHeader_eq checkTLVLength_def get16_def get32_def get_at_def nth_append codec_simps
      del: text_bytes.simps)
qed

lemma readTLV_eq:
  assumes "wf_tlv t"
  shows "readTLV (TLVType (TLV_Head t)) (tlv_bytes t @ rest) = Some (Inr t)"
proof (cases t)
  case (AlternateTimeOffsetIndicatorTLV t)
  then show ?thesis using assms readTLV_ato [of t rest] by (simp add: readTLV_def tag_tlv_def)
qed (use assms in \<open>simp_all add: readTLV_def tag_tlv_def tlv_unmarshal_defs tlv_zero_defs
    unmarshalTLVHeader_eq checkTLVLength_def get16_def get32_def get_at_def nth_append\<close>)

lemma wf_tlv_size:
  assumes "wf_tlv t"
  shows "length (tlv_bytes t) = 4 + unat (LengthField (TLV_Head t))"
proof (cases t)
  case (AlternateTimeOffsetIndicatorTLV a)
  then have dn: "3 \<le> length (DisplayName a)" "length (DisplayName a) \<le> 255" using assms by simp_all
  then show ?thesis
    using assms text_bytes_eq [OF dn(2)]
    by (auto simp: AlternateTimeOffsetIndicatorTLV unat_of_nat unat_word_ariths simp del: text_bytes.simps)
qed (use assms in auto)

lemma wf_tlv_marshals: "wf_tlv t \<Longrightarrow> marshals t"
  by (cases t) (simp_all add: marshals_def)

definition tlv_decode :: "bytes \<Rightarrow> TLV option" where
  "tlv_decode b = do {
     tlvType \<leftarrow> get16 0 b;
     r \<leftarrow> readTLV tlvType b;
     case r of Inl e \<Rightarrow> None | Inr t \<Rightarrow> Some t
   }"

lemma tlv_bytes_head: "\<exists>body. tlv_bytes t = head_bytes (TLV_Head t) @ body"
  by (cases t) auto

lemma get16_tlv_bytes: "get16 0 (tlv_bytes t @ rest) = Some (TLVType (TLV_Head t))"
  using tlv_bytes_head [of t] get16_head by auto

interpretation tlvc: codec tlv_bytes tlv_decode wf_tlv "\<lambda>t. 4 + unat (LengthField (TLV_Head t))"
  by unfold_locales (simp_all add: wf_tlv_size tlv_decode_def get16_tlv_bytes readTLV_eq)

lemma readTLVs_loop_eq:
  assumes "\<forall>t \<in> set ts. wf_tlv t" and "length pre = pos"
    and "int (pos + length (concat (map tlv_bytes ts))) \<le> maxLength"
    and "maxLength < int (pos + length (concat (map tlv_bytes ts))) + 4"
  shows "readTLVs_loop acc pos maxLength (pre @ concat (map tlv_bytes ts) @ rest) = Some (acc @ ts, None)"
  using assms
proof (induction ts arbitrary: acc pos pre)
  case Nil
  then show ?case by (simp add: readTLVs_loop.simps)
next
  case (Cons t ts)
  let ?b = "pre @ concat (map tlv_bytes (t # ts)) @ rest"
  let ?n = "length (tlv_bytes t)"
  have wf: "wf_tlv t" using Cons.prems by simp
  have n: "?n = 4 + unat (LengthField (TLV_Head t))" by (rule wf_tlv_size [OF wf])
  have g: "get16 pos ?b = Some (TLVType (TLV_Head t))"
    using get16_tlv_bytes [of t "concat (map tlv_bytes ts) @ rest"] Cons.prems(2)
    by (simp add: get16_def read_at_def split: if_splits)
  have "4 \<le> ?n" using n by simp
  then have c: "int pos + 4 \<le> maxLength" using Cons.prems(3) by simp
  have "readTLVs_loop acc pos maxLength ?b = readTLVs_loop (acc @ [t]) (pos + ?n) maxLength ?b"
    using c Cons.prems(2) readTLV_eq [OF wf] n g
    by (subst readTLVs_loop.simps) simp
  then show ?case
    using Cons.IH [of "pre @ tlv_bytes t" "pos + ?n" "acc @ [t]"] Cons.prems by simp
qed

subsection \<open>Reading never panics\<close>

lemma unmarshalTLVHeader_cases:
  obtains (short) "length b < 4" "unmarshalTLVHeader p b = Some (p, Some ErrTLVHeadShort)"
  | (ok) h where "4 \<le> length b" "unmarshalTLVHeader p b = Some (h, None)"
proof (cases "length b < 4")
  case False
  then show ?thesis by (intro ok) (auto simp: unmarshalTLVHeader_def get16_def)
qed (simp add: short unmarshalTLVHeader_def)

lemma checkTLVLength_None:
  "checkTLVLength h l want strict = None \<Longrightarrow> want + 4 \<le> l"
  by (auto simp: checkTLVLength_def split: if_splits)

lemma pathTrace_read_eq:
  "pathTrace_read i lf b seq = Some (seq @ map (\<lambda>k. be_val (take 8 (drop (4 + 8 * k) b)))
     [i..<min (lf div 8 + 1) ((length b - 5) div 8)])"
proof (induction i lf b seq rule: pathTrace_read.induct)
  case (1 i lf b seq)
  let ?m = "min (lf div 8 + 1) ((length b - 5) div 8)"
  show ?case
  proof (cases "i * 8 \<le> lf \<and> 4 + i * 8 + 8 < length b")
    case True
    then have "i < ?m" by auto
    moreover have "get64 (4 + i * 8) b = Some (be_val (take 8 (drop (4 + 8 * i) b)))"
      using True by (simp add: get64_def mult.commute)
    ultimately show ?thesis
      using True 1 by (subst pathTrace_read.simps) (simp add: upt_conv_Cons)
  next
    case False
    then have "?m \<le> i" by (auto simp: min_def)
    then show ?thesis using False by (subst pathTrace_read.simps) auto
  qed
qed

lemma unmarshal_shape:
  assumes "\<And>h. want + 4 \<le> length b \<Longrightarrow> body h \<noteq> None"
  shows "unmarshalTLVHeader p b \<bind> (\<lambda>(h, err). if err \<noteq> None then Some (f h err)
     else case checkTLVLength h (length b) want strict of
       Some e \<Rightarrow> Some (g h e) | None \<Rightarrow> body h) \<noteq> None"
proof (cases rule: unmarshalTLVHeader_cases [of b p])
  case (ok h)
  then show ?thesis
    using assms by (auto split: option.splits dest: checkTLVLength_None)
qed simp

lemma unmarshal_no_panic:
  "Request_UnmarshalBinary t1 b \<noteq> None" "Grant_UnmarshalBinary t2 b \<noteq> None"
  "Cancel_UnmarshalBinary t3 b \<noteq> None" "AckCancel_UnmarshalBinary t4 b \<noteq> None"
  "PathTrace_UnmarshalBinary t5 b \<noteq> None" "AlternateTimeOffset_UnmarshalBinary t6 b \<noteq> None"
  "AlternateResponsePort_UnmarshalBinary t7 b \<noteq> None"
  unfolding tlv_unmarshal_defs Let_def
  by (rule unmarshal_shape, simp add: get16_def get32_def pathTrace_read_eq split: prod.split)+

lemma readTLV_no_panic: "readTLV tlvType b \<noteq> None"
  using unmarshal_no_panic by (simp add: readTLV_def tag_tlv_def)

lemma readTLVs_loop_no_panic:
  "maxLength \<le> int (length b) \<Longrightarrow> readTLVs_loop tlvs pos maxLength b \<noteq> None"
proof (induction tlvs pos maxLength b rule: readTLVs_loop.induct)
  case (1 tlvs pos maxLength b)
  show ?case
  proof (cases "int pos + 4 \<le> maxLength")
    case True
    then have "pos + 4 \<le> length b" using "1.prems" by linarith
    then obtain ty where g: "get16 pos b = Some ty" "slice_from pos b = Some (drop pos b)"
      by (auto simp: get16_def)
    obtain r where r: "readTLV ty (drop pos b) = Some r"
      using readTLV_no_panic [of ty "drop pos b"] by blast
    show ?thesis
      using True g r 1 by (subst readTLVs_loop.simps) (auto split: sum.split)
  qed (simp add: readTLVs_loop.simps)
qed

text \<open>Reading TLVs never panics, whatever the bytes, as long as the announced length does not exceed the buffer.\<close>

lemma readTLVs_no_panic:
  "maxLength \<le> int (length b) \<Longrightarrow> \<exists>r. readTLVs tlvs maxLength b = Some r"
  using readTLVs_loop_no_panic [of maxLength b tlvs 0] by (auto simp: readTLVs_def)

lemma readTLVs_no_panic_witness:
  "\<exists>r. readTLVs [] 6 [0x20, 0x07, 0, 2, 0, 1] = Some r"
  by (rule readTLVs_no_panic) simp

text \<open>The wire format of well-formed TLVs is unambiguous: two encodings that agree as prefixes of a buffer come from the same TLV.\<close>

lemma tlv_prefix_free:
  assumes "wf_tlv t" and "wf_tlv u" and "tlv_bytes t @ r = tlv_bytes u @ s"
  shows "t = u \<and> r = s"
  using assms by (rule tlvc.enc_prefix_free)

lemma tlv_prefix_free_witness:
  "AlternateResponsePortTLV \<lparr>arp_Head = \<lparr>TLVType = 0x2007, LengthField = 2\<rparr>, Offset = 1\<rparr>
     = AlternateResponsePortTLV \<lparr>arp_Head = \<lparr>TLVType = 0x2007, LengthField = 2\<rparr>, Offset = 1\<rparr>
   \<and> [7 :: u8] = [7]"
  by (rule tlv_prefix_free) simp_all

text \<open>C26: writing well-formed TLVs into a buffer that holds them succeeds, leaves the rest of the buffer alone, and reading that many bytes gives back exactly the TLVs written.\<close>

theorem tlvs_roundtrip:
  assumes "\<forall>t \<in> set ts. wf_tlv t" and "length (concat (map tlv_bytes ts)) \<le> length b"
  shows "\<exists>b' n. writeTLVs ts b = Some (b', n, None) \<and> length b' = length b
    \<and> drop n b' = drop n b \<and> readTLVs [] (int n) b' = Some (ts, None)"
proof -
  let ?w = "concat (map tlv_bytes ts)"
  have "writeTLVs ts b = Some (?w @ drop (length ?w) b, length ?w, None)"
    using assms wf_tlv_marshals by (intro writeTLVs_eq) auto
  moreover have "readTLVs [] (int (length ?w)) (?w @ drop (length ?w) b) = Some (ts, None)"
    using readTLVs_loop_eq [of ts "[]" 0 _ "[]"] assms(1) by (simp add: readTLVs_def)
  ultimately show ?thesis using assms(2) by auto
qed

theorem tlvs_roundtrip_witness:
  "\<exists>b' n. writeTLVs [GrantUnicastTransmissionTLV \<lparr>grant_Head = \<lparr>TLVType = 5, LengthField = 8\<rparr>,
       grant_MsgTypeAndReserved = 0xB0, grant_LogInterMessagePeriod = 1, grant_DurationField = 300,
       grant_Reserved = 0, grant_Renewal = 1\<rparr>] (replicate 20 7) = Some (b', n, None) \<and> length b' = length (replicate 20 (7 :: u8))
    \<and> drop n b' = drop n (replicate 20 7)
    \<and> readTLVs [] (int n) b' = Some ([GrantUnicastTransmissionTLV \<lparr>grant_Head = \<lparr>TLVType = 5, LengthField = 8\<rparr>,
       grant_MsgTypeAndReserved = 0xB0, grant_LogInterMessagePeriod = 1, grant_DurationField = 300,
       grant_Reserved = 0, grant_Renewal = 1\<rparr>], None)"
  by (rule tlvs_roundtrip) simp_all

lemma path_bytes_take:
  assumes "k < length ps"
  shows "take 8 (drop (8 * k) (concat (map be64 ps) @ rest)) = be64 (ps ! k)"
  using assms
proof (induction ps arbitrary: k)
  case (Cons p ps)
  then show ?case by (cases k) (auto simp: algebra_simps)
qed simp

text \<open>What decoding a path trace TLV gives back: its own identities when 1 to 8 bytes follow it, all but the last when it ends the buffer, and one spurious identity made of the following bytes when more than 8 follow.\<close>

lemma path_trace_decode:
  assumes lf: "unat (LengthField (path_Head t)) = 8 * length (PathSequence t)"
    and n: "PathSequence t \<noteq> []"
  shows "PathTrace_UnmarshalBinary zero_PathTrace (tlv_bytes (PathTraceTLV t) @ rest) =
    Some (t\<lparr>PathSequence :=
        (if rest = [] then butlast (PathSequence t)
         else if length rest \<le> 8 then PathSequence t
         else PathSequence t @ [be_val (take 8 rest)])\<rparr>, None)"
proof -
  let ?ps = "PathSequence t" and ?b = "tlv_bytes (PathTraceTLV t) @ rest"
  let ?f = "\<lambda>k. be_val (take 8 (drop (4 + 8 * k) ?b)) :: u64"
  let ?m = "min (length ?ps + 1) ((length ?b - 5) div 8)"
  have ent: "?f k = ?ps ! k" if "k < length ?ps" for k
    using path_bytes_take [OF that, of rest] by (simp add: add.commute)
  have upto: "map ?f [0..<k] = take k ?ps" if "k \<le> length ?ps" for k
    using that ent by (intro nth_equalityI) simp_all
  have "map ?f [0..<?m] = (if rest = [] then butlast ?ps
      else if length rest \<le> 8 then ?ps else ?ps @ [be_val (take 8 rest)])"
  proof -
    consider "rest = []" "?m = length ?ps - 1" | "rest \<noteq> []" "length rest \<le> 8" "?m = length ?ps"
      | "\<not> length rest \<le> 8" "?m = Suc (length ?ps)"
      using n by (cases rest; cases "length rest \<le> 8") auto
    then show ?thesis
    proof cases
      case 1
      then show ?thesis using upto [of "length ?ps - 1"] by (simp add: butlast_conv_take)
    next
      case 2
      then show ?thesis using upto [of "length ?ps"] by simp
    next
      case 3
      then show ?thesis using upto [of "length ?ps"] by auto
    qed
  qed
  then show ?thesis
    using lf n by (simp add: PathTrace_UnmarshalBinary_def unmarshalTLVHeader_eq
      checkTLVLength_def pathTrace_read_eq zero_PathTrace_def)
qed

lemma path_trace_decode_witness:
  "PathTrace_UnmarshalBinary zero_PathTrace
     (tlv_bytes (PathTraceTLV \<lparr>path_Head = \<lparr>TLVType = 8, LengthField = 8\<rparr>, PathSequence = [77]\<rparr>)
       @ [1, 1, 1, 1, 1, 1, 1, 1, 1, 1]) =
   Some (\<lparr>path_Head = \<lparr>TLVType = 8, LengthField = 8\<rparr>, PathSequence = [77, 0x0101010101010101]\<rparr>, None)"
  using path_trace_decode [of "\<lparr>path_Head = \<lparr>TLVType = 8, LengthField = 8\<rparr>, PathSequence = [77]\<rparr>"
    "[1, 1, 1, 1, 1, 1, 1, 1, 1, 1]"]
  by (simp add: be_val_def)

end
