(* ===== verification/Ptp_Packets.thy ===== *)
theory Ptp_Packets
  imports Ptp_TLV
begin

section \<open>PTP messages (\<^verbatim>\<open>src/protocol/protocol.go\<close>, \<^verbatim>\<open>src/protocol/unicast.go\<close>)\<close>

text \<open>
  The common header, the five message structures with their \<^verbatim>\<open>MarshalBinaryTo\<close> and
  \<^verbatim>\<open>UnmarshalBinary\<close>, and the entry points \<^verbatim>\<open>BytesTo\<close>, \<^verbatim>\<open>FromBytes\<close> and
  \<^verbatim>\<open>DecodePacket\<close>. Conventions are those of the TLVs: buffers and receivers are passed and
  returned, \<^term>\<open>None\<close> is a panic, errors are values.
\<close>

subsection \<open>Constants\<close>

abbreviation MajorVersion :: u8 where "MajorVersion \<equiv> 2"
abbreviation MinorVersion :: u8 where "MinorVersion \<equiv> 1"

definition Version_const :: u8 where
  "Version_const = push_bit 4 MinorVersion OR MajorVersion"

abbreviation PortEvent :: int where "PortEvent \<equiv> 319"
abbreviation PortGeneral :: int where "PortGeneral \<equiv> 320"
abbreviation TrailingBytes :: nat where "TrailingBytes \<equiv> 2"
abbreviation headerSize :: nat where "headerSize \<equiv> 34"

abbreviation DefaultTargetPortIdentity :: PortIdentity where
  "DefaultTargetPortIdentity \<equiv> PortIdentity 0xffffffffffffffff 0xffff"

definition FlagTwoStep :: u16 where "FlagTwoStep = push_bit (8 + 1) 1"
definition FlagUnicast :: u16 where "FlagUnicast = push_bit (8 + 2) 1"
definition FlagProfileSpecific1 :: u16 where "FlagProfileSpecific1 = push_bit (8 + 5) 1"
definition FlagPTPTimescale :: u16 where "FlagPTPTimescale = push_bit 3 1"

subsection \<open>Message structures\<close>

record Header =
  SdoIDAndMsgType :: u8
  Version :: u8
  MessageLength :: u16
  DomainNumber :: u8
  MinorSdoID :: u8
  FlagField :: u16
  CorrectionField :: u64
  MessageTypeSpecific :: u32
  SourcePortIdentity :: PortIdentity
  SequenceID :: u16
  ControlField :: u8
  LogMessageInterval :: u8

record AnnounceBody =
  ann_OriginTimestamp :: Timestamp
  CurrentUTCOffset :: u16
  ann_Reserved :: u8
  GrandmasterPriority1 :: u8
  GrandmasterClockQuality :: ClockQuality
  GrandmasterPriority2 :: u8
  GrandmasterIdentity :: u64
  StepsRemoved :: u16
  ann_TimeSource :: u8

record Announce =
  ann_Header :: Header
  ann_Body :: AnnounceBody
  ann_TLVs :: "TLV list"

record SyncDelayReq =
  sync_Header :: Header
  sync_OriginTimestamp :: Timestamp
  sync_TLVs :: "TLV list"

record FollowUp =
  fup_Header :: Header
  PreciseOriginTimestamp :: Timestamp

record DelayRespBody =
  ReceiveTimestamp :: Timestamp
  RequestingPortIdentity :: PortIdentity

record DelayResp =
  dresp_Header :: Header
  dresp_Body :: DelayRespBody

record Signaling =
  sig_Header :: Header
  TargetPortIdentity :: PortIdentity
  sig_TLVs :: "TLV list"

text \<open>The values of the interfaces \<^verbatim>\<open>Packet\<close> and \<^verbatim>\<open>BinaryMarshalerTo\<close>.\<close>

datatype Packet =
    PSyncDelayReq SyncDelayReq
  | PFollowUp FollowUp
  | PDelayResp DelayResp
  | PAnnounce Announce
  | PSignaling Signaling

fun packet_Header :: "Packet \<Rightarrow> Header" where
  "packet_Header (PSyncDelayReq p) = sync_Header p"
| "packet_Header (PFollowUp p) = fup_Header p"
| "packet_Header (PDelayResp p) = dresp_Header p"
| "packet_Header (PAnnounce p) = ann_Header p"
| "packet_Header (PSignaling p) = sig_Header p"

definition Header_MessageType :: "Header \<Rightarrow> u8" where
  "Header_MessageType p = SdoID_MsgType (SdoIDAndMsgType p)"

definition SetSequence :: "Header \<Rightarrow> u16 \<Rightarrow> Header" where
  "SetSequence p sequence = p\<lparr>SequenceID := sequence\<rparr>"

subsection \<open>The header\<close>

definition unmarshalHeader :: "bytes \<Rightarrow> Header option" where
  "unmarshalHeader b = do {
     sdo \<leftarrow> get_at 0 b;
     ver \<leftarrow> get_at 1 b;
     len \<leftarrow> get16 2 b;
     dom \<leftarrow> get_at 4 b;
     msdo \<leftarrow> get_at 5 b;
     flags \<leftarrow> get16 6 b;
     corr \<leftarrow> get64 8 b;
     mts \<leftarrow> get32 16 b;
     clk \<leftarrow> get64 20 b;
     port \<leftarrow> get16 28 b;
     seq \<leftarrow> get16 30 b;
     ctl \<leftarrow> get_at 32 b;
     lmi \<leftarrow> get_at 33 b;
     Some \<lparr>SdoIDAndMsgType = sdo, Version = ver, MessageLength = len, DomainNumber = dom,
       MinorSdoID = msdo, FlagField = flags, CorrectionField = corr, MessageTypeSpecific = mts,
       SourcePortIdentity = PortIdentity clk port, SequenceID = seq, ControlField = ctl,
       LogMessageInterval = lmi\<rparr>
   }"

definition checkPacketLength :: "Header \<Rightarrow> nat \<Rightarrow> go_error option" where
  "checkPacketLength p l =
     (if unat (MessageLength p) > l then Some (ErrMessageLength (MessageLength p) l) else None)"

definition headerMarshalBinaryTo :: "Header \<Rightarrow> bytes \<Rightarrow> (bytes \<times> nat) option" where
  "headerMarshalBinaryTo p b = do {
     b \<leftarrow> put_at 0 [SdoIDAndMsgType p] b;
     b \<leftarrow> put_at 1 [Version p] b;
     b \<leftarrow> put_at 2 (be16 (MessageLength p)) b;
     b \<leftarrow> put_at 4 [DomainNumber p] b;
     b \<leftarrow> put_at 5 [MinorSdoID p] b;
     b \<leftarrow> put_at 6 (be16 (FlagField p)) b;
     b \<leftarrow> put_at 8 (be64 (CorrectionField p)) b;
     b \<leftarrow> put_at 16 (be32 (MessageTypeSpecific p)) b;
     b \<leftarrow> put_at 20 (be64 (ClockIdentity (SourcePortIdentity p))) b;
     b \<leftarrow> put_at 28 (be16 (PortNumber (SourcePortIdentity p))) b;
     b \<leftarrow> put_at 30 (be16 (SequenceID p)) b;
     b \<leftarrow> put_at 32 [ControlField p] b;
     b \<leftarrow> put_at 33 [LogMessageInterval p] b;
     Some (b, headerSize)
   }"

subsection \<open>Announce\<close>

definition Announce_MarshalBinaryTo :: "Announce \<Rightarrow> bytes \<Rightarrow> marshalled" where
  "Announce_MarshalBinaryTo p b =
     (if length b < headerSize + 30 then Some (b, 0, Some (ErrNotEnoughBuffer ''Announce''))
      else do {
        (b, n) \<leftarrow> headerMarshalBinaryTo (ann_Header p) b;
        let body = ann_Body p;
        b \<leftarrow> copy_at n (seconds_list (ts_Seconds (ann_OriginTimestamp body))) b;
        b \<leftarrow> put_at (n + 6) (be32 (ts_Nanoseconds (ann_OriginTimestamp body))) b;
        b \<leftarrow> put_at (n + 10) (be16 (CurrentUTCOffset body)) b;
        b \<leftarrow> put_at (n + 12) [ann_Reserved body] b;
        b \<leftarrow> put_at (n + 13) [GrandmasterPriority1 body] b;
        b \<leftarrow> put_at (n + 14) [ClockClass (GrandmasterClockQuality body)] b;
        b \<leftarrow> put_at (n + 15) [ClockAccuracy (GrandmasterClockQuality body)] b;
        b \<leftarrow> put_at (n + 16) (be16 (OffsetScaledLogVariance (GrandmasterClockQuality body))) b;
        b \<leftarrow> put_at (n + 18) [GrandmasterPriority2 body] b;
        b \<leftarrow> put_at (n + 19) (be64 (GrandmasterIdentity body)) b;
        b \<leftarrow> put_at (n + 27) (be16 (StepsRemoved body)) b;
        b \<leftarrow> put_at (n + 29) [ann_TimeSource body] b;
        let pos = n + 30;
        s \<leftarrow> slice_from pos b;
        (s, tlvLen, err) \<leftarrow> writeTLVs (ann_TLVs p) s;
        Some (take pos b @ s, pos + tlvLen, err)
      })"

definition Announce_UnmarshalBinary ::
  "Announce \<Rightarrow> bytes \<Rightarrow> (Announce \<times> go_error option) option" where
  "Announce_UnmarshalBinary p b =
     (if length b < headerSize + 30 then Some (p, Some (ErrNotEnoughData ''Announce''))
      else do {
        h \<leftarrow> unmarshalHeader b;
        let p = p\<lparr>ann_Header := h\<rparr>;
        case checkPacketLength h (length b) of
          Some e \<Rightarrow> Some (p, Some e)
        | None \<Rightarrow> do {
            let n = headerSize;
            let body = ann_Body p;
            s \<leftarrow> slice_from n b;
            ns \<leftarrow> get32 (n + 6) b;
            utc \<leftarrow> get16 (n + 10) b;
            res \<leftarrow> get_at (n + 12) b;
            p1 \<leftarrow> get_at (n + 13) b;
            cc \<leftarrow> get_at (n + 14) b;
            ca \<leftarrow> get_at (n + 15) b;
            var \<leftarrow> get16 (n + 16) b;
            p2 \<leftarrow> get_at (n + 18) b;
            gid \<leftarrow> get64 (n + 19) b;
            steps \<leftarrow> get16 (n + 27) b;
            src \<leftarrow> get_at (n + 29) b;
            let p = p\<lparr>ann_Body :=
              \<lparr>ann_OriginTimestamp =
                 \<lparr>ts_Seconds = seconds_copy (ts_Seconds (ann_OriginTimestamp body)) s,
                  ts_Nanoseconds = ns\<rparr>,
               CurrentUTCOffset = utc, ann_Reserved = res, GrandmasterPriority1 = p1,
               GrandmasterClockQuality =
                 \<lparr>ClockClass = cc, ClockAccuracy = ca, OffsetScaledLogVariance = var\<rparr>,
               GrandmasterPriority2 = p2, GrandmasterIdentity = gid, StepsRemoved = steps,
               ann_TimeSource = src\<rparr>\<rparr>;
            let pos = n + 30;
            s \<leftarrow> slice_from pos b;
            (tlvs, err) \<leftarrow> readTLVs (ann_TLVs p) (int (unat (MessageLength h)) - int pos) s;
            Some (p\<lparr>ann_TLVs := tlvs\<rparr>, err)
          }
      })"

subsection \<open>Sync and Delay\_Req\<close>

definition SyncDelayReq_MarshalBinaryTo :: "SyncDelayReq \<Rightarrow> bytes \<Rightarrow> marshalled" where
  "SyncDelayReq_MarshalBinaryTo p b =
     (if length b < headerSize + 10 then Some (b, 0, Some (ErrNotEnoughBuffer ''SyncDelayReq''))
      else do {
        (b, n) \<leftarrow> headerMarshalBinaryTo (sync_Header p) b;
        b \<leftarrow> copy_at n (seconds_list (ts_Seconds (sync_OriginTimestamp p))) b;
        b \<leftarrow> put_at (n + 6) (be32 (ts_Nanoseconds (sync_OriginTimestamp p))) b;
        let pos = n + 10;
        s \<leftarrow> slice_from pos b;
        (s, tlvLen, err) \<leftarrow> writeTLVs (sync_TLVs p) s;
        Some (take pos b @ s, pos + tlvLen, err)
      })"

definition SyncDelayReq_UnmarshalBinary ::
  "SyncDelayReq \<Rightarrow> bytes \<Rightarrow> (SyncDelayReq \<times> go_error option) option" where
  "SyncDelayReq_UnmarshalBinary p b =
     (if length b < headerSize + 10 then Some (p, Some (ErrNotEnoughData ''SyncDelayReq''))
      else do {
        h \<leftarrow> unmarshalHeader b;
        let p = p\<lparr>sync_Header := h\<rparr>;
        case checkPacketLength h (length b) of
          Some e \<Rightarrow> Some (p, Some e)
        | None \<Rightarrow> do {
            s \<leftarrow> slice_from headerSize b;
            ns \<leftarrow> get32 (headerSize + 6) b;
            let p = p\<lparr>sync_OriginTimestamp :=
              \<lparr>ts_Seconds = seconds_copy (ts_Seconds (sync_OriginTimestamp p)) s,
               ts_Nanoseconds = ns\<rparr>\<rparr>;
            let pos = headerSize + 10;
            s \<leftarrow> slice_from pos b;
            (tlvs, err) \<leftarrow> readTLVs (sync_TLVs p) (int (unat (MessageLength h)) - int pos) s;
            Some (p\<lparr>sync_TLVs := tlvs\<rparr>, err)
          }
      })"

subsection \<open>Follow\_Up\<close>

definition FollowUp_MarshalBinaryTo :: "FollowUp \<Rightarrow> bytes \<Rightarrow> marshalled" where
  "FollowUp_MarshalBinaryTo p b =
     (if length b < headerSize + 10 then Some (b, 0, Some (ErrNotEnoughBuffer ''FollowUp''))
      else do {
        (b, n) \<leftarrow> headerMarshalBinaryTo (fup_Header p) b;
        b \<leftarrow> copy_at n (seconds_list (ts_Seconds (PreciseOriginTimestamp p))) b;
        b \<leftarrow> put_at (n + 6) (be32 (ts_Nanoseconds (PreciseOriginTimestamp p))) b;
        Some (b, n + 10, None)
      })"

definition FollowUp_UnmarshalBinary ::
  "FollowUp \<Rightarrow> bytes \<Rightarrow> (FollowUp \<times> go_error option) option" where
  "FollowUp_UnmarshalBinary p b =
     (if length b < headerSize + 10 then Some (p, Some (ErrNotEnoughData ''FollowUp''))
      else do {
        h \<leftarrow> unmarshalHeader b;
        let p = p\<lparr>fup_Header := h\<rparr>;
        case checkPacketLength h (length b) of
          Some e \<Rightarrow> Some (p, Some e)
        | None \<Rightarrow> do {
            s \<leftarrow> slice_from headerSize b;
            ns \<leftarrow> get32 (headerSize + 6) b;
            Some (p\<lparr>PreciseOriginTimestamp :=
              \<lparr>ts_Seconds = seconds_copy (ts_Seconds (PreciseOriginTimestamp p)) s,
               ts_Nanoseconds = ns\<rparr>\<rparr>, None)
          }
      })"

subsection \<open>Delay\_Resp\<close>

definition DelayResp_MarshalBinaryTo :: "DelayResp \<Rightarrow> bytes \<Rightarrow> marshalled" where
  "DelayResp_MarshalBinaryTo p b =
     (if length b < headerSize + 20 then Some (b, 0, Some (ErrNotEnoughBuffer ''DelayResp''))
      else do {
        (b, n) \<leftarrow> headerMarshalBinaryTo (dresp_Header p) b;
        let body = dresp_Body p;
        b \<leftarrow> copy_at n (seconds_list (ts_Seconds (ReceiveTimestamp body))) b;
        b \<leftarrow> put_at (n + 6) (be32 (ts_Nanoseconds (ReceiveTimestamp body))) b;
        b \<leftarrow> put_at (n + 10) (be64 (ClockIdentity (RequestingPortIdentity body))) b;
        b \<leftarrow> put_at (n + 18) (be16 (PortNumber (RequestingPortIdentity body))) b;
        Some (b, n + 20, None)
      })"

definition DelayResp_UnmarshalBinary ::
  "DelayResp \<Rightarrow> bytes \<Rightarrow> (DelayResp \<times> go_error option) option" where
  "DelayResp_UnmarshalBinary p b =
     (if length b < headerSize + 20 then Some (p, Some (ErrNotEnoughData ''DelayResp''))
      else do {
        h \<leftarrow> unmarshalHeader b;
        let p = p\<lparr>dresp_Header := h\<rparr>;
        case checkPacketLength h (length b) of
          Some e \<Rightarrow> Some (p, Some e)
        | None \<Rightarrow> do {
            s \<leftarrow> slice_from headerSize b;
            ns \<leftarrow> get32 (headerSize + 6) b;
            clk \<leftarrow> get64 (headerSize + 10) b;
            port \<leftarrow> get16 (headerSize + 18) b;
            Some (p\<lparr>dresp_Body :=
              \<lparr>ReceiveTimestamp =
                 \<lparr>ts_Seconds = seconds_copy (ts_Seconds (ReceiveTimestamp (dresp_Body p))) s,
                  ts_Nanoseconds = ns\<rparr>,
               RequestingPortIdentity = PortIdentity clk port\<rparr>\<rparr>, None)
          }
      })"

subsection \<open>Signaling\<close>

definition Signaling_MarshalBinaryTo :: "Signaling \<Rightarrow> bytes \<Rightarrow> marshalled" where
  "Signaling_MarshalBinaryTo p b =
     (if sig_TLVs p = [] then Some (b, 0, Some ErrNoTLVs)
      else do {
        (b, n) \<leftarrow> headerMarshalBinaryTo (sig_Header p) b;
        b \<leftarrow> put_at n (be64 (ClockIdentity (TargetPortIdentity p))) b;
        b \<leftarrow> put_at (n + 8) (be16 (PortNumber (TargetPortIdentity p))) b;
        let pos = n + 10;
        s \<leftarrow> slice_from pos b;
        (s, tlvLen, err) \<leftarrow> writeTLVs (sig_TLVs p) s;
        Some (take pos b @ s, pos + tlvLen, err)
      })"

definition Signaling_MarshalBinary :: "Signaling \<Rightarrow> (bytes \<times> go_error option) option" where
  "Signaling_MarshalBinary p = do {
     (buf, n, err) \<leftarrow> Signaling_MarshalBinaryTo p (replicate 508 0);
     s \<leftarrow> slice_to n buf;
     Some (s, err)
   }"

definition Signaling_UnmarshalBinary ::
  "Signaling \<Rightarrow> bytes \<Rightarrow> (Signaling \<times> go_error option) option" where
  "Signaling_UnmarshalBinary p b =
     (if length b < headerSize + 10 + tlvHeadSize
      then Some (p, Some (ErrNotEnoughData ''Signaling''))
      else do {
        h \<leftarrow> unmarshalHeader b;
        let p = p\<lparr>sig_Header := h\<rparr>;
        case checkPacketLength h (length b) of
          Some e \<Rightarrow> Some (p, Some e)
        | None \<Rightarrow>
            if SdoID_MsgType (SdoIDAndMsgType h) \<noteq> MessageSignaling
            then Some (p, Some ErrNotSignaling)
            else do {
              clk \<leftarrow> get64 headerSize b;
              port \<leftarrow> get16 (headerSize + 8) b;
              let p = p\<lparr>TargetPortIdentity := PortIdentity clk port\<rparr>;
              let pos = headerSize + 10;
              s \<leftarrow> slice_from pos b;
              (tlvs, err) \<leftarrow> readTLVs (sig_TLVs p) (int (unat (MessageLength h)) - int pos) s;
              let p = p\<lparr>sig_TLVs := tlvs\<rparr>;
              if err \<noteq> None then Some (p, err)
              else if tlvs = [] then Some (p, Some ErrNoTLVs)
              else Some (p, None)
            }
      })"

subsection \<open>Entry points\<close>

fun MarshalBinaryTo :: "Packet \<Rightarrow> bytes \<Rightarrow> marshalled" where
  "MarshalBinaryTo (PSyncDelayReq p) b = SyncDelayReq_MarshalBinaryTo p b"
| "MarshalBinaryTo (PFollowUp p) b = FollowUp_MarshalBinaryTo p b"
| "MarshalBinaryTo (PDelayResp p) b = DelayResp_MarshalBinaryTo p b"
| "MarshalBinaryTo (PAnnounce p) b = Announce_MarshalBinaryTo p b"
| "MarshalBinaryTo (PSignaling p) b = Signaling_MarshalBinaryTo p b"

definition BytesTo :: "Packet \<Rightarrow> bytes \<Rightarrow> marshalled" where
  "BytesTo p buf = do {
     (buf, n, err) \<leftarrow> MarshalBinaryTo p buf;
     if err \<noteq> None then Some (buf, 0, err)
     else do {
       buf \<leftarrow> put_at n [0x0] buf;
       buf \<leftarrow> put_at (n + 1) [0x0] buf;
       Some (buf, n + 2, None)
     }
   }"

definition map_fst_go :: "('a \<Rightarrow> 'b) \<Rightarrow> ('a \<times> go_error option) option \<Rightarrow> ('b \<times> go_error option) option"
  where "map_fst_go f r = map_option (\<lambda>(p, err). (f p, err)) r"

text \<open>Every packet type has \<^verbatim>\<open>UnmarshalBinary\<close>, so the \<^verbatim>\<open>binary.Read\<close> fallback is never taken.\<close>

fun FromBytes :: "bytes \<Rightarrow> Packet \<Rightarrow> (Packet \<times> go_error option) option" where
  "FromBytes b (PSyncDelayReq p) = map_fst_go PSyncDelayReq (SyncDelayReq_UnmarshalBinary p b)"
| "FromBytes b (PFollowUp p) = map_fst_go PFollowUp (FollowUp_UnmarshalBinary p b)"
| "FromBytes b (PDelayResp p) = map_fst_go PDelayResp (DelayResp_UnmarshalBinary p b)"
| "FromBytes b (PAnnounce p) = map_fst_go PAnnounce (Announce_UnmarshalBinary p b)"
| "FromBytes b (PSignaling p) = map_fst_go PSignaling (Signaling_UnmarshalBinary p b)"

definition zero_Header :: Header where
  "zero_Header = \<lparr>SdoIDAndMsgType = 0, Version = 0, MessageLength = 0, DomainNumber = 0,
     MinorSdoID = 0, FlagField = 0, CorrectionField = 0, MessageTypeSpecific = 0,
     SourcePortIdentity = PortIdentity 0 0, SequenceID = 0, ControlField = 0,
     LogMessageInterval = 0\<rparr>"

definition zero_AnnounceBody :: AnnounceBody where
  "zero_AnnounceBody = \<lparr>ann_OriginTimestamp = zero_timestamp, CurrentUTCOffset = 0,
     ann_Reserved = 0, GrandmasterPriority1 = 0,
     GrandmasterClockQuality = \<lparr>ClockClass = 0, ClockAccuracy = 0, OffsetScaledLogVariance = 0\<rparr>,
     GrandmasterPriority2 = 0, GrandmasterIdentity = 0, StepsRemoved = 0, ann_TimeSource = 0\<rparr>"

definition zero_Announce :: Announce where
  "zero_Announce = \<lparr>ann_Header = zero_Header, ann_Body = zero_AnnounceBody, ann_TLVs = []\<rparr>"

definition zero_SyncDelayReq :: SyncDelayReq where
  "zero_SyncDelayReq =
     \<lparr>sync_Header = zero_Header, sync_OriginTimestamp = zero_timestamp, sync_TLVs = []\<rparr>"

definition zero_FollowUp :: FollowUp where
  "zero_FollowUp = \<lparr>fup_Header = zero_Header, PreciseOriginTimestamp = zero_timestamp\<rparr>"

definition zero_DelayResp :: DelayResp where
  "zero_DelayResp = \<lparr>dresp_Header = zero_Header,
     dresp_Body = \<lparr>ReceiveTimestamp = zero_timestamp, RequestingPortIdentity = PortIdentity 0 0\<rparr>\<rparr>"

definition zero_Signaling :: Signaling where
  "zero_Signaling =
     \<lparr>sig_Header = zero_Header, TargetPortIdentity = PortIdentity 0 0, sig_TLVs = []\<rparr>"

text \<open>
  \<^verbatim>\<open>DecodePacket\<close> first reads a header with \<^verbatim>\<open>binary.Read\<close>, which fails on a short buffer
  and otherwise reads the same layout as \<^verbatim>\<open>unmarshalHeader\<close>.
\<close>

definition DecodePacket :: "bytes \<Rightarrow> (go_error + Packet) option" where
  "DecodePacket b =
     (if length b < headerSize then Some (Inl (ErrRead ''Header''))
      else do {
        head \<leftarrow> unmarshalHeader b;
        let msgType = Header_MessageType head;
        let r = (if msgType = MessageSync \<or> msgType = MessageDelayReq
                 then Inr (PSyncDelayReq zero_SyncDelayReq)
                 else if msgType = MessageFollowUp then Inr (PFollowUp zero_FollowUp)
                 else if msgType = MessageDelayResp then Inr (PDelayResp zero_DelayResp)
                 else if msgType = MessageAnnounce then Inr (PAnnounce zero_Announce)
                 else if msgType = MessageSignaling then Inr (PSignaling zero_Signaling)
                 else Inl (ErrUnsupportedType msgType));
        case r of
          Inl e \<Rightarrow> Some (Inl e)
        | Inr p \<Rightarrow> do {
            (p, err) \<leftarrow> FromBytes b p;
            case err of Some e \<Rightarrow> Some (Inl e) | None \<Rightarrow> Some (Inr p)
          }
      })"

subsection \<open>The wire image of a message\<close>

text \<open>
  The reference layout: the bytes a message occupies on the wire, written as one expression
  rather than as a sequence of writes into a buffer.
\<close>

definition header_bytes :: "Header \<Rightarrow> bytes" where
  "header_bytes p =
     [SdoIDAndMsgType p, Version p] @ be16 (MessageLength p) @ [DomainNumber p, MinorSdoID p]
     @ be16 (FlagField p) @ be64 (CorrectionField p) @ be32 (MessageTypeSpecific p)
     @ be64 (ClockIdentity (SourcePortIdentity p)) @ be16 (PortNumber (SourcePortIdentity p))
     @ be16 (SequenceID p) @ [ControlField p, LogMessageInterval p]"

definition timestamp_bytes :: "Timestamp \<Rightarrow> bytes" where
  "timestamp_bytes t = seconds_list (ts_Seconds t) @ be32 (ts_Nanoseconds t)"

definition port_bytes :: "PortIdentity \<Rightarrow> bytes" where
  "port_bytes p = be64 (ClockIdentity p) @ be16 (PortNumber p)"

definition announce_bytes :: "AnnounceBody \<Rightarrow> bytes" where
  "announce_bytes a =
     timestamp_bytes (ann_OriginTimestamp a) @ be16 (CurrentUTCOffset a)
     @ [ann_Reserved a, GrandmasterPriority1 a, ClockClass (GrandmasterClockQuality a),
        ClockAccuracy (GrandmasterClockQuality a)]
     @ be16 (OffsetScaledLogVariance (GrandmasterClockQuality a)) @ [GrandmasterPriority2 a]
     @ be64 (GrandmasterIdentity a) @ be16 (StepsRemoved a) @ [ann_TimeSource a]"

fun packet_body :: "Packet \<Rightarrow> bytes" where
  "packet_body (PSyncDelayReq p) = timestamp_bytes (sync_OriginTimestamp p)"
| "packet_body (PFollowUp p) = timestamp_bytes (PreciseOriginTimestamp p)"
| "packet_body (PDelayResp p) =
     timestamp_bytes (ReceiveTimestamp (dresp_Body p)) @ port_bytes (RequestingPortIdentity (dresp_Body p))"
| "packet_body (PAnnounce p) = announce_bytes (ann_Body p)"
| "packet_body (PSignaling p) = port_bytes (TargetPortIdentity p)"

fun packet_TLVs :: "Packet \<Rightarrow> TLV list" where
  "packet_TLVs (PSyncDelayReq p) = sync_TLVs p"
| "packet_TLVs (PFollowUp p) = []"
| "packet_TLVs (PDelayResp p) = []"
| "packet_TLVs (PAnnounce p) = ann_TLVs p"
| "packet_TLVs (PSignaling p) = sig_TLVs p"

definition packet_bytes :: "Packet \<Rightarrow> bytes" where
  "packet_bytes p = header_bytes (packet_Header p) @ packet_body p
     @ concat (map tlv_bytes (packet_TLVs p))"

lemma length_header_bytes [simp]: "length (header_bytes p) = 34"
  by (simp add: header_bytes_def)

lemma length_timestamp_bytes [simp]: "length (timestamp_bytes p) = 10"
  by (simp add: timestamp_bytes_def)

lemma length_port_bytes [simp]: "length (port_bytes p) = 10"
  by (simp add: port_bytes_def)

lemma length_announce_bytes [simp]: "length (announce_bytes p) = 30"
  by (simp add: announce_bytes_def)

subsection \<open>The header layout\<close>

lemma length_ge_eq: "n \<le> length b \<Longrightarrow> \<exists>xs ys. b = xs @ ys \<and> length xs = n"
  by (metis append_take_drop_id length_take min.absorb2)

lemma headerMarshal_eq:
  assumes "34 \<le> length b"
  shows "headerMarshalBinaryTo p b = Some (header_bytes p @ drop 34 b, 34)"
proof -
  obtain xs ys where b: "b = xs @ ys" and "length xs = 34"
    using length_ge_eq [OF assms] by blast
  then show ?thesis by (simp add: headerMarshalBinaryTo_def header_bytes_def put_at_def)
qed

lemma put_at_SomeD: "put_at i xs b = Some b' \<Longrightarrow> length b' = length b \<and> i + length xs \<le> length b"
  by (auto simp: put_at_def split: if_splits)

lemma headerMarshal_Some: "headerMarshalBinaryTo p b = Some r \<Longrightarrow> 34 \<le> length b"
  by (auto simp: headerMarshalBinaryTo_def bind_eq_Some_conv dest!: put_at_SomeD)

lemma headerMarshal_short: "length b < 34 \<Longrightarrow> headerMarshalBinaryTo p b = None"
  using headerMarshal_Some by (cases "headerMarshalBinaryTo p b") fastforce+

lemma unmarshalHeader_eq: "unmarshalHeader (header_bytes p @ rest) = Some p"
  by (simp add: unmarshalHeader_def header_bytes_def get16_def get32_def get64_def nth_append)

lemma header_bytes_surj:
  assumes "length b = 34"
  shows "\<exists>p. b = header_bytes p"
proof -
  let ?p = "\<lparr>SdoIDAndMsgType = b ! 0, Version = b ! 1, MessageLength = be_val (take 2 (drop 2 b)),
    DomainNumber = b ! 4, MinorSdoID = b ! 5, FlagField = be_val (take 2 (drop 6 b)),
    CorrectionField = be_val (take 8 (drop 8 b)), MessageTypeSpecific = be_val (take 4 (drop 16 b)),
    SourcePortIdentity = PortIdentity (be_val (take 8 (drop 20 b))) (be_val (take 2 (drop 28 b))),
    SequenceID = be_val (take 2 (drop 30 b)), ControlField = b ! 32, LogMessageInterval = b ! 33\<rparr>"
  have "b = header_bytes ?p"
    using assms unfolding header_bytes_def
    by (auto simp: numeral_eq_Suc length_Suc_conv)
  then show ?thesis by blast
qed

interpretation headerc: fixed_layout header_bytes unmarshalHeader 34
proof
  fix b :: bytes
  show "length b < 34 \<Longrightarrow> unmarshalHeader b = None"
    by (auto simp: unmarshalHeader_def get_at_def bind_eq_None_conv)
qed (simp_all add: unmarshalHeader_eq header_bytes_surj)

lemma unmarshalHeader_total: "34 \<le> length b \<Longrightarrow> \<exists>h. unmarshalHeader b = Some h"
  by (meson headerc.dec_total)

subsection \<open>Marshalling writes the wire image\<close>

lemma write_tail:
  assumes "\<forall>t \<in> set tlvs. marshals t" and "length pre = n"
    and "n + length (concat (map tlv_bytes tlvs)) \<le> length b"
  shows "(do { s \<leftarrow> slice_from n (pre @ drop n b);
      (s, tlvLen, err) \<leftarrow> writeTLVs tlvs s;
      Some (take n (pre @ drop n b) @ s, n + tlvLen, err) }) =
    Some ((pre @ concat (map tlv_bytes tlvs)) @ drop (n + length (concat (map tlv_bytes tlvs))) b,
      n + length (concat (map tlv_bytes tlvs)), None)"
  using assms writeTLVs_eq [of tlvs "drop n b"] by (simp add: add.commute)

lemmas body_bytes_defs = timestamp_bytes_def port_bytes_def announce_bytes_def

definition marshals_packet :: "Packet \<Rightarrow> bool" where
  "marshals_packet p \<longleftrightarrow> (\<forall>t \<in> set (packet_TLVs p). marshals t)
     \<and> (case p of PSignaling s \<Rightarrow> sig_TLVs s \<noteq> [] | _ \<Rightarrow> True)"

lemma Marshal_eq:
  assumes "marshals_packet p" and "length (packet_bytes p) \<le> length b"
  shows "MarshalBinaryTo p b =
    Some (packet_bytes p @ drop (length (packet_bytes p)) b, length (packet_bytes p), None)"
proof (cases p)
  case (PSyncDelayReq q)
  have "SyncDelayReq_MarshalBinaryTo q b = (do {
      s \<leftarrow> slice_from 44 ((header_bytes (sync_Header q) @ timestamp_bytes (sync_OriginTimestamp q)) @ drop 44 b);
      (s, tlvLen, err) \<leftarrow> writeTLVs (sync_TLVs q) s;
      Some (take 44 ((header_bytes (sync_Header q) @ timestamp_bytes (sync_OriginTimestamp q)) @ drop 44 b) @ s, 44 + tlvLen, err) })"
    using assms(2) by (simp add: PSyncDelayReq packet_bytes_def SyncDelayReq_MarshalBinaryTo_def headerMarshal_eq
      body_bytes_defs put_at_def copy_at_def Let_def)
  then show ?thesis
    using assms write_tail [of "sync_TLVs q" "header_bytes (sync_Header q) @ timestamp_bytes (sync_OriginTimestamp q)" 44 b]
    by (simp add: PSyncDelayReq packet_bytes_def marshals_packet_def)
next
  case (PFollowUp q)
  then show ?thesis
    using assms(2) by (simp add: packet_bytes_def FollowUp_MarshalBinaryTo_def headerMarshal_eq
      body_bytes_defs put_at_def copy_at_def Let_def)
next
  case (PDelayResp q)
  then show ?thesis
    using assms(2) by (simp add: packet_bytes_def DelayResp_MarshalBinaryTo_def headerMarshal_eq
      body_bytes_defs put_at_def copy_at_def Let_def)
next
  case (PAnnounce q)
  let ?pre = "header_bytes (ann_Header q) @ announce_bytes (ann_Body q)"
  have "64 \<le> length b" using assms(2) by (simp add: PAnnounce packet_bytes_def)
  then obtain xs ys where b: "b = xs @ ys" "length xs = 64" using length_ge_eq by blast
  have "Announce_MarshalBinaryTo q b = (do {
      s \<leftarrow> slice_from 64 (?pre @ drop 64 b);
      (s, tlvLen, err) \<leftarrow> writeTLVs (ann_TLVs q) s;
      Some (take 64 (?pre @ drop 64 b) @ s, 64 + tlvLen, err) })"
    using b by (simp add: Announce_MarshalBinaryTo_def headerMarshal_eq
      body_bytes_defs put_at_def copy_at_def Let_def)
  then show ?thesis
    using assms write_tail [of "ann_TLVs q" ?pre 64 b]
    by (simp add: PAnnounce packet_bytes_def marshals_packet_def)
next
  case (PSignaling q)
  let ?pre = "header_bytes (sig_Header q) @ port_bytes (TargetPortIdentity q)"
  have "Signaling_MarshalBinaryTo q b = (do {
      s \<leftarrow> slice_from 44 (?pre @ drop 44 b);
      (s, tlvLen, err) \<leftarrow> writeTLVs (sig_TLVs q) s;
      Some (take 44 (?pre @ drop 44 b) @ s, 44 + tlvLen, err) })"
    using assms by (simp add: PSignaling packet_bytes_def Signaling_MarshalBinaryTo_def headerMarshal_eq
      body_bytes_defs put_at_def copy_at_def Let_def marshals_packet_def)
  then show ?thesis
    using assms write_tail [of "sig_TLVs q" ?pre 44 b]
    by (simp add: PSignaling packet_bytes_def marshals_packet_def)
qed

subsection \<open>Unmarshalling reads the wire image\<close>

text \<open>
  A well-formed message carries a message type its structure is used for, a
  \<^verbatim>\<open>MessageLength\<close> equal to its size, and TLVs that its own decoder accepts; a Signaling
  message carries at least one.
\<close>

fun packet_kind :: "Packet \<Rightarrow> u8 set" where
  "packet_kind (PSyncDelayReq p) = {MessageSync, MessageDelayReq}"
| "packet_kind (PFollowUp p) = {MessageFollowUp}"
| "packet_kind (PDelayResp p) = {MessageDelayResp}"
| "packet_kind (PAnnounce p) = {MessageAnnounce}"
| "packet_kind (PSignaling p) = {MessageSignaling}"

definition wf_packet :: "Packet \<Rightarrow> bool" where
  "wf_packet p \<longleftrightarrow> Header_MessageType (packet_Header p) \<in> packet_kind p
     \<and> unat (MessageLength (packet_Header p)) = length (packet_bytes p)
     \<and> (\<forall>t \<in> set (packet_TLVs p). wf_tlv t)
     \<and> (case p of PSignaling s \<Rightarrow> sig_TLVs s \<noteq> [] | _ \<Rightarrow> True)"

lemma read_tail:
  assumes "\<forall>t \<in> set ts. wf_tlv t"
  shows "readTLVs [] (int (length (concat (map tlv_bytes ts)))) (concat (map tlv_bytes ts) @ rest)
    = Some (ts, None)"
  using readTLVs_loop_eq [of ts "[]" 0 _ "[]" rest] assms by (simp add: readTLVs_def)

lemma get_append:
  "n \<le> i \<Longrightarrow> length xs = n \<Longrightarrow> get_at i (xs @ ys) = get_at (i - n) ys"
  by (auto simp: get_at_def nth_append)

lemmas get_defs = get16_def get32_def get64_def

lemma Announce_Unmarshal_eq:
  assumes "\<forall>t \<in> set (ann_TLVs q). wf_tlv t" and "ann_TLVs z = []"
    and "unat (MessageLength (ann_Header q)) = length (packet_bytes (PAnnounce q))"
  shows "Announce_UnmarshalBinary z (packet_bytes (PAnnounce q) @ rest) = Some (q, None)"
  using assms read_tail [OF assms(1), of rest]
  by (simp add: Announce_UnmarshalBinary_def packet_bytes_def unmarshalHeader_eq checkPacketLength_def
    body_bytes_defs get_defs nth_append seconds_copy_prefix Let_def)

lemma SyncDelayReq_Unmarshal_eq:
  assumes "\<forall>t \<in> set (sync_TLVs q). wf_tlv t" and "sync_TLVs z = []"
    and "unat (MessageLength (sync_Header q)) = length (packet_bytes (PSyncDelayReq q))"
  shows "SyncDelayReq_UnmarshalBinary z (packet_bytes (PSyncDelayReq q) @ rest) = Some (q, None)"
  using assms read_tail [OF assms(1), of rest]
  by (simp add: SyncDelayReq_UnmarshalBinary_def packet_bytes_def unmarshalHeader_eq checkPacketLength_def
    body_bytes_defs get_defs nth_append seconds_copy_prefix Let_def)

lemma FollowUp_Unmarshal_eq:
  assumes "unat (MessageLength (fup_Header q)) = length (packet_bytes (PFollowUp q))"
  shows "FollowUp_UnmarshalBinary z (packet_bytes (PFollowUp q) @ rest) = Some (q, None)"
  using assms
  by (simp add: FollowUp_UnmarshalBinary_def packet_bytes_def unmarshalHeader_eq checkPacketLength_def
    body_bytes_defs get_defs nth_append seconds_copy_prefix Let_def)

lemma DelayResp_Unmarshal_eq:
  assumes "unat (MessageLength (dresp_Header q)) = length (packet_bytes (PDelayResp q))"
  shows "DelayResp_UnmarshalBinary z (packet_bytes (PDelayResp q) @ rest) = Some (q, None)"
  using assms
  by (simp add: DelayResp_UnmarshalBinary_def packet_bytes_def unmarshalHeader_eq checkPacketLength_def
    body_bytes_defs get_defs nth_append seconds_copy_prefix Let_def)

lemma Signaling_Unmarshal_eq:
  assumes "\<forall>t \<in> set (sig_TLVs q). wf_tlv t" and "sig_TLVs z = []"
    and "unat (MessageLength (sig_Header q)) = length (packet_bytes (PSignaling q))"
    and "Header_MessageType (sig_Header q) = MessageSignaling" and "sig_TLVs q \<noteq> []"
  shows "Signaling_UnmarshalBinary z (packet_bytes (PSignaling q) @ rest) = Some (q, None)"
proof -
  have "4 \<le> length (concat (map tlv_bytes (sig_TLVs q)))"
    using assms(1,5) by (cases "sig_TLVs q") (simp_all add: wf_tlv_size)
  then show ?thesis
  using assms read_tail [OF assms(1), of rest]
  by (simp add: Signaling_UnmarshalBinary_def packet_bytes_def unmarshalHeader_eq checkPacketLength_def
    Header_MessageType_def body_bytes_defs get_defs nth_append Let_def)
qed

lemma DecodePacket_eq:
  assumes "wf_packet p"
  shows "DecodePacket (packet_bytes p @ rest) = Some (Inr p)"
proof -
  have h: "unmarshalHeader (packet_bytes p @ rest) = Some (packet_Header p)"
    by (simp add: packet_bytes_def unmarshalHeader_eq)
  have len: "\<not> length (packet_bytes p @ rest) < 34" by (simp add: packet_bytes_def)
  show ?thesis
    using assms h len
    by (cases p) (auto simp: DecodePacket_def wf_packet_def map_fst_go_def
      Announce_Unmarshal_eq SyncDelayReq_Unmarshal_eq FollowUp_Unmarshal_eq DelayResp_Unmarshal_eq
      Signaling_Unmarshal_eq zero_Announce_def zero_SyncDelayReq_def zero_Signaling_def Let_def)
qed

subsection \<open>Properties\<close>

lemma wf_packet_marshals: "wf_packet p \<Longrightarrow> marshals_packet p"
  using wf_tlv_marshals by (auto simp: wf_packet_def marshals_packet_def split: Packet.splits)

lemma BytesTo_eq:
  assumes "marshals_packet p" and "length (packet_bytes p) + 2 \<le> length buf"
  shows "BytesTo p buf =
    Some (packet_bytes p @ [0, 0] @ drop (length (packet_bytes p) + 2) buf,
      length (packet_bytes p) + 2, None)"
proof -
  let ?n = "length (packet_bytes p)"
  have m: "MarshalBinaryTo p buf = Some (packet_bytes p @ drop ?n buf, ?n, None)"
    using assms by (intro Marshal_eq) simp_all
  have "drop ?n buf = buf ! ?n # buf ! Suc ?n # drop (?n + 2) buf"
    using assms(2) by (simp add: Cons_nth_drop_Suc)
  then show ?thesis by (simp add: BytesTo_def m put_at_def)
qed

text \<open>C11: encoding a well-formed message with \<^verbatim>\<open>BytesTo\<close> into a buffer that has room for it and
  the two trailing bytes succeeds, returns the message length plus two, keeps the buffer's length,
  and \<^verbatim>\<open>DecodePacket\<close> of the bytes written gives back exactly the message, for each of the
  five message structures and with any list of well-formed TLVs.\<close>

theorem packet_roundtrip:
  assumes "wf_packet p" and "unat (MessageLength (packet_Header p)) + 2 \<le> length buf"
  shows "\<exists>buf' n. BytesTo p buf = Some (buf', n, None) \<and> length buf' = length buf
    \<and> n = unat (MessageLength (packet_Header p)) + 2
    \<and> DecodePacket (take n buf') = Some (Inr p)"
proof -
  have n: "unat (MessageLength (packet_Header p)) = length (packet_bytes p)"
    using assms(1) by (simp add: wf_packet_def)
  then have "BytesTo p buf = Some (packet_bytes p @ [0, 0] @ drop (length (packet_bytes p) + 2) buf,
      length (packet_bytes p) + 2, None)"
    using assms wf_packet_marshals by (intro BytesTo_eq) simp_all
  then show ?thesis using n assms(2) DecodePacket_eq [OF assms(1), of "[0, 0]"] by simp
qed

definition sample_DelayResp :: Packet where
  "sample_DelayResp = PDelayResp
     \<lparr>dresp_Header = zero_Header\<lparr>SdoIDAndMsgType := MessageDelayResp, MessageLength := 54, SequenceID := 7\<rparr>,
      dresp_Body = \<lparr>ReceiveTimestamp = zero_timestamp, RequestingPortIdentity = PortIdentity 5 1\<rparr>\<rparr>"

lemma sample_DelayResp_wf: "wf_packet sample_DelayResp"
  by (simp add: wf_packet_def sample_DelayResp_def packet_bytes_def zero_Header_def
    Header_MessageType_def SdoID_MsgType_def)

theorem packet_roundtrip_witness:
  "wf_packet sample_DelayResp
   \<and> (\<exists>buf' n. BytesTo sample_DelayResp (replicate 128 0) = Some (buf', n, None) \<and> n = 56
        \<and> DecodePacket (take n buf') = Some (Inr sample_DelayResp))"
  using packet_roundtrip [OF sample_DelayResp_wf, of "replicate 128 0"] sample_DelayResp_wf
  by (auto simp: sample_DelayResp_def zero_Header_def)

text \<open>\<^verbatim>\<open>BytesTo\<close> does not check for room for the two trailing bytes: on every buffer in which
  the message itself fits but the trailer does not, marshalling succeeds and \<^verbatim>\<open>BytesTo\<close> panics.\<close>

lemma BytesTo_needs_trailing:
  assumes "marshals_packet p" and "length (packet_bytes p) \<le> length buf"
    and "length buf < length (packet_bytes p) + TrailingBytes"
  shows "MarshalBinaryTo p buf \<noteq> None \<and> BytesTo p buf = None"
  using assms Marshal_eq [OF assms(1,2)] by (auto simp: BytesTo_def put_at_def bind_eq_None_conv)

lemma BytesTo_needs_trailing_witness:
  "BytesTo sample_DelayResp (replicate 55 0) = None"
  using BytesTo_needs_trailing [OF wf_packet_marshals [OF sample_DelayResp_wf], of "replicate 55 0"]
  by (simp add: sample_DelayResp_def packet_bytes_def)

lemma readTLVs_slice:
  assumes "pos \<le> length b" and "checkPacketLength h (length b) = None"
  shows "\<exists>r. readTLVs tlvs (uint (MessageLength h) - int pos) (drop pos b) = Some r"
proof -
  have "unat (MessageLength h) \<le> length b"
    using assms(2) by (simp add: checkPacketLength_def split: if_splits)
  then have "int (unat (MessageLength h)) \<le> int (length b)" by (simp only: of_nat_le_iff)
  then have "uint (MessageLength h) - int pos \<le> int (length (drop pos b))"
    using assms(1) by (simp add: of_nat_diff)
  from readTLVs_loop_no_panic [OF this, of tlvs 0] show ?thesis by (auto simp: readTLVs_def)
qed

lemma packet_shape:
  assumes "34 \<le> m" and "\<And>h. m \<le> length b \<Longrightarrow> checkPacketLength h (length b) = None \<Longrightarrow> body h \<noteq> None"
  shows "(if length b < m then Some x else unmarshalHeader b \<bind>
     (\<lambda>h. case checkPacketLength h (length b) of Some e \<Rightarrow> Some (g h e) | None \<Rightarrow> body h)) \<noteq> None"
proof (cases "length b < m")
  case False
  then obtain h where "unmarshalHeader b = Some h" using assms(1) unmarshalHeader_total [of b] by auto
  then show ?thesis using False assms(2) [of h] by (auto split: option.split)
qed simp

lemmas packet_unmarshal_defs = Announce_UnmarshalBinary_def SyncDelayReq_UnmarshalBinary_def
  FollowUp_UnmarshalBinary_def DelayResp_UnmarshalBinary_def Signaling_UnmarshalBinary_def

lemma readTLVs_bind:
  assumes "pos \<le> length b" and "checkPacketLength h (length b) = None" and "int pos = k"
    and "\<And>r. f r \<noteq> None"
  shows "readTLVs tlvs (uint (MessageLength h) - k) (drop pos b) \<bind> f \<noteq> None"
  using readTLVs_slice [OF assms(1,2), of tlvs] assms(3,4) by auto

lemma UnmarshalBinary_no_panic_tlvs:
  "Announce_UnmarshalBinary p1 b \<noteq> None" "SyncDelayReq_UnmarshalBinary p2 b \<noteq> None"
  "Signaling_UnmarshalBinary p5 b \<noteq> None"
  unfolding packet_unmarshal_defs Let_def
  by (rule packet_shape, simp, simp add: get_defs del: not_None_eq,
      (intro impI)?, (rule readTLVs_bind; simp split: prod.split))+

lemma UnmarshalBinary_no_panic:
  "FollowUp_UnmarshalBinary p3 b \<noteq> None" "DelayResp_UnmarshalBinary p4 b \<noteq> None"
  unfolding packet_unmarshal_defs Let_def
  by (rule packet_shape, simp, simp add: get_defs)+

lemma FromBytes_no_panic: "FromBytes b p \<noteq> None"
  using UnmarshalBinary_no_panic UnmarshalBinary_no_panic_tlvs by (cases p) (simp_all add: map_fst_go_def)

lemma FromBytes_bind_no_panic:
  assumes "\<And>r. f r \<noteq> None"
  shows "FromBytes b p \<bind> f \<noteq> None"
  using assms FromBytes_no_panic [of b p] by auto

text \<open>C12: \<^verbatim>\<open>DecodePacket\<close> never panics: on every byte string, whatever its lengths claim, it
  returns a message or an error.\<close>

theorem DecodePacket_no_panic: "\<exists>r. DecodePacket b = Some r"
proof (cases "length b < 34")
  case False
  then obtain h where h: "unmarshalHeader b = Some h" using unmarshalHeader_total [of b] by auto
  have "DecodePacket b \<noteq> None"
    using False h
    by (auto simp: DecodePacket_def Let_def simp del: FromBytes.simps not_None_eq split: sum.split
      intro!: FromBytes_bind_no_panic split: option.split)
  then show ?thesis by blast
qed (simp add: DecodePacket_def)

lemma checkPacketLength_le: "checkPacketLength h l = None \<longleftrightarrow> unat (MessageLength h) \<le> l"
  by (auto simp: checkPacketLength_def)

lemma Unmarshal_header:
  "Announce_UnmarshalBinary z1 b = Some (q1, None) \<Longrightarrow>
     unmarshalHeader b = Some (ann_Header q1) \<and> checkPacketLength (ann_Header q1) (length b) = None"
  "SyncDelayReq_UnmarshalBinary z2 b = Some (q2, None) \<Longrightarrow>
     unmarshalHeader b = Some (sync_Header q2) \<and> checkPacketLength (sync_Header q2) (length b) = None"
  "FollowUp_UnmarshalBinary z3 b = Some (q3, None) \<Longrightarrow>
     unmarshalHeader b = Some (fup_Header q3) \<and> checkPacketLength (fup_Header q3) (length b) = None"
  "DelayResp_UnmarshalBinary z4 b = Some (q4, None) \<Longrightarrow>
     unmarshalHeader b = Some (dresp_Header q4) \<and> checkPacketLength (dresp_Header q4) (length b) = None"
  "Signaling_UnmarshalBinary z5 b = Some (q5, None) \<Longrightarrow>
     unmarshalHeader b = Some (sig_Header q5) \<and> checkPacketLength (sig_Header q5) (length b) = None
     \<and> sig_TLVs q5 \<noteq> []"
  by (auto simp: packet_unmarshal_defs bind_eq_Some_conv Let_def split: if_splits option.splits)

lemma FromBytes_header:
  "FromBytes b z = Some (p, None) \<Longrightarrow> unmarshalHeader b = Some (packet_Header p)
     \<and> unat (MessageLength (packet_Header p)) \<le> length b \<and> packet_kind p = packet_kind z"
  by (cases z) (auto simp: map_fst_go_def checkPacketLength_le dest!: Unmarshal_header)

text \<open>C27: a message that \<^verbatim>\<open>DecodePacket\<close> accepts carries the header the first 34 bytes spell, its
  structure is the one that belongs to the header's message type, and its declared length does not
  exceed the bytes received.\<close>

theorem DecodePacket_sound:
  assumes "DecodePacket b = Some (Inr p)"
  shows "unmarshalHeader b = Some (packet_Header p)
    \<and> Header_MessageType (packet_Header p) \<in> packet_kind p
    \<and> unat (MessageLength (packet_Header p)) \<le> length b"
proof -
  obtain h z where h: "unmarshalHeader b = Some h" and z: "FromBytes b z = Some (p, None)"
    and k: "Header_MessageType h \<in> packet_kind z"
    using assms by (auto simp: DecodePacket_def bind_eq_Some_conv Let_def simp del: FromBytes.simps
      split: if_splits option.splits sum.splits)
  then show ?thesis using FromBytes_header [OF z] by simp
qed

theorem DecodePacket_sound_witness:
  "unmarshalHeader (packet_bytes sample_DelayResp @ [0, 0]) = Some (packet_Header sample_DelayResp)
   \<and> unat (MessageLength (packet_Header sample_DelayResp)) \<le> length (packet_bytes sample_DelayResp @ [0, 0])"
  using DecodePacket_sound [OF DecodePacket_eq [OF sample_DelayResp_wf, of "[0, 0]"]] by blast

text \<open>The header layout is bijective: writing a decoded header back over the buffer it was read
  from leaves the buffer as it was, so no header bit is lost or invented.\<close>

lemma header_reencode:
  assumes "unmarshalHeader b = Some h"
  shows "headerMarshalBinaryTo h b = Some (b, headerSize)"
proof -
  have "34 \<le> length b" "take 34 b = header_bytes h"
    using assms by (simp_all add: headerc.dec_Some_iff)
  then show ?thesis using headerMarshal_eq [of b h] by (metis append_take_drop_id)
qed

lemma header_reencode_witness:
  "headerMarshalBinaryTo (packet_Header sample_DelayResp)
     (header_bytes (packet_Header sample_DelayResp) @ [1, 2, 3])
   = Some (header_bytes (packet_Header sample_DelayResp) @ [1, 2, 3], headerSize)"
  by (rule header_reencode [OF unmarshalHeader_eq])

lemma header_decode_total:
  "(\<exists>h. unmarshalHeader b = Some h) \<longleftrightarrow> headerSize \<le> length b"
  using headerc.dec_None_iff [of b] by (cases "unmarshalHeader b") auto

end
