(* ===== verification/Ptp_Subscription.thy ===== *)
theory Ptp_Subscription
  imports Ptp_Packets Ptp_Config
begin

section \<open>Subscriptions (\<^verbatim>\<open>src/server/subscription.go\<close>)\<close>

text \<open>
  A subscription client owns the five packets it sends and the state of its timer loop. The
  structure is a record; the packets it points to have no other owner, so they are part of it.
  The two channels it was given belong to one worker, whose index stands for both. The methods
  take \<^verbatim>\<open>time.Now()\<close> as an argument. The goroutine \<^verbatim>\<open>Start\<close> is cut at its blocking point,
  the \<^verbatim>\<open>select\<close>: what it does before the loop, on a tick, and when it leaves the loop.
  \<open>log2i\<close> stands for the floating-point logarithm of \<^verbatim>\<open>NewLogInterval\<close>.
\<close>

subsection \<open>Outcomes\<close>

text \<open>
  A call that returns, one that panics (in any goroutine that ends the whole process), and one
  that waits for ever in a state it has already changed.
\<close>

datatype 'a outcome = Done 'a | Crash | Hang 'a

fun obind :: "'a outcome \<Rightarrow> ('a \<Rightarrow> 'a outcome) \<Rightarrow> 'a outcome" where
  "obind (Done x) f = f x"
| "obind Crash f = Crash"
| "obind (Hang x) f = Hang x"

subsection \<open>The structure\<close>

record SubscriptionClient =
  sc_worker :: nat
  sc_subscriptionType :: u8
  sc_interval :: duration
  sc_expire :: time
  sc_sequenceID :: u16
  sc_running :: bool
  sc_stop :: "bool list"
  sc_runningInterval :: duration
  sc_intervalTicker :: "duration option"
  sc_eclisa :: Sockaddr
  sc_gclisa :: Sockaddr
  sc_syncP :: SyncDelayReq
  sc_followupP :: FollowUp
  sc_announceP :: Announce
  sc_delayRespP :: DelayResp
  sc_signaling :: Signaling


text \<open>The domain number of the configuration as the byte of the header.\<close>

definition domain_byte :: "Config \<Rightarrow> u8" where
  "domain_byte c = word_of_nat (cfg_DomainNumber (cfg_static c))"

text \<open>
  \<^verbatim>\<open>int16(UTCOffset.Seconds())\<close>: whole seconds, truncated towards zero. Offsets beyond
  \<^verbatim>\<open>int16\<close> are rejected by the validation.
\<close>

definition utc_seconds :: "Config \<Rightarrow> int" where
  "utc_seconds c =
     sgn (UTCOffset (cfg_dynamic c)) * (\<bar>UTCOffset (cfg_dynamic c)\<bar> div Second)"

subsection \<open>Packets\<close>

definition initSync :: "Config \<Rightarrow> SubscriptionClient \<Rightarrow> SubscriptionClient" where
  "initSync c sc = sc\<lparr>sc_syncP :=
     \<lparr>sync_Header =
        \<lparr>SdoIDAndMsgType = NewSdoIDAndMsgType MessageSync 0, Version = Version_const,
         MessageLength = word_of_nat (headerSize + 10), DomainNumber = domain_byte c,
         MinorSdoID = 0, FlagField = FlagUnicast OR FlagTwoStep, CorrectionField = 0,
         MessageTypeSpecific = 0, SourcePortIdentity = PortIdentity (cfg_clockIdentity c) 1,
         SequenceID = 0, ControlField = 0, LogMessageInterval = 0x7f\<rparr>,
      sync_OriginTimestamp = zero_timestamp, sync_TLVs = []\<rparr>\<rparr>"

definition UpdateSync :: "SubscriptionClient \<Rightarrow> SubscriptionClient" where
  "UpdateSync sc = sc\<lparr>sc_syncP := (sc_syncP sc)\<lparr>
     sync_Header := (sync_Header (sc_syncP sc))\<lparr>SequenceID := sc_sequenceID sc\<rparr>\<rparr>\<rparr>"

definition UpdateSyncDelayReq :: "time \<Rightarrow> u16 \<Rightarrow> SubscriptionClient \<Rightarrow> SubscriptionClient" where
  "UpdateSyncDelayReq received seq sc = sc\<lparr>sc_syncP := (sc_syncP sc)\<lparr>
     sync_Header := (sync_Header (sc_syncP sc))\<lparr>SequenceID := seq\<rparr>,
     sync_OriginTimestamp := NewTimestamp received\<rparr>\<rparr>"

definition initFollowup :: "Config \<Rightarrow> time \<Rightarrow> SubscriptionClient \<Rightarrow> SubscriptionClient" where
  "initFollowup c now sc = sc\<lparr>sc_followupP :=
     \<lparr>fup_Header =
        \<lparr>SdoIDAndMsgType = NewSdoIDAndMsgType MessageFollowUp 0, Version = Version_const,
         MessageLength = word_of_nat (headerSize + 10), DomainNumber = domain_byte c,
         MinorSdoID = 0, FlagField = FlagUnicast, CorrectionField = 0,
         MessageTypeSpecific = 0, SourcePortIdentity = PortIdentity (cfg_clockIdentity c) 1,
         SequenceID = 0, ControlField = 2, LogMessageInterval = 0\<rparr>,
      PreciseOriginTimestamp = NewTimestamp now\<rparr>\<rparr>"

definition UpdateFollowup ::
  "(duration \<Rightarrow> int) \<Rightarrow> time \<Rightarrow> SubscriptionClient \<Rightarrow> SubscriptionClient" where
  "UpdateFollowup log2i hwts sc =
     (let i = fst (NewLogInterval log2i (sc_interval sc)) in
      sc\<lparr>sc_followupP := (sc_followupP sc)\<lparr>
        fup_Header := (fup_Header (sc_followupP sc))\<lparr>
          SequenceID := sc_sequenceID sc, LogMessageInterval := i\<rparr>,
        PreciseOriginTimestamp := NewTimestamp hwts\<rparr>\<rparr>)"

definition initAnnounce :: "Config \<Rightarrow> SubscriptionClient \<Rightarrow> SubscriptionClient" where
  "initAnnounce c sc = sc\<lparr>sc_announceP :=
     \<lparr>ann_Header =
        \<lparr>SdoIDAndMsgType = NewSdoIDAndMsgType MessageAnnounce 0, Version = Version_const,
         MessageLength = word_of_nat (headerSize + 30), DomainNumber = domain_byte c,
         MinorSdoID = 0, FlagField = FlagUnicast OR FlagPTPTimescale, CorrectionField = 0,
         MessageTypeSpecific = 0, SourcePortIdentity = PortIdentity (cfg_clockIdentity c) 1,
         SequenceID = 0, ControlField = 5, LogMessageInterval = 0\<rparr>,
      ann_Body =
        \<lparr>ann_OriginTimestamp = zero_timestamp, CurrentUTCOffset = 0, ann_Reserved = 0,
         GrandmasterPriority1 = 128,
         GrandmasterClockQuality =
           \<lparr>ClockClass = 0, ClockAccuracy = 0, OffsetScaledLogVariance = 23008\<rparr>,
         GrandmasterPriority2 = 128, GrandmasterIdentity = cfg_clockIdentity c,
         StepsRemoved = 0, ann_TimeSource = TimeSourceGNSS\<rparr>,
      ann_TLVs = []\<rparr>\<rparr>"

text \<open>The UTC offset and the clock quality of the configuration, as both updates set them.\<close>

definition set_quality :: "Config \<Rightarrow> AnnounceBody \<Rightarrow> AnnounceBody" where
  "set_quality c b = b\<lparr>
     CurrentUTCOffset := word_of_int (utc_seconds c),
     GrandmasterClockQuality := (GrandmasterClockQuality b)\<lparr>
       ClockClass := cfg_ClockClass (cfg_dynamic c),
       ClockAccuracy := cfg_ClockAccuracy (cfg_dynamic c)\<rparr>\<rparr>"

definition UpdateAnnounce ::
  "(duration \<Rightarrow> int) \<Rightarrow> Config \<Rightarrow> SubscriptionClient \<Rightarrow> SubscriptionClient" where
  "UpdateAnnounce log2i c sc =
     (let i = fst (NewLogInterval log2i (sc_interval sc)); a = sc_announceP sc in
      sc\<lparr>sc_announceP := a\<lparr>
        ann_Header := (ann_Header a)\<lparr>SequenceID := sc_sequenceID sc, LogMessageInterval := i\<rparr>,
        ann_Body := set_quality c (ann_Body a)\<rparr>\<rparr>)"

definition UpdateAnnounceDelayReq ::
  "Config \<Rightarrow> u64 \<Rightarrow> u16 \<Rightarrow> SubscriptionClient \<Rightarrow> SubscriptionClient" where
  "UpdateAnnounceDelayReq c cf seq sc =
     (let a = sc_announceP sc in
      sc\<lparr>sc_announceP := a\<lparr>
        ann_Header := (ann_Header a)\<lparr>SequenceID := seq, CorrectionField := cf\<rparr>,
        ann_Body := set_quality c (ann_Body a)\<rparr>\<rparr>)"

definition UpdateAnnounceFollowUp :: "time \<Rightarrow> SubscriptionClient \<Rightarrow> SubscriptionClient" where
  "UpdateAnnounceFollowUp transmitted sc =
     (let a = sc_announceP sc in
      sc\<lparr>sc_announceP := a\<lparr>
        ann_Body := (ann_Body a)\<lparr>ann_OriginTimestamp := NewTimestamp transmitted\<rparr>\<rparr>\<rparr>)"

definition initDelayResp :: "Config \<Rightarrow> SubscriptionClient \<Rightarrow> SubscriptionClient" where
  "initDelayResp c sc = sc\<lparr>sc_delayRespP :=
     \<lparr>dresp_Header =
        \<lparr>SdoIDAndMsgType = NewSdoIDAndMsgType MessageDelayResp 0, Version = Version_const,
         MessageLength = word_of_nat (headerSize + 20), DomainNumber = domain_byte c,
         MinorSdoID = 0, FlagField = FlagUnicast, CorrectionField = 0,
         MessageTypeSpecific = 0, SourcePortIdentity = PortIdentity (cfg_clockIdentity c) 1,
         SequenceID = 0, ControlField = 3, LogMessageInterval = 0x7f\<rparr>,
      dresp_Body =
        \<lparr>ReceiveTimestamp = zero_timestamp, RequestingPortIdentity = PortIdentity 0 0\<rparr>\<rparr>\<rparr>"

definition UpdateDelayResp :: "Header \<Rightarrow> time \<Rightarrow> SubscriptionClient \<Rightarrow> SubscriptionClient" where
  "UpdateDelayResp h received sc = sc\<lparr>sc_delayRespP := (sc_delayRespP sc)\<lparr>
     dresp_Header := (dresp_Header (sc_delayRespP sc))\<lparr>
       SequenceID := SequenceID h, CorrectionField := CorrectionField h\<rparr>,
     dresp_Body := \<lparr>ReceiveTimestamp = NewTimestamp received,
       RequestingPortIdentity = SourcePortIdentity h\<rparr>\<rparr>\<rparr>"

text \<open>The sizes \<^verbatim>\<open>binary.Size\<close> gives for a grant and a cancel TLV.\<close>

abbreviation grantSize :: nat where "grantSize \<equiv> 12"
abbreviation cancelSize :: nat where "cancelSize \<equiv> 6"

definition initSignaling :: "Config \<Rightarrow> SubscriptionClient \<Rightarrow> SubscriptionClient" where
  "initSignaling c sc = sc\<lparr>sc_signaling :=
     \<lparr>sig_Header =
        \<lparr>SdoIDAndMsgType = 0, Version = Version_const,
         MessageLength = word_of_nat (headerSize + 10 + grantSize), DomainNumber = 0,
         MinorSdoID = 0, FlagField = FlagUnicast, CorrectionField = 0,
         MessageTypeSpecific = 0, SourcePortIdentity = PortIdentity (cfg_clockIdentity c) 1,
         SequenceID = 0, ControlField = 0, LogMessageInterval = 0\<rparr>,
      TargetPortIdentity = PortIdentity 0 0, sig_TLVs = []\<rparr>\<rparr>"

definition UpdateSignalingGrant ::
  "Signaling \<Rightarrow> u8 \<Rightarrow> u8 \<Rightarrow> u32 \<Rightarrow> SubscriptionClient \<Rightarrow> SubscriptionClient" where
  "UpdateSignalingGrant sg mt i duration sc =
     (let s = sc_signaling sc; h = sig_Header sg in
      sc\<lparr>sc_signaling := s\<lparr>
        sig_Header := (sig_Header s)\<lparr>
          MessageLength := word_of_nat (headerSize + 10 + grantSize),
          SdoIDAndMsgType := SdoIDAndMsgType h,
          DomainNumber := DomainNumber h,
          MinorSdoID := MinorSdoID h,
          CorrectionField := CorrectionField h,
          MessageTypeSpecific := MessageTypeSpecific h,
          SequenceID := SequenceID h,
          ControlField := ControlField h,
          LogMessageInterval := LogMessageInterval h\<rparr>,
        TargetPortIdentity := SourcePortIdentity h,
        sig_TLVs := [GrantUnicastTransmissionTLV
          \<lparr>grant_Head = \<lparr>TLVType = TLVGrantUnicastTransmission,
             LengthField = word_of_nat (grantSize - tlvHeadSize)\<rparr>,
           grant_MsgTypeAndReserved = mt, grant_LogInterMessagePeriod = i,
           grant_DurationField = duration, grant_Reserved = 0, grant_Renewal = 1\<rparr>]\<rparr>\<rparr>)"

definition UpdateSignalingCancel :: "SubscriptionClient \<Rightarrow> SubscriptionClient" where
  "UpdateSignalingCancel sc =
     (let s = sc_signaling sc in
      sc\<lparr>sc_signaling := s\<lparr>
        sig_Header := (sig_Header s)\<lparr>MessageLength := word_of_nat (headerSize + 10 + cancelSize)\<rparr>,
        sig_TLVs := [CancelUnicastTransmissionTLV
          \<lparr>cancel_Head = \<lparr>TLVType = TLVCancelUnicastTransmission,
             LengthField = word_of_nat (cancelSize - tlvHeadSize)\<rparr>,
           cancel_MsgTypeAndFlags = NewUnicastMsgTypeAndFlags (sc_subscriptionType sc) 0,
           cancel_Reserved = 0\<rparr>]\<rparr>\<rparr>)"

subsection \<open>Life cycle\<close>

definition zero_SubscriptionClient :: SubscriptionClient where
  "zero_SubscriptionClient =
     \<lparr>sc_worker = 0, sc_subscriptionType = 0, sc_interval = 0, sc_expire = zero_time,
      sc_sequenceID = 0, sc_running = False, sc_stop = [], sc_runningInterval = 0,
      sc_intervalTicker = None, sc_eclisa = SockaddrNil, sc_gclisa = SockaddrNil,
      sc_syncP = zero_SyncDelayReq, sc_followupP = zero_FollowUp, sc_announceP = zero_Announce,
      sc_delayRespP = zero_DelayResp, sc_signaling = zero_Signaling\<rparr>"

definition NewSubscriptionClient ::
  "nat \<Rightarrow> Sockaddr \<Rightarrow> Sockaddr \<Rightarrow> u8 \<Rightarrow> Config \<Rightarrow> duration \<Rightarrow> time \<Rightarrow> time \<Rightarrow> SubscriptionClient" where
  "NewSubscriptionClient w eclisa gclisa st c i e now =
     (let s = zero_SubscriptionClient\<lparr>sc_eclisa := eclisa, sc_gclisa := gclisa,
                sc_subscriptionType := st, sc_interval := i, sc_expire := e, sc_worker := w\<rparr>;
          s = initSync c s;
          s = initFollowup c now s;
          s = initAnnounce c s;
          s = initDelayResp c s;
          s = initSignaling c s
      in s)"

definition Expired :: "time \<Rightarrow> SubscriptionClient \<Rightarrow> bool" where
  "Expired now sc \<longleftrightarrow> sc_expire sc < now"

text \<open>
  \<^verbatim>\<open>Stop\<close> sends on a channel with room for one value while holding the lock; the send waits
  when an earlier stop has not been received yet.
\<close>

definition Stop :: "time \<Rightarrow> SubscriptionClient \<Rightarrow> SubscriptionClient outcome" where
  "Stop now sc =
     (let sc = sc\<lparr>sc_expire := now\<rparr> in
      if sc_running sc then
        if length (sc_stop sc) < 1 then Done (sc\<lparr>sc_stop := sc_stop sc @ [True]\<rparr>) else Hang sc
      else Done sc)"

definition setRunning :: "bool \<Rightarrow> SubscriptionClient \<Rightarrow> SubscriptionClient" where
  "setRunning r sc = sc\<lparr>sc_running := r\<rparr>"

definition SetExpire :: "time \<Rightarrow> SubscriptionClient \<Rightarrow> SubscriptionClient" where
  "SetExpire e sc = sc\<lparr>sc_expire := e\<rparr>"

definition SetInterval :: "duration \<Rightarrow> SubscriptionClient \<Rightarrow> SubscriptionClient" where
  "SetInterval i sc = sc\<lparr>sc_interval := i\<rparr>"

definition SetGclisa :: "Sockaddr \<Rightarrow> SubscriptionClient \<Rightarrow> SubscriptionClient" where
  "SetGclisa sa sc = sc\<lparr>sc_gclisa := sa\<rparr>"

definition IncSequenceID :: "SubscriptionClient \<Rightarrow> SubscriptionClient" where
  "IncSequenceID sc = sc\<lparr>sc_sequenceID := sc_sequenceID sc + 1\<rparr>"

subsection \<open>The timer loop\<close>

text \<open>
  \<^verbatim>\<open>Once\<close> and \<^verbatim>\<open>OnceSignaling\<close> put the client on one of its worker's channels; the loop
  returns which, in order. The types that are answered on demand, \<^verbatim>\<open>DelayResp\<close> and
  \<^verbatim>\<open>DelayReq\<close>, are not queued by the timer.
\<close>

datatype enqueue = ToQueue | ToSignalingQueue

definition periodic :: "u8 \<Rightarrow> bool" where
  "periodic t \<longleftrightarrow> t \<noteq> MessageDelayResp \<and> t \<noteq> MessageDelayReq"

definition timer_sends :: "SubscriptionClient \<Rightarrow> enqueue list" where
  "timer_sends sc = (if periodic (sc_subscriptionType sc) then [ToQueue] else [])"

text \<open>\<^verbatim>\<open>time.NewTicker\<close> and \<^verbatim>\<open>Ticker.Reset\<close> panic unless the period is positive.\<close>

definition Start_begin :: "SubscriptionClient \<Rightarrow> (SubscriptionClient \<times> enqueue list) outcome" where
  "Start_begin sc =
     (let sc = setRunning True sc;
          q = timer_sends sc;
          sc = sc\<lparr>sc_runningInterval := sc_interval sc\<rparr>
      in if sc_runningInterval sc \<le> 0 then Crash
         else Done (sc\<lparr>sc_intervalTicker := Some (sc_runningInterval sc)\<rparr>, q))"

text \<open>The deferred calls, last first.\<close>

definition Start_exit :: "SubscriptionClient \<Rightarrow> SubscriptionClient \<times> enqueue list" where
  "Start_exit sc =
     (let sc = setRunning False sc;
          sc = sc\<lparr>sc_intervalTicker := None\<rparr>
      in if sc_subscriptionType sc \<noteq> MessageDelayReq
         then (UpdateSignalingCancel sc, [ToSignalingQueue]) else (sc, []))"

text \<open>A tick: the flag says whether the loop goes on.\<close>

definition Start_tick ::
  "time \<Rightarrow> SubscriptionClient \<Rightarrow> ((SubscriptionClient \<times> enqueue list) \<times> bool) outcome" where
  "Start_tick now sc =
     (if Expired now sc then Done (Start_exit sc, False)
      else if sc_runningInterval sc \<noteq> sc_interval sc then
        (let sc = sc\<lparr>sc_runningInterval := sc_interval sc\<rparr> in
         if sc_runningInterval sc \<le> 0 then Crash
         else (let sc = sc\<lparr>sc_intervalTicker := Some (sc_runningInterval sc)\<rparr>
               in Done ((sc, timer_sends sc), True)))
      else Done ((sc, timer_sends sc), True))"

subsection \<open>Well-formed clients\<close>

text \<open>
  The message type, length and TLVs of the packets a client sends. The signaling packet has no TLV
  until the first grant, and can be sent from then on.
\<close>

definition granted :: "SubscriptionClient \<Rightarrow> bool" where
  "granted sc \<longleftrightarrow> sig_TLVs (sc_signaling sc) \<noteq> []"

definition wf_signaling :: "Signaling \<Rightarrow> bool" where
  "wf_signaling s \<longleftrightarrow> Header_MessageType (sig_Header s) = MessageSignaling
     \<and> ((\<exists>g. sig_TLVs s = [GrantUnicastTransmissionTLV g]
            \<and> grant_Head g = \<lparr>TLVType = TLVGrantUnicastTransmission, LengthField = 8\<rparr>
            \<and> MessageLength (sig_Header s) = 56)
        \<or> (\<exists>c. sig_TLVs s = [CancelUnicastTransmissionTLV c]
            \<and> cancel_Head c = \<lparr>TLVType = TLVCancelUnicastTransmission, LengthField = 2\<rparr>
            \<and> MessageLength (sig_Header s) = 50))"

definition wf_client :: "SubscriptionClient \<Rightarrow> bool" where
  "wf_client sc \<longleftrightarrow>
     Header_MessageType (sync_Header (sc_syncP sc)) = MessageSync
     \<and> MessageLength (sync_Header (sc_syncP sc)) = 44 \<and> sync_TLVs (sc_syncP sc) = []
     \<and> Header_MessageType (fup_Header (sc_followupP sc)) = MessageFollowUp
     \<and> MessageLength (fup_Header (sc_followupP sc)) = 44
     \<and> Header_MessageType (ann_Header (sc_announceP sc)) = MessageAnnounce
     \<and> MessageLength (ann_Header (sc_announceP sc)) = 64 \<and> ann_TLVs (sc_announceP sc) = []
     \<and> Header_MessageType (dresp_Header (sc_delayRespP sc)) = MessageDelayResp
     \<and> MessageLength (dresp_Header (sc_delayRespP sc)) = 54
     \<and> (granted sc \<longrightarrow> wf_signaling (sc_signaling sc))"

lemmas packet_updates = UpdateSync_def UpdateSyncDelayReq_def UpdateFollowup_def UpdateAnnounce_def
  UpdateAnnounceDelayReq_def UpdateAnnounceFollowUp_def UpdateDelayResp_def set_quality_def

lemmas packet_inits = initSync_def initFollowup_def initAnnounce_def initDelayResp_def initSignaling_def

lemma wf_client_updates [simp]:
  "wf_client (UpdateSync sc) = wf_client sc"
  "wf_client (UpdateSyncDelayReq t q sc) = wf_client sc"
  "wf_client (UpdateFollowup l t sc) = wf_client sc"
  "wf_client (UpdateAnnounce l c sc) = wf_client sc"
  "wf_client (UpdateAnnounceDelayReq c cf q sc) = wf_client sc"
  "wf_client (UpdateAnnounceFollowUp t sc) = wf_client sc"
  "wf_client (UpdateDelayResp h t sc) = wf_client sc"
  by (simp_all add: wf_client_def granted_def packet_updates Let_def Header_MessageType_def)

lemma wf_client_fields [simp]:
  "wf_client (sc\<lparr>sc_expire := e\<rparr>) = wf_client sc"
  "wf_client (sc\<lparr>sc_interval := i\<rparr>) = wf_client sc"
  "wf_client (sc\<lparr>sc_sequenceID := q\<rparr>) = wf_client sc"
  "wf_client (sc\<lparr>sc_running := r\<rparr>) = wf_client sc"
  "wf_client (sc\<lparr>sc_stop := st\<rparr>) = wf_client sc"
  "wf_client (sc\<lparr>sc_runningInterval := i\<rparr>) = wf_client sc"
  "wf_client (sc\<lparr>sc_intervalTicker := ti\<rparr>) = wf_client sc"
  "wf_client (sc\<lparr>sc_eclisa := sa\<rparr>) = wf_client sc"
  "wf_client (sc\<lparr>sc_gclisa := sa\<rparr>) = wf_client sc"
  by (simp_all add: wf_client_def granted_def)

lemma granted_updates [simp]:
  "granted (UpdateSync sc) = granted sc"
  "granted (UpdateSyncDelayReq t q sc) = granted sc"
  "granted (UpdateFollowup l t sc) = granted sc"
  "granted (UpdateAnnounce l c sc) = granted sc"
  "granted (UpdateAnnounceDelayReq c cf q sc) = granted sc"
  "granted (UpdateAnnounceFollowUp t sc) = granted sc"
  "granted (UpdateDelayResp h t sc) = granted sc"
  "granted (UpdateSignalingGrant sg mt i d sc)"
  "granted (UpdateSignalingCancel sc)"
  by (simp_all add: granted_def packet_updates Let_def UpdateSignalingGrant_def UpdateSignalingCancel_def)

lemma granted_fields [simp]:
  "granted (sc\<lparr>sc_expire := e\<rparr>) = granted sc"
  "granted (sc\<lparr>sc_interval := i\<rparr>) = granted sc"
  "granted (sc\<lparr>sc_sequenceID := q\<rparr>) = granted sc"
  "granted (sc\<lparr>sc_running := r\<rparr>) = granted sc"
  "granted (sc\<lparr>sc_stop := st\<rparr>) = granted sc"
  "granted (sc\<lparr>sc_runningInterval := i\<rparr>) = granted sc"
  "granted (sc\<lparr>sc_intervalTicker := ti\<rparr>) = granted sc"
  "granted (sc\<lparr>sc_eclisa := sa\<rparr>) = granted sc"
  "granted (sc\<lparr>sc_gclisa := sa\<rparr>) = granted sc"
  by (simp_all add: granted_def)

lemma wf_client_grant:
  "wf_client sc \<Longrightarrow> Header_MessageType (sig_Header sg) = MessageSignaling
     \<Longrightarrow> wf_client (UpdateSignalingGrant sg mt i d sc)"
  by (simp add: wf_client_def granted_def wf_signaling_def UpdateSignalingGrant_def Let_def
    Header_MessageType_def)

lemma wf_client_cancel: "wf_client sc \<Longrightarrow> granted sc \<Longrightarrow> wf_client (UpdateSignalingCancel sc)"
  by (auto simp: wf_client_def granted_def wf_signaling_def UpdateSignalingCancel_def Let_def
    Header_MessageType_def)

lemma wf_client_new: "wf_client (NewSubscriptionClient w e g st c i ex now)"
  by (simp add: NewSubscriptionClient_def Let_def packet_inits wf_client_def granted_def
    Header_MessageType_def NewSdoIDAndMsgType_def SdoID_MsgType_def)

lemma new_client [simp]:
  "sc_worker (NewSubscriptionClient w e g st c i ex now) = w"
  "sc_subscriptionType (NewSubscriptionClient w e g st c i ex now) = st"
  "sc_interval (NewSubscriptionClient w e g st c i ex now) = i"
  "sc_expire (NewSubscriptionClient w e g st c i ex now) = ex"
  "sc_running (NewSubscriptionClient w e g st c i ex now) = False"
  "sc_stop (NewSubscriptionClient w e g st c i ex now) = []"
  "sc_eclisa (NewSubscriptionClient w e g st c i ex now) = e"
  "sc_gclisa (NewSubscriptionClient w e g st c i ex now) = g"
  "sc_sequenceID (NewSubscriptionClient w e g st c i ex now) = 0"
  by (simp_all add: NewSubscriptionClient_def Let_def packet_inits zero_SubscriptionClient_def)

lemmas signaling_updates = UpdateSignalingGrant_def UpdateSignalingCancel_def

lemma update_frame [simp]:
  "sc_worker (UpdateSync sc) = sc_worker sc" "sc_subscriptionType (UpdateSync sc) = sc_subscriptionType sc"
  "sc_worker (UpdateFollowup l t sc) = sc_worker sc" "sc_subscriptionType (UpdateFollowup l t sc) = sc_subscriptionType sc"
  "sc_worker (UpdateAnnounce l c sc) = sc_worker sc" "sc_subscriptionType (UpdateAnnounce l c sc) = sc_subscriptionType sc"
  "sc_worker (UpdateAnnounceFollowUp t sc) = sc_worker sc" "sc_subscriptionType (UpdateAnnounceFollowUp t sc) = sc_subscriptionType sc"
  "sc_worker (UpdateSyncDelayReq t q sc) = sc_worker sc" "sc_subscriptionType (UpdateSyncDelayReq t q sc) = sc_subscriptionType sc"
  "sc_worker (UpdateAnnounceDelayReq c cf q sc) = sc_worker sc" "sc_subscriptionType (UpdateAnnounceDelayReq c cf q sc) = sc_subscriptionType sc"
  "sc_worker (UpdateDelayResp h t sc) = sc_worker sc" "sc_subscriptionType (UpdateDelayResp h t sc) = sc_subscriptionType sc"
  "sc_worker (UpdateSignalingGrant sg mt i d sc) = sc_worker sc" "sc_subscriptionType (UpdateSignalingGrant sg mt i d sc) = sc_subscriptionType sc"
  "sc_worker (UpdateSignalingCancel sc) = sc_worker sc" "sc_subscriptionType (UpdateSignalingCancel sc) = sc_subscriptionType sc"
  by (simp_all add: packet_updates signaling_updates Let_def)

subsection \<open>The packets of a well-formed client\<close>

lemma packet_bytes_length:
  "sync_TLVs p1 = [] \<Longrightarrow> length (packet_bytes (PSyncDelayReq p1)) = 44"
  "length (packet_bytes (PFollowUp p2)) = 44"
  "ann_TLVs p3 = [] \<Longrightarrow> length (packet_bytes (PAnnounce p3)) = 64"
  "length (packet_bytes (PDelayResp p4)) = 54"
  by (simp_all add: packet_bytes_def)

lemma wf_signaling_packet:
  "wf_signaling s \<Longrightarrow> wf_packet (PSignaling s) \<and> length (packet_bytes (PSignaling s)) \<le> 56"
  by (auto simp: wf_signaling_def wf_packet_def packet_bytes_def)

definition sendable :: "Packet \<Rightarrow> bool" where
  "sendable p \<longleftrightarrow> wf_packet p \<and> length (packet_bytes p) \<le> 64"

lemma wf_client_sendable:
  assumes "wf_client sc"
  shows "sendable (PSyncDelayReq (sc_syncP sc))" "sendable (PFollowUp (sc_followupP sc))"
    "sendable (PAnnounce (sc_announceP sc))" "sendable (PDelayResp (sc_delayRespP sc))"
    "granted sc \<Longrightarrow> sendable (PSignaling (sc_signaling sc))"
  using assms wf_signaling_packet [of "sc_signaling sc"]
  by (auto simp: sendable_def wf_client_def wf_packet_def packet_bytes_length)

end
