(* ===== verification/Ptp_Stats.thy ===== *)
theory Ptp_Stats
  imports Ptp_Types "HOL-Library.AList" "HOL-Library.Multiset"
begin

section \<open>Metrics (\<^verbatim>\<open>src/stats/stats.go\<close>, \<^verbatim>\<open>src/stats/json.go\<close>)\<close>

text \<open>
  The counter maps, the counters record, the JSON reporter with its live and reported counters, and
  the metric export. A Go map is an association list with distinct keys, built by
  \<^verbatim>\<open>init\<close>; the order in which \<^verbatim>\<open>range\<close> visits it is the runtime's choice and is the
  argument \<open>ord\<close>, any function that permutes a list of keys. Every operation holds the
  map's mutex, so a run of several goroutines is a sequence of operations. Values are
  \<^verbatim>\<open>int64\<close> and wrap.
\<close>

subsection \<open>The counter map\<close>

record syncMapInt64 =
  sm_m :: "(int \<times> int) list"

type_synonym range_order = "int list \<Rightarrow> int list"

definition sm_init :: "syncMapInt64 \<Rightarrow> syncMapInt64" where
  "sm_init s = s\<lparr>sm_m := []\<rparr>"

definition sm_keys :: "range_order \<Rightarrow> syncMapInt64 \<Rightarrow> int list" where
  "sm_keys ord s = ord (map fst (sm_m s))"

definition sm_load :: "syncMapInt64 \<Rightarrow> int \<Rightarrow> int" where
  "sm_load s key = (case map_of (sm_m s) key of Some v \<Rightarrow> v | None \<Rightarrow> 0)"

definition sm_store :: "syncMapInt64 \<Rightarrow> int \<Rightarrow> int \<Rightarrow> syncMapInt64" where
  "sm_store s key value = s\<lparr>sm_m := AList.update key value (sm_m s)\<rparr>"

definition sm_inc :: "syncMapInt64 \<Rightarrow> int \<Rightarrow> syncMapInt64" where
  "sm_inc s key = s\<lparr>sm_m := AList.update key (wrap64 (sm_load s key + 1)) (sm_m s)\<rparr>"

definition sm_dec :: "syncMapInt64 \<Rightarrow> int \<Rightarrow> syncMapInt64" where
  "sm_dec s key = s\<lparr>sm_m := AList.update key (wrap64 (sm_load s key - 1)) (sm_m s)\<rparr>"

definition sm_copy :: "range_order \<Rightarrow> syncMapInt64 \<Rightarrow> syncMapInt64 \<Rightarrow> syncMapInt64" where
  "sm_copy ord s dst = fold (\<lambda>t dst. sm_store dst t (sm_load s t)) (sm_keys ord s) dst"

definition sm_reset :: "syncMapInt64 \<Rightarrow> syncMapInt64" where
  "sm_reset s = s\<lparr>sm_m := map (\<lambda>(t, v). (t, 0)) (sm_m s)\<rparr>"

subsection \<open>Counters\<close>

record counters =
  rx :: syncMapInt64
  rxSignalingGrant :: syncMapInt64
  rxSignalingCancel :: syncMapInt64
  subscriptions :: syncMapInt64
  tx :: syncMapInt64
  txSignalingGrant :: syncMapInt64
  txSignalingCancel :: syncMapInt64
  txtsattempts :: syncMapInt64
  workerQueue :: syncMapInt64
  workerSubs :: syncMapInt64
  utcoffsetSec :: int
  clockaccuracy :: int
  clockclass :: int
  ctr_drain :: int
  reload :: int
  txtsMissing :: int

definition counters_init :: "counters \<Rightarrow> counters" where
  "counters_init c = c\<lparr>
     subscriptions := sm_init (subscriptions c),
     rx := sm_init (rx c),
     tx := sm_init (tx c),
     rxSignalingGrant := sm_init (rxSignalingGrant c),
     rxSignalingCancel := sm_init (rxSignalingCancel c),
     txSignalingGrant := sm_init (txSignalingGrant c),
     txSignalingCancel := sm_init (txSignalingCancel c),
     workerQueue := sm_init (workerQueue c),
     workerSubs := sm_init (workerSubs c),
     txtsattempts := sm_init (txtsattempts c)\<rparr>"

definition counters_reset :: "counters \<Rightarrow> counters" where
  "counters_reset c = c\<lparr>
     subscriptions := sm_reset (subscriptions c),
     rx := sm_reset (rx c),
     tx := sm_reset (tx c),
     rxSignalingGrant := sm_reset (rxSignalingGrant c),
     rxSignalingCancel := sm_reset (rxSignalingCancel c),
     txSignalingGrant := sm_reset (txSignalingGrant c),
     txSignalingCancel := sm_reset (txSignalingCancel c),
     workerQueue := sm_reset (workerQueue c),
     workerSubs := sm_reset (workerSubs c),
     txtsattempts := sm_reset (txtsattempts c),
     utcoffsetSec := 0, clockaccuracy := 0, clockclass := 0, ctr_drain := 0, reload := 0,
     txtsMissing := 0\<rparr>"

text \<open>
  The names of the exported metrics: \<^verbatim>\<open>strings.ToLower\<close> on the ASCII names of the message
  types (the empty string for a type that has none) and \<^verbatim>\<open>%d\<close> on worker numbers.
\<close>

definition ascii_lower :: "char \<Rightarrow> char" where
  "ascii_lower c = (let n = of_char c :: nat in if 65 \<le> n \<and> n \<le> 90 then char_of (n + 32) else c)"

definition ToLower :: "string \<Rightarrow> string" where
  "ToLower s = map ascii_lower s"

definition type_name :: "int \<Rightarrow> string" where
  "type_name t = ToLower (MessageType_String (word_of_int t))"

definition export_types ::
  "range_order \<Rightarrow> string \<Rightarrow> syncMapInt64 \<Rightarrow> (string \<rightharpoonup> int) \<Rightarrow> string \<rightharpoonup> int" where
  "export_types ord prefix s res =
     fold (\<lambda>t res. res(prefix @ type_name t \<mapsto> sm_load s t)) (sm_keys ord s) res"

definition export_workers ::
  "range_order \<Rightarrow> string \<Rightarrow> syncMapInt64 \<Rightarrow> (string \<rightharpoonup> int) \<Rightarrow> string \<rightharpoonup> int" where
  "export_workers ord suffix s res =
     fold (\<lambda>t res. res(''worker.'' @ fmt_d t @ suffix \<mapsto> sm_load s t)) (sm_keys ord s) res"

definition toMap :: "range_order \<Rightarrow> counters \<Rightarrow> string \<rightharpoonup> int" where
  "toMap ord c =
     (let res = Map.empty;
          res = export_types ord ''subscriptions.'' (subscriptions c) res;
          res = export_types ord ''rx.'' (rx c) res;
          res = export_types ord ''tx.'' (tx c) res;
          res = export_types ord ''rx.signaling.grant.'' (rxSignalingGrant c) res;
          res = export_types ord ''rx.signaling.cancel.'' (rxSignalingCancel c) res;
          res = export_types ord ''tx.signaling.grant.'' (txSignalingGrant c) res;
          res = export_types ord ''tx.signaling.cancel.'' (txSignalingCancel c) res;
          res = export_workers ord ''.queue'' (workerQueue c) res;
          res = export_workers ord ''.subscriptions'' (workerSubs c) res;
          res = export_workers ord ''.txtsattempts'' (txtsattempts c) res;
          res = res(''utcoffset_sec'' \<mapsto> utcoffsetSec c);
          res = res(''clockaccuracy'' \<mapsto> clockaccuracy c);
          res = res(''clockclass'' \<mapsto> clockclass c);
          res = res(''drain'' \<mapsto> ctr_drain c);
          res = res(''reload'' \<mapsto> reload c);
          res = res(''txts.missing'' \<mapsto> txtsMissing c)
      in res)"

subsection \<open>The JSON reporter\<close>

text \<open>\<open>js_counters\<close> is the embedded \<^verbatim>\<open>counters\<close> of the Go structure.\<close>

record JSONStats =
  js_report :: counters
  js_counters :: counters

definition zero_counters :: counters where
  "zero_counters = (let z = \<lparr>sm_m = []\<rparr> in
     \<lparr>rx = z, rxSignalingGrant = z, rxSignalingCancel = z, subscriptions = z, tx = z,
      txSignalingGrant = z, txSignalingCancel = z, txtsattempts = z, workerQueue = z,
      workerSubs = z, utcoffsetSec = 0, clockaccuracy = 0, clockclass = 0, ctr_drain = 0,
      reload = 0, txtsMissing = 0\<rparr>)"

definition NewJSONStats :: JSONStats where
  "NewJSONStats =
     \<lparr>js_report = counters_init zero_counters, js_counters = counters_init zero_counters\<rparr>"

definition Snapshot :: "range_order \<Rightarrow> JSONStats \<Rightarrow> JSONStats" where
  "Snapshot ord s = (let c = js_counters s; r = js_report s in s\<lparr>js_report := r\<lparr>
     subscriptions := sm_copy ord (subscriptions c) (subscriptions r),
     rx := sm_copy ord (rx c) (rx r),
     tx := sm_copy ord (tx c) (tx r),
     rxSignalingGrant := sm_copy ord (rxSignalingGrant c) (rxSignalingGrant r),
     rxSignalingCancel := sm_copy ord (rxSignalingCancel c) (rxSignalingCancel r),
     txSignalingGrant := sm_copy ord (txSignalingGrant c) (txSignalingGrant r),
     txSignalingCancel := sm_copy ord (txSignalingCancel c) (txSignalingCancel r),
     workerQueue := sm_copy ord (workerQueue c) (workerQueue r),
     workerSubs := sm_copy ord (workerSubs c) (workerSubs r),
     txtsattempts := sm_copy ord (txtsattempts c) (txtsattempts r),
     utcoffsetSec := utcoffsetSec c,
     clockaccuracy := clockaccuracy c,
     clockclass := clockclass c,
     ctr_drain := ctr_drain c,
     reload := reload c,
     txtsMissing := txtsMissing c\<rparr>\<rparr>)"

definition Stats_Reset :: "JSONStats \<Rightarrow> JSONStats" where
  "Stats_Reset s = s\<lparr>js_counters := counters_reset (js_counters s)\<rparr>"

text \<open>The reply of \<^verbatim>\<open>handleRequest\<close>; \<open>marshal\<close> is \<^verbatim>\<open>json.Marshal\<close>.\<close>

datatype http_reply = HTTPError string | JSONReply string

definition handleRequest ::
  "((string \<rightharpoonup> int) \<Rightarrow> string + string) \<Rightarrow> range_order \<Rightarrow> JSONStats \<Rightarrow> http_reply" where
  "handleRequest marshal ord s =
     (case marshal (toMap ord (js_report s)) of
        Inl err \<Rightarrow> HTTPError err
      | Inr js \<Rightarrow> JSONReply js)"

definition IncSubscription :: "u8 \<Rightarrow> JSONStats \<Rightarrow> JSONStats" where
  "IncSubscription t s = s\<lparr>js_counters := (js_counters s)\<lparr>
     subscriptions := sm_inc (subscriptions (js_counters s)) (uint t)\<rparr>\<rparr>"

definition IncRX :: "u8 \<Rightarrow> JSONStats \<Rightarrow> JSONStats" where
  "IncRX t s = s\<lparr>js_counters := (js_counters s)\<lparr>
     rx := sm_inc (rx (js_counters s)) (uint t)\<rparr>\<rparr>"

definition IncTX :: "u8 \<Rightarrow> JSONStats \<Rightarrow> JSONStats" where
  "IncTX t s = s\<lparr>js_counters := (js_counters s)\<lparr>
     tx := sm_inc (tx (js_counters s)) (uint t)\<rparr>\<rparr>"

definition IncRXSignalingGrant :: "u8 \<Rightarrow> JSONStats \<Rightarrow> JSONStats" where
  "IncRXSignalingGrant t s = s\<lparr>js_counters := (js_counters s)\<lparr>
     rxSignalingGrant := sm_inc (rxSignalingGrant (js_counters s)) (uint t)\<rparr>\<rparr>"

definition IncRXSignalingCancel :: "u8 \<Rightarrow> JSONStats \<Rightarrow> JSONStats" where
  "IncRXSignalingCancel t s = s\<lparr>js_counters := (js_counters s)\<lparr>
     rxSignalingCancel := sm_inc (rxSignalingCancel (js_counters s)) (uint t)\<rparr>\<rparr>"

definition IncTXSignalingGrant :: "u8 \<Rightarrow> JSONStats \<Rightarrow> JSONStats" where
  "IncTXSignalingGrant t s = s\<lparr>js_counters := (js_counters s)\<lparr>
     txSignalingGrant := sm_inc (txSignalingGrant (js_counters s)) (uint t)\<rparr>\<rparr>"

definition IncTXSignalingCancel :: "u8 \<Rightarrow> JSONStats \<Rightarrow> JSONStats" where
  "IncTXSignalingCancel t s = s\<lparr>js_counters := (js_counters s)\<lparr>
     txSignalingCancel := sm_inc (txSignalingCancel (js_counters s)) (uint t)\<rparr>\<rparr>"

definition IncWorkerSubs :: "int \<Rightarrow> JSONStats \<Rightarrow> JSONStats" where
  "IncWorkerSubs workerid s = s\<lparr>js_counters := (js_counters s)\<lparr>
     workerSubs := sm_inc (workerSubs (js_counters s)) workerid\<rparr>\<rparr>"

definition IncReload :: "JSONStats \<Rightarrow> JSONStats" where
  "IncReload s = s\<lparr>js_counters := (js_counters s)\<lparr>reload := 1\<rparr>\<rparr>"

definition DecSubscription :: "u8 \<Rightarrow> JSONStats \<Rightarrow> JSONStats" where
  "DecSubscription t s = s\<lparr>js_counters := (js_counters s)\<lparr>
     subscriptions := sm_dec (subscriptions (js_counters s)) (uint t)\<rparr>\<rparr>"

definition DecRX :: "u8 \<Rightarrow> JSONStats \<Rightarrow> JSONStats" where
  "DecRX t s = s\<lparr>js_counters := (js_counters s)\<lparr>
     rx := sm_dec (rx (js_counters s)) (uint t)\<rparr>\<rparr>"

definition DecTX :: "u8 \<Rightarrow> JSONStats \<Rightarrow> JSONStats" where
  "DecTX t s = s\<lparr>js_counters := (js_counters s)\<lparr>
     tx := sm_dec (tx (js_counters s)) (uint t)\<rparr>\<rparr>"

definition DecRXSignalingGrant :: "u8 \<Rightarrow> JSONStats \<Rightarrow> JSONStats" where
  "DecRXSignalingGrant t s = s\<lparr>js_counters := (js_counters s)\<lparr>
     rxSignalingGrant := sm_dec (rxSignalingGrant (js_counters s)) (uint t)\<rparr>\<rparr>"

definition DecRXSignalingCancel :: "u8 \<Rightarrow> JSONStats \<Rightarrow> JSONStats" where
  "DecRXSignalingCancel t s = s\<lparr>js_counters := (js_counters s)\<lparr>
     rxSignalingCancel := sm_dec (rxSignalingCancel (js_counters s)) (uint t)\<rparr>\<rparr>"

definition DecTXSignalingGrant :: "u8 \<Rightarrow> JSONStats \<Rightarrow> JSONStats" where
  "DecTXSignalingGrant t s = s\<lparr>js_counters := (js_counters s)\<lparr>
     txSignalingGrant := sm_dec (txSignalingGrant (js_counters s)) (uint t)\<rparr>\<rparr>"

definition DecTXSignalingCancel :: "u8 \<Rightarrow> JSONStats \<Rightarrow> JSONStats" where
  "DecTXSignalingCancel t s = s\<lparr>js_counters := (js_counters s)\<lparr>
     txSignalingCancel := sm_dec (txSignalingCancel (js_counters s)) (uint t)\<rparr>\<rparr>"

definition DecWorkerSubs :: "int \<Rightarrow> JSONStats \<Rightarrow> JSONStats" where
  "DecWorkerSubs workerid s = s\<lparr>js_counters := (js_counters s)\<lparr>
     workerSubs := sm_dec (workerSubs (js_counters s)) workerid\<rparr>\<rparr>"

definition SetMaxWorkerQueue :: "int \<Rightarrow> int \<Rightarrow> JSONStats \<Rightarrow> JSONStats" where
  "SetMaxWorkerQueue workerid queue s =
     (if queue > sm_load (workerQueue (js_counters s)) workerid
      then s\<lparr>js_counters := (js_counters s)\<lparr>
        workerQueue := sm_store (workerQueue (js_counters s)) workerid queue\<rparr>\<rparr>
      else s)"

definition SetMaxTXTSAttempts :: "int \<Rightarrow> int \<Rightarrow> JSONStats \<Rightarrow> JSONStats" where
  "SetMaxTXTSAttempts workerid attempts s =
     (if attempts > sm_load (txtsattempts (js_counters s)) workerid
      then s\<lparr>js_counters := (js_counters s)\<lparr>
        txtsattempts := sm_store (txtsattempts (js_counters s)) workerid attempts\<rparr>\<rparr>
      else s)"

definition IncTXTSMissing :: "JSONStats \<Rightarrow> JSONStats" where
  "IncTXTSMissing s = s\<lparr>js_counters := (js_counters s)\<lparr>txtsMissing := 1\<rparr>\<rparr>"

definition SetUTCOffsetSec :: "int \<Rightarrow> JSONStats \<Rightarrow> JSONStats" where
  "SetUTCOffsetSec v s = s\<lparr>js_counters := (js_counters s)\<lparr>utcoffsetSec := v\<rparr>\<rparr>"

definition SetClockAccuracy :: "int \<Rightarrow> JSONStats \<Rightarrow> JSONStats" where
  "SetClockAccuracy v s = s\<lparr>js_counters := (js_counters s)\<lparr>clockaccuracy := v\<rparr>\<rparr>"

definition SetClockClass :: "int \<Rightarrow> JSONStats \<Rightarrow> JSONStats" where
  "SetClockClass v s = s\<lparr>js_counters := (js_counters s)\<lparr>clockclass := v\<rparr>\<rparr>"

definition SetDrain :: "int \<Rightarrow> JSONStats \<Rightarrow> JSONStats" where
  "SetDrain v s = s\<lparr>js_counters := (js_counters s)\<lparr>ctr_drain := v\<rparr>\<rparr>"

subsection \<open>The contract of a counter map\<close>

text \<open>
  What the reporter relies on: lookups after every operation and which keys an operation adds. A
  copy may visit the source's keys in any order.
\<close>

definition permutes_keys :: "range_order \<Rightarrow> bool" where
  "permutes_keys ord \<longleftrightarrow> (\<forall>ks. mset (ord ks) = mset ks)"

locale counter_map =
  fixes empty :: 'm
    and keys :: "'m \<Rightarrow> int set"
    and load :: "'m \<Rightarrow> int \<Rightarrow> int"
    and store :: "'m \<Rightarrow> int \<Rightarrow> int \<Rightarrow> 'm"
    and inc dec :: "'m \<Rightarrow> int \<Rightarrow> 'm"
    and copy :: "range_order \<Rightarrow> 'm \<Rightarrow> 'm \<Rightarrow> 'm"
    and reset :: "'m \<Rightarrow> 'm"
  assumes load_empty: "load empty k = 0"
    and keys_empty: "keys empty = {}"
    and load_store: "load (store s k v) k' = (if k' = k then v else load s k')"
    and keys_store: "keys (store s k v) = insert k (keys s)"
    and load_inc: "load (inc s k) k' = (if k' = k then wrap64 (load s k + 1) else load s k')"
    and keys_inc: "keys (inc s k) = insert k (keys s)"
    and load_dec: "load (dec s k) k' = (if k' = k then wrap64 (load s k - 1) else load s k')"
    and keys_dec: "keys (dec s k) = insert k (keys s)"
    and load_copy: "permutes_keys ord \<Longrightarrow>
      load (copy ord s d) k = (if k \<in> keys s then load s k else load d k)"
    and keys_copy: "permutes_keys ord \<Longrightarrow> keys (copy ord s d) = keys s \<union> keys d"
    and load_reset: "load (reset s) k = 0"
    and keys_reset: "keys (reset s) = keys s"
    and load_unset: "k \<notin> keys s \<Longrightarrow> load s k = 0"
begin

text \<open>A copy onto a map whose keys the source has is exact, keys and values.\<close>

lemma copy_exact:
  assumes "permutes_keys ord" and "keys d \<subseteq> keys s"
  shows "keys (copy ord s d) = keys s" and "load (copy ord s d) = load s"
proof -
  show "keys (copy ord s d) = keys s" using assms by (auto simp: keys_copy)
  show "load (copy ord s d) = load s"
  proof
    fix k
    show "load (copy ord s d) k = load s k"
      using assms load_unset [of k s] load_unset [of k d] by (auto simp: load_copy)
  qed
qed

text \<open>One unit up or down at a key changes that key by one, modulo the wrap-around.\<close>

lemma unit_step:
  assumes "int64_range (load s k)"
  shows "load (inc s k') k = wrap64 (load s k + (if k = k' then 1 else 0))"
    and "load (dec s k') k = wrap64 (load s k - (if k = k' then 1 else 0))"
  using assms by (simp_all add: load_inc load_dec)

text \<open>A high-water mark: keep the larger of the old and the new value.\<close>

definition store_max :: "'m \<Rightarrow> int \<Rightarrow> int \<Rightarrow> 'm" where
  "store_max s k v = (if v > load s k then store s k v else s)"

lemma load_store_max: "load (store_max s k v) k' = (if k' = k then max v (load s k) else load s k')"
  by (simp add: store_max_def load_store max_def)

end

subsection \<open>The counter map implements it\<close>

definition sm_dom :: "syncMapInt64 \<Rightarrow> int set" where
  "sm_dom s = fst ` set (sm_m s)"

lemma sm_load_store [simp]: "sm_load (sm_store s k v) k' = (if k' = k then v else sm_load s k')"
  by (simp add: sm_load_def sm_store_def update_conv)

lemma sm_dom_store [simp]: "sm_dom (sm_store s k v) = insert k (sm_dom s)"
  by (simp add: sm_dom_def sm_store_def dom_update)

lemma sm_inc_store: "sm_inc s k = sm_store s k (wrap64 (sm_load s k + 1))"
  by (simp add: sm_inc_def sm_store_def)

lemma sm_dec_store: "sm_dec s k = sm_store s k (wrap64 (sm_load s k - 1))"
  by (simp add: sm_dec_def sm_store_def)

lemma permutes_keys_set: "permutes_keys ord \<Longrightarrow> set (ord ks) = set ks"
  by (metis permutes_keys_def set_mset_mset)

lemma sm_keys_set: "permutes_keys ord \<Longrightarrow> set (sm_keys ord s) = sm_dom s"
  by (simp add: sm_keys_def sm_dom_def permutes_keys_set)

lemma fold_store_load:
  "sm_load (fold (\<lambda>t d. sm_store d t (f t)) ks d) k = (if k \<in> set ks then f k else sm_load d k)"
  by (induction ks arbitrary: d) auto

lemma fold_store_dom: "sm_dom (fold (\<lambda>t d. sm_store d t (f t)) ks d) = set ks \<union> sm_dom d"
  by (induction ks arbitrary: d) auto

lemma sm_load_reset: "sm_load (sm_reset s) k = 0"
proof -
  have "map_of (map (\<lambda>(t, v). (t, 0)) xs) k = Some v \<Longrightarrow> v = 0" for v :: int and xs :: "(int \<times> int) list"
    by (induction xs) (auto split: if_splits)
  then show ?thesis by (simp add: sm_load_def sm_reset_def split: option.split)
qed

lemma sm_load_unset: "k \<notin> sm_dom s \<Longrightarrow> sm_load s k = 0"
  by (simp add: sm_load_def sm_dom_def map_of_eq_None_iff [THEN iffD2])

interpretation smap: counter_map "\<lparr>sm_m = []\<rparr>" sm_dom sm_load sm_store sm_inc sm_dec sm_copy sm_reset
proof
  show "sm_dom (sm_reset s) = sm_dom s" for s by (force simp: sm_dom_def sm_reset_def)
qed (simp_all add: sm_inc_store sm_dec_store sm_copy_def fold_store_load fold_store_dom sm_keys_set
  sm_load_reset sm_load_unset sm_load_def [of "\<lparr>sm_m = []\<rparr>"] sm_dom_def [of "\<lparr>sm_m = []\<rparr>"])

subsection \<open>Runs of the reporter\<close>

text \<open>Every call the program makes on the reporter, and a run as the sequence of calls.\<close>

datatype stats_op =
    OpIncSubscription u8 | OpIncRX u8 | OpIncTX u8
  | OpIncRXSignalingGrant u8 | OpIncRXSignalingCancel u8
  | OpIncTXSignalingGrant u8 | OpIncTXSignalingCancel u8 | OpIncWorkerSubs int | OpIncReload
  | OpDecSubscription u8 | OpDecRX u8 | OpDecTX u8
  | OpDecRXSignalingGrant u8 | OpDecRXSignalingCancel u8
  | OpDecTXSignalingGrant u8 | OpDecTXSignalingCancel u8 | OpDecWorkerSubs int
  | OpSetMaxWorkerQueue int int | OpSetMaxTXTSAttempts int int | OpIncTXTSMissing
  | OpSetUTCOffsetSec int | OpSetClockAccuracy int | OpSetClockClass int | OpSetDrain int
  | OpSnapshot range_order | OpReset

fun apply_op :: "stats_op \<Rightarrow> JSONStats \<Rightarrow> JSONStats" where
  "apply_op (OpIncSubscription t) = IncSubscription t"
| "apply_op (OpIncRX t) = IncRX t"
| "apply_op (OpIncTX t) = IncTX t"
| "apply_op (OpIncRXSignalingGrant t) = IncRXSignalingGrant t"
| "apply_op (OpIncRXSignalingCancel t) = IncRXSignalingCancel t"
| "apply_op (OpIncTXSignalingGrant t) = IncTXSignalingGrant t"
| "apply_op (OpIncTXSignalingCancel t) = IncTXSignalingCancel t"
| "apply_op (OpIncWorkerSubs w) = IncWorkerSubs w"
| "apply_op OpIncReload = IncReload"
| "apply_op (OpDecSubscription t) = DecSubscription t"
| "apply_op (OpDecRX t) = DecRX t"
| "apply_op (OpDecTX t) = DecTX t"
| "apply_op (OpDecRXSignalingGrant t) = DecRXSignalingGrant t"
| "apply_op (OpDecRXSignalingCancel t) = DecRXSignalingCancel t"
| "apply_op (OpDecTXSignalingGrant t) = DecTXSignalingGrant t"
| "apply_op (OpDecTXSignalingCancel t) = DecTXSignalingCancel t"
| "apply_op (OpDecWorkerSubs w) = DecWorkerSubs w"
| "apply_op (OpSetMaxWorkerQueue w v) = SetMaxWorkerQueue w v"
| "apply_op (OpSetMaxTXTSAttempts w v) = SetMaxTXTSAttempts w v"
| "apply_op OpIncTXTSMissing = IncTXTSMissing"
| "apply_op (OpSetUTCOffsetSec v) = SetUTCOffsetSec v"
| "apply_op (OpSetClockAccuracy v) = SetClockAccuracy v"
| "apply_op (OpSetClockClass v) = SetClockClass v"
| "apply_op (OpSetDrain v) = SetDrain v"
| "apply_op (OpSnapshot ord) = Snapshot ord"
| "apply_op OpReset = Stats_Reset"

abbreviation run_stats :: "stats_op list \<Rightarrow> JSONStats \<Rightarrow> JSONStats" where
  "run_stats \<equiv> fold apply_op"

datatype family =
    FSubscriptions | FRX | FTX | FRXSignalingGrant | FRXSignalingCancel | FTXSignalingGrant
  | FTXSignalingCancel | FWorkerQueue | FWorkerSubs | FTXTSAttempts

fun sel :: "family \<Rightarrow> counters \<Rightarrow> syncMapInt64" where
  "sel FSubscriptions = subscriptions"
| "sel FRX = rx"
| "sel FTX = tx"
| "sel FRXSignalingGrant = rxSignalingGrant"
| "sel FRXSignalingCancel = rxSignalingCancel"
| "sel FTXSignalingGrant = txSignalingGrant"
| "sel FTXSignalingCancel = txSignalingCancel"
| "sel FWorkerQueue = workerQueue"
| "sel FWorkerSubs = workerSubs"
| "sel FTXTSAttempts = txtsattempts"

text \<open>The counter a call moves, and by how much; the change it makes to a given counter.\<close>

fun moves :: "stats_op \<Rightarrow> (family \<times> int \<times> int) option" where
  "moves (OpIncSubscription t) = Some (FSubscriptions, uint t, 1)"
| "moves (OpDecSubscription t) = Some (FSubscriptions, uint t, - 1)"
| "moves (OpIncRX t) = Some (FRX, uint t, 1)"
| "moves (OpDecRX t) = Some (FRX, uint t, - 1)"
| "moves (OpIncTX t) = Some (FTX, uint t, 1)"
| "moves (OpDecTX t) = Some (FTX, uint t, - 1)"
| "moves (OpIncRXSignalingGrant t) = Some (FRXSignalingGrant, uint t, 1)"
| "moves (OpDecRXSignalingGrant t) = Some (FRXSignalingGrant, uint t, - 1)"
| "moves (OpIncRXSignalingCancel t) = Some (FRXSignalingCancel, uint t, 1)"
| "moves (OpDecRXSignalingCancel t) = Some (FRXSignalingCancel, uint t, - 1)"
| "moves (OpIncTXSignalingGrant t) = Some (FTXSignalingGrant, uint t, 1)"
| "moves (OpDecTXSignalingGrant t) = Some (FTXSignalingGrant, uint t, - 1)"
| "moves (OpIncTXSignalingCancel t) = Some (FTXSignalingCancel, uint t, 1)"
| "moves (OpDecTXSignalingCancel t) = Some (FTXSignalingCancel, uint t, - 1)"
| "moves (OpIncWorkerSubs w) = Some (FWorkerSubs, w, 1)"
| "moves (OpDecWorkerSubs w) = Some (FWorkerSubs, w, - 1)"
| "moves _ = None"

definition delta :: "family \<Rightarrow> int \<Rightarrow> stats_op \<Rightarrow> int" where
  "delta f k op = (case moves op of
     Some (f', k', d) \<Rightarrow> if f' = f \<and> k' = k then d else 0 | None \<Rightarrow> 0)"

lemmas stats_op_defs = IncSubscription_def IncRX_def IncTX_def IncRXSignalingGrant_def
  IncRXSignalingCancel_def IncTXSignalingGrant_def IncTXSignalingCancel_def IncWorkerSubs_def
  IncReload_def DecSubscription_def DecRX_def DecTX_def DecRXSignalingGrant_def
  DecRXSignalingCancel_def DecTXSignalingGrant_def DecTXSignalingCancel_def DecWorkerSubs_def
  SetMaxWorkerQueue_def SetMaxTXTSAttempts_def IncTXTSMissing_def SetUTCOffsetSec_def
  SetClockAccuracy_def SetClockClass_def SetDrain_def Snapshot_def Stats_Reset_def

lemma wrap64_add: "wrap64 (wrap64 a + b) = wrap64 (a + b)"
proof -
  have "(wrap64 a + b + 2 ^ 63) mod 2 ^ 64 = (a + b + 2 ^ 63) mod 2 ^ 64"
    by (metis (no_types, lifting) add.assoc mod_add_left_eq wrap64_mod)
  then show ?thesis by (simp only: wrap64_def [of "wrap64 a + b"] wrap64_def [of "a + b"])
qed

abbreviation counted :: "family \<Rightarrow> bool" where
  "counted f \<equiv> f \<noteq> FWorkerQueue \<and> f \<noteq> FTXTSAttempts"

lemma apply_op_delta:
  assumes "counted f" and "op \<noteq> OpReset" and "int64_range (sm_load (sel f (js_counters s)) k)"
  shows "sm_load (sel f (js_counters (apply_op op s))) k =
    wrap64 (sm_load (sel f (js_counters s)) k + delta f k op)"
  using assms by (cases f; cases op) (simp_all add: delta_def stats_op_defs Let_def sm_inc_store sm_dec_store)

lemma run_stats_delta:
  assumes "counted f" and "OpReset \<notin> set ops" and "int64_range (sm_load (sel f (js_counters s)) k)"
  shows "sm_load (sel f (js_counters (run_stats ops s))) k =
    wrap64 (sm_load (sel f (js_counters s)) k + sum_list (map (delta f k) ops))"
  using assms
proof (induction ops arbitrary: s)
  case (Cons op ops)
  have "sm_load (sel f (js_counters (apply_op op s))) k =
      wrap64 (sm_load (sel f (js_counters s)) k + delta f k op)"
    using Cons.prems by (intro apply_op_delta) auto
  then show ?case
    using Cons.IH [of "apply_op op s"] Cons.prems by (simp add: wrap64_range wrap64_add add.assoc)
qed simp

lemma sel_reset: "sel f (js_counters (Stats_Reset s)) = sm_reset (sel f (js_counters s))"
  by (cases f) (simp_all add: Stats_Reset_def counters_reset_def)

text \<open>C32: every message, signaling and worker counter counts. After a reset, in any interleaving of
  the calls of two goroutines, the value of a counter is the number of its increments minus the
  number of its decrements over both, modulo the \<^verbatim>\<open>int64\<close> wrap-around, whatever other calls
  are made.\<close>

theorem counters_count:
  assumes "counted f" and "ops \<in> shuffles xs ys" and "OpReset \<notin> set xs" and "OpReset \<notin> set ys"
  shows "sm_load (sel f (js_counters (run_stats ops (Stats_Reset s)))) k =
    wrap64 (sum_list (map (delta f k) xs) + sum_list (map (delta f k) ys))"
proof -
  have "mset ops = mset xs + mset ys" using assms(2) by (rule mset_shuffles)
  then have "sum_list (map (delta f k) ops) = sum_list (map (delta f k) xs) + sum_list (map (delta f k) ys)"
    by (metis image_mset_union mset_map sum_mset.union sum_mset_sum_list)
  moreover have "OpReset \<notin> set ops" using assms(2-4) by (simp add: set_shuffles)
  moreover have "sm_load (sel f (js_counters (Stats_Reset s))) k = 0" by (simp add: sel_reset smap.load_reset)
  ultimately show ?thesis
    using run_stats_delta [of f ops "Stats_Reset s" k] assms(1) by (simp add: int64_range_def)
qed

theorem counters_count_witness:
  "sm_load (sel FRX (js_counters (run_stats [OpIncRX 1, OpIncTX 0, OpIncRX 1] (Stats_Reset NewJSONStats)))) 1 = 2"
  using counters_count [of FRX "[OpIncRX 1, OpIncTX 0, OpIncRX 1]" "[OpIncRX 1, OpIncRX 1]" "[OpIncTX 0]"
    NewJSONStats 1] by (simp add: delta_def wrap64_def)

lemma high_water_step:
  assumes "op \<noteq> OpReset"
  shows "sm_load (workerQueue (js_counters (apply_op op s))) k =
      (case op of OpSetMaxWorkerQueue w v \<Rightarrow>
         if w = k then max v (sm_load (workerQueue (js_counters s)) k)
         else sm_load (workerQueue (js_counters s)) k
       | _ \<Rightarrow> sm_load (workerQueue (js_counters s)) k)"
    and "sm_load (txtsattempts (js_counters (apply_op op s))) k =
      (case op of OpSetMaxTXTSAttempts w v \<Rightarrow>
         if w = k then max v (sm_load (txtsattempts (js_counters s)) k)
         else sm_load (txtsattempts (js_counters s)) k
       | _ \<Rightarrow> sm_load (txtsattempts (js_counters s)) k)"
  using assms by (cases op; simp add: stats_op_defs Let_def max_def)+

text \<open>\<open>is_max P v b\<close>: \<open>v\<close> is the greatest of \<open>b\<close> and the values that satisfy \<open>P\<close>.\<close>

definition is_max :: "(int \<Rightarrow> bool) \<Rightarrow> int \<Rightarrow> int \<Rightarrow> bool" where
  "is_max P v b \<longleftrightarrow> b \<le> v \<and> (v = b \<or> P v) \<and> (\<forall>w. P w \<longrightarrow> w \<le> v)"

lemma high_water_run:
  assumes "OpReset \<notin> set ops"
  shows "is_max (\<lambda>v. OpSetMaxWorkerQueue k v \<in> set ops)
      (sm_load (workerQueue (js_counters (run_stats ops s))) k) (sm_load (workerQueue (js_counters s)) k)"
    and "is_max (\<lambda>v. OpSetMaxTXTSAttempts k v \<in> set ops)
      (sm_load (txtsattempts (js_counters (run_stats ops s))) k) (sm_load (txtsattempts (js_counters s)) k)"
  using assms
proof (induction ops rule: rev_induct)
  case (snoc op ops)
  { case 1
    then show ?case using snoc.IH(1) high_water_step(1) [of op "run_stats ops s" k]
      by (cases op) (auto simp: is_max_def max_def)
  next
    case 2
    then show ?case using snoc.IH(2) high_water_step(2) [of op "run_stats ops s" k]
      by (cases op) (auto simp: is_max_def max_def) }
qed (simp_all add: is_max_def)

text \<open>The worker queue and transmit-timestamp-attempt gauges are high-water marks: after a reset
  each is the greatest value reported for that worker since, and at least zero.\<close>

lemma high_water_marks:
  assumes "OpReset \<notin> set ops"
  shows "is_max (\<lambda>v. OpSetMaxWorkerQueue k v \<in> set ops)
      (sm_load (workerQueue (js_counters (run_stats ops (Stats_Reset s)))) k) 0
    \<and> is_max (\<lambda>v. OpSetMaxTXTSAttempts k v \<in> set ops)
      (sm_load (txtsattempts (js_counters (run_stats ops (Stats_Reset s)))) k) 0"
  using high_water_run [OF assms, of k "Stats_Reset s"]
    sel_reset [of FWorkerQueue s] sel_reset [of FTXTSAttempts s] by (simp add: smap.load_reset)

lemma high_water_marks_witness:
  "is_max (\<lambda>v. v = 4 \<or> v = 2)
     (sm_load (workerQueue (js_counters (run_stats [OpSetMaxWorkerQueue 3 4, OpSetMaxWorkerQueue 3 2]
       (Stats_Reset NewJSONStats)))) 3) 0"
  using high_water_marks [of "[OpSetMaxWorkerQueue 3 4, OpSetMaxWorkerQueue 3 2]" 3 NewJSONStats] by simp

subsection \<open>Snapshots\<close>

definition same_counters :: "counters \<Rightarrow> counters \<Rightarrow> bool" where
  "same_counters c d \<longleftrightarrow>
     (\<forall>f. sm_dom (sel f c) = sm_dom (sel f d) \<and> sm_load (sel f c) = sm_load (sel f d))
     \<and> utcoffsetSec c = utcoffsetSec d \<and> clockaccuracy c = clockaccuracy d
     \<and> clockclass c = clockclass d \<and> ctr_drain c = ctr_drain d \<and> reload c = reload d
     \<and> txtsMissing c = txtsMissing d"

lemma sel_Snapshot: "sel f (js_report (Snapshot ord s)) = sm_copy ord (sel f (js_counters s)) (sel f (js_report s))"
  by (cases f) (simp_all add: Snapshot_def Let_def)

lemma report_keys_step:
  assumes "sm_dom (sel f (js_report s)) \<subseteq> sm_dom (sel f (js_counters s))"
    and "\<And>ord. op = OpSnapshot ord \<Longrightarrow> permutes_keys ord"
  shows "sm_dom (sel f (js_report (apply_op op s))) \<subseteq> sm_dom (sel f (js_counters (apply_op op s)))"
proof (cases "\<exists>ord. op = OpSnapshot ord")
  case True
  then show ?thesis
    using assms by (auto simp: sel_Snapshot smap.copy_exact) (simp add: Snapshot_def Let_def)
next
  case False
  then show ?thesis
    using assms(1) by (cases f; cases op)
      (auto simp: stats_op_defs counters_reset_def sm_inc_store sm_dec_store smap.keys_reset)
qed

lemma report_keys_run:
  assumes "\<forall>ord. OpSnapshot ord \<in> set ops \<longrightarrow> permutes_keys ord"
  shows "sm_dom (sel f (js_report (run_stats ops NewJSONStats)))
    \<subseteq> sm_dom (sel f (js_counters (run_stats ops NewJSONStats)))"
  using assms
proof (induction ops rule: rev_induct)
  case Nil
  then show ?case by (simp add: NewJSONStats_def)
next
  case (snoc op ops)
  then show ?case using report_keys_step [of f "run_stats ops NewJSONStats" op] by auto
qed

text \<open>After any sequence of calls since the reporter was created, taking a snapshot and resetting
  leaves in the report exactly the counters as they were, keys and values and scalars, in whatever
  order the runtime visits the maps.\<close>

lemma snapshot_report:
  assumes "\<forall>ord. OpSnapshot ord \<in> set ops \<longrightarrow> permutes_keys ord" and "permutes_keys ord"
  shows "same_counters (js_report (Stats_Reset (Snapshot ord (run_stats ops NewJSONStats))))
    (js_counters (run_stats ops NewJSONStats))"
  unfolding same_counters_def
  using smap.copy_exact [OF assms(2) report_keys_run [OF assms(1)]]
  by (auto simp: Stats_Reset_def sel_Snapshot) (simp_all add: Snapshot_def Let_def)

lemma snapshot_report_witness:
  "same_counters
     (js_report (Stats_Reset (Snapshot rev (run_stats [OpIncRX 1, OpSnapshot id, OpIncTX 0] NewJSONStats))))
     (js_counters (run_stats [OpIncRX 1, OpSnapshot id, OpIncTX 0] NewJSONStats))"
  using snapshot_report [of "[OpIncRX 1, OpSnapshot id, OpIncTX 0]" rev] by (simp add: permutes_keys_def)

subsection \<open>The exported metrics\<close>

fun family_prefix :: "family \<Rightarrow> string" where
  "family_prefix FSubscriptions = ''subscriptions.''"
| "family_prefix FRX = ''rx.''"
| "family_prefix FTX = ''tx.''"
| "family_prefix FRXSignalingGrant = ''rx.signaling.grant.''"
| "family_prefix FRXSignalingCancel = ''rx.signaling.cancel.''"
| "family_prefix FTXSignalingGrant = ''tx.signaling.grant.''"
| "family_prefix FTXSignalingCancel = ''tx.signaling.cancel.''"
| "family_prefix _ = ''worker.''"

fun family_suffix :: "family \<Rightarrow> string" where
  "family_suffix FWorkerQueue = ''queue''"
| "family_suffix FWorkerSubs = ''subscriptions''"
| "family_suffix FTXTSAttempts = ''txtsattempts''"
| "family_suffix _ = []"

definition is_worker :: "family \<Rightarrow> bool" where
  "is_worker f \<longleftrightarrow> f \<in> {FWorkerQueue, FWorkerSubs, FTXTSAttempts}"

definition metric_name :: "family \<Rightarrow> int \<Rightarrow> string" where
  "metric_name f k =
     (if is_worker f then ''worker.'' @ fmt_d k @ ''.'' @ family_suffix f
      else family_prefix f @ type_name k)"

definition scalar_metrics :: "counters \<Rightarrow> (string \<times> int) list" where
  "scalar_metrics c =
     [(''utcoffset_sec'', utcoffsetSec c), (''clockaccuracy'', clockaccuracy c),
      (''clockclass'', clockclass c), (''drain'', ctr_drain c), (''reload'', reload c),
      (''txts.missing'', txtsMissing c)]"

text \<open>The message types that have a name.\<close>

definition known_types :: "int set" where
  "known_types = (\<lambda>(t, s). uint t) ` set MessageTypeToString"

lemma names_no_dot: "list_all (\<lambda>(m, s). CHR ''.'' \<notin> set (ToLower s)) MessageTypeToString"
  by code_simp

lemma type_name_no_dot: "CHR ''.'' \<notin> set (type_name k)"
proof (cases "map_of MessageTypeToString (word_of_int k)")
  case (Some s)
  then show ?thesis
    using names_no_dot by (auto simp: type_name_def MessageType_String_def list_all_iff dest!: map_of_SomeD)
qed (simp add: type_name_def MessageType_String_def ToLower_def)

lemma type_name_inj: "inj_on type_name known_types"
  by (simp add: known_types_def MessageTypeToString_def inj_on_def type_name_def ToLower_def
    MessageType_String_def ascii_lower_def)

text \<open>The part of a name up to its last dot, and the part after it.\<close>

definition stem :: "string \<Rightarrow> string" where
  "stem x = rev (dropWhile (\<lambda>c. c \<noteq> CHR ''.'') (rev x))"

definition leaf :: "string \<Rightarrow> string" where
  "leaf x = rev (takeWhile (\<lambda>c. c \<noteq> CHR ''.'') (rev x))"

lemma stem_leaf:
  assumes "CHR ''.'' \<notin> set t"
  shows "stem (p @ CHR ''.'' # t) = p @ ''.''" and "leaf (p @ CHR ''.'' # t) = t"
proof -
  have t: "c \<in> set (rev t) \<Longrightarrow> c \<noteq> CHR ''.''" for c using assms by auto
  show "stem (p @ CHR ''.'' # t) = p @ ''.''" "leaf (p @ CHR ''.'' # t) = t"
    using dropWhile_append2 [of "rev t", OF t] takeWhile_append2 [of "rev t", OF t]
    by (simp_all add: stem_def leaf_def)
qed

lemma family_prefix_dot: "family_prefix f = butlast (family_prefix f) @ ''.''"
  by (cases f) simp_all

lemma stem_metric: "\<not> is_worker f \<Longrightarrow> stem (metric_name f k) = family_prefix f"
  using stem_leaf(1) [OF type_name_no_dot, of "butlast (family_prefix f)" k] family_prefix_dot [of f]
  by (metis append.assoc append_Cons append_Nil metric_name_def)

lemma leaf_metric: "is_worker f \<Longrightarrow> leaf (metric_name f k) = family_suffix f"
  using stem_leaf(2) [of "family_suffix f" "''worker.'' @ fmt_d k"]
  by (cases f) (simp_all add: metric_name_def is_worker_def)

lemma hd_metric: "hd (metric_name f k) = CHR ''w'' \<longleftrightarrow> is_worker f"
  by (cases f) (simp_all add: metric_name_def is_worker_def)

lemma metric_name_eq:
  assumes "metric_name f k = metric_name f' k'"
  shows "f = f'"
proof (cases "is_worker f")
  case True
  then have "is_worker f'" using assms hd_metric by metis
  then have "family_suffix f = family_suffix f'" using True assms leaf_metric by metis
  then show ?thesis using True \<open>is_worker f'\<close> by (auto simp: is_worker_def)
next
  case False
  then have "\<not> is_worker f'" using assms hd_metric by metis
  then have "family_prefix f = family_prefix f'" using False assms stem_metric by metis
  then show ?thesis using False \<open>\<not> is_worker f'\<close> by (cases f; cases f') (simp_all add: is_worker_def)
qed

lemma metric_name_inj:
  assumes "is_worker f \<or> K \<subseteq> known_types"
  shows "inj_on (metric_name f) K"
  using assms type_name_inj unfolding inj_on_def metric_name_def by (auto simp: fmt_d_inj)

lemma scalar_not_metric: "(x, y) \<in> set (scalar_metrics c) \<Longrightarrow> x \<noteq> metric_name f k"
proof
  assume s: "(x, y) \<in> set (scalar_metrics c)" and x: "x = metric_name f k"
  show False
  proof (cases "is_worker f")
    case True
    then have "hd x = CHR ''w''" using x hd_metric by blast
    then show False using s by (auto simp: scalar_metrics_def)
  next
    case False
    then have "stem x = family_prefix f" using x stem_metric by blast
    then show False using s False by (cases f) (auto simp: scalar_metrics_def stem_def is_worker_def)
  qed
qed

lemma fold_upd_iff:
  assumes "inj_on n (set ks)"
  shows "fold (\<lambda>t res. res(n t \<mapsto> v t)) ks res x = Some y \<longleftrightarrow>
    (\<exists>t \<in> set ks. x = n t \<and> y = v t) \<or> (x \<notin> n ` set ks \<and> res x = Some y)"
  using assms
proof (induction ks arbitrary: res)
  case (Cons a ks)
  then have "inj_on n (set ks)" and a: "\<And>t. t \<in> set ks \<Longrightarrow> n t = n a \<Longrightarrow> t = a"
    by (auto simp: inj_on_def)
  then show ?case using Cons.IH [of "res(n a \<mapsto> v a)"] by (auto dest: a)
qed simp

definition has_names :: "counters \<Rightarrow> bool" where
  "has_names c \<longleftrightarrow> (\<forall>f. \<not> is_worker f \<longrightarrow> sm_dom (sel f c) \<subseteq> known_types)"

text \<open>The exports of the ten families as one fold, in the order of \<^verbatim>\<open>toMap\<close>.\<close>

definition export_family :: "range_order \<Rightarrow> counters \<Rightarrow> family \<Rightarrow> (string \<rightharpoonup> int) \<Rightarrow> string \<rightharpoonup> int" where
  "export_family ord c f res =
     fold (\<lambda>t res. res(metric_name f t \<mapsto> sm_load (sel f c) t)) (sm_keys ord (sel f c)) res"

definition families :: "family list" where
  "families = [FSubscriptions, FRX, FTX, FRXSignalingGrant, FRXSignalingCancel, FTXSignalingGrant,
     FTXSignalingCancel, FWorkerQueue, FWorkerSubs, FTXTSAttempts]"

lemma families_all: "set families = UNIV" and families_distinct: "distinct families"
proof -
  have "f \<in> set families" for f by (cases f) (simp_all add: families_def)
  then show "set families = UNIV" by auto
qed (simp add: families_def)

lemma toMap_fold:
  "toMap ord c = fold (\<lambda>(x, y) res. res(x \<mapsto> y)) (scalar_metrics c)
     (fold (export_family ord c) families Map.empty)"
  by (simp add: toMap_def Let_def scalar_metrics_def families_def export_family_def export_types_def
    export_workers_def metric_name_def is_worker_def)

lemma export_family_iff:
  assumes "permutes_keys ord" and "has_names c"
  shows "export_family ord c f res x = Some y \<longleftrightarrow>
    (\<exists>t \<in> sm_dom (sel f c). x = metric_name f t \<and> y = sm_load (sel f c) t)
    \<or> (x \<notin> metric_name f ` sm_dom (sel f c) \<and> res x = Some y)"
  unfolding export_family_def
  using assms metric_name_inj [of f "sm_dom (sel f c)"]
  by (subst fold_upd_iff) (auto simp: sm_keys_set has_names_def)

lemma export_families_iff:
  assumes "permutes_keys ord" and "has_names c" and "distinct fs"
  shows "fold (export_family ord c) fs res x = Some y \<longleftrightarrow>
    (\<exists>f \<in> set fs. \<exists>t \<in> sm_dom (sel f c). x = metric_name f t \<and> y = sm_load (sel f c) t)
    \<or> (x \<notin> (\<Union>f \<in> set fs. metric_name f ` sm_dom (sel f c)) \<and> res x = Some y)"
  using assms(3)
proof (induction fs rule: rev_induct)
  case (snoc f fs)
  then have "f' = f \<Longrightarrow> f' \<notin> set fs" for f' by auto
  then show ?case
    using snoc by (auto simp: export_family_iff [OF assms(1,2)] dest: metric_name_eq)
qed simp

text \<open>When all recorded message types are ones that have a name, the exported metrics are exactly
  the counters: each family and key under a name of its own, and the six scalars, whatever order the
  runtime visits the maps in.\<close>

lemma toMap_lossless:
  assumes "permutes_keys ord" and "has_names c"
  shows "toMap ord c x = Some y \<longleftrightarrow>
    (\<exists>f. \<exists>t \<in> sm_dom (sel f c). x = metric_name f t \<and> y = sm_load (sel f c) t)
    \<or> (x, y) \<in> set (scalar_metrics c)"
proof -
  let ?res = "fold (export_family ord c) families Map.empty"
  have res: "?res x = Some y \<longleftrightarrow>
      (\<exists>f. \<exists>t \<in> sm_dom (sel f c). x = metric_name f t \<and> y = sm_load (sel f c) t)"
    using export_families_iff [OF assms families_distinct, of Map.empty] by (simp add: families_all)
  have "toMap ord c x = (case map_of (scalar_metrics c) x of Some v \<Rightarrow> Some v | None \<Rightarrow> ?res x)"
    by (simp add: toMap_fold scalar_metrics_def)
  moreover have "distinct (map fst (scalar_metrics c))" by (simp add: scalar_metrics_def)
  then have "(x, y) \<in> set (scalar_metrics c) \<longleftrightarrow> map_of (scalar_metrics c) x = Some y"
    by (simp only: map_of_eq_Some_iff)
  moreover have "map_of (scalar_metrics c) x = Some v \<Longrightarrow> ?res x \<noteq> Some y \<or> \<not> (\<exists>f t. x = metric_name f t)" for v
    using scalar_not_metric map_of_SomeD by metis
  ultimately show ?thesis
    using res by (cases "map_of (scalar_metrics c) x") (simp_all only: option.case, blast+)
qed

lemma toMap_lossless_witness:
  "toMap rev (js_counters NewJSONStats) ''drain'' = Some 0"
proof -
  have "sm_dom (sel f (js_counters NewJSONStats)) = {}" for f
    by (cases f) (simp_all add: NewJSONStats_def counters_init_def sm_init_def sm_dom_def zero_counters_def Let_def)
  then have "has_names (js_counters NewJSONStats)" by (simp add: has_names_def)
  moreover have "permutes_keys rev" by (simp add: permutes_keys_def)
  ultimately show ?thesis
    using toMap_lossless [of rev "js_counters NewJSONStats" "''drain''" 0]
    by (simp add: scalar_metrics_def NewJSONStats_def counters_init_def zero_counters_def Let_def)
qed

text \<open>Message types without a name share one metric: after one message of type 5 and two of type
  6 the exported value of \<^verbatim>\<open>rx.\<close> is 2 or 1 depending on the order the map is visited in.\<close>

lemma toMap_unnamed_types_collide:
  "let s = run_stats [OpIncRX 5, OpIncRX 6, OpIncRX 6] NewJSONStats in
     toMap id (js_counters s) ''rx.'' = Some 2 \<and> toMap rev (js_counters s) ''rx.'' = Some 1"
  by code_simp

end
