(* ===== verification/Ptp_Worker.thy ===== *)
theory Ptp_Worker
  imports Ptp_Subscription Ptp_Stats
begin

section \<open>Send workers (\<^verbatim>\<open>src/server/worker.go\<close>)\<close>

text \<open>
  A worker keeps a table of subscriptions by message type and client and sends the packets of the
  clients that put themselves on its two channels. Clients live on a heap and are referred to by
  address, since the table, the channels, the goroutines and the handlers share them. A channel is
  the list of what was sent and not yet received. The loop of \<^verbatim>\<open>Start\<close> is one function per
  case of its \<^verbatim>\<open>select\<close>; what the kernel answers is the argument \<open>io\<close>, and what is handed to
  the kernel is the list of packets returned.
\<close>

subsection \<open>State\<close>

type_synonym addr = nat
type_synonym heap = "SubscriptionClient list"

record sendWorker =
  w_id :: int
  w_queue :: "addr list"
  w_signalingQueue :: "addr list"
  w_clients :: "(u8 \<times> (PortIdentity \<times> addr) list) list"
  w_olderKernel :: bool
  w_buf :: bytes

definition newSendWorker :: "int \<Rightarrow> sendWorker" where
  "newSendWorker i = \<lparr>w_id = i, w_queue = [], w_signalingQueue = [], w_clients = [],
     w_olderKernel = False, w_buf = replicate 128 0\<rparr>"

subsection \<open>The subscription table\<close>

definition FindSubscription :: "PortIdentity \<Rightarrow> u8 \<Rightarrow> sendWorker \<Rightarrow> addr option" where
  "FindSubscription clientID st s =
     (case map_of (w_clients s) st of
        None \<Rightarrow> None
      | Some m \<Rightarrow> (case map_of m clientID of None \<Rightarrow> None | Some sub \<Rightarrow> Some sub))"

definition FindClients :: "u8 \<Rightarrow> sendWorker \<Rightarrow> (PortIdentity \<times> addr) list option" where
  "FindClients st s = (case map_of (w_clients s) st of None \<Rightarrow> None | Some m \<Rightarrow> Some m)"

definition RegisterSubscription ::
  "PortIdentity \<Rightarrow> u8 \<Rightarrow> addr \<Rightarrow> sendWorker \<Rightarrow> sendWorker" where
  "RegisterSubscription clientID st sc s =
     (let clients = (case map_of (w_clients s) st of
                       None \<Rightarrow> AList.update st [] (w_clients s) | Some m \<Rightarrow> w_clients s);
          m = (case map_of clients st of None \<Rightarrow> [] | Some m \<Rightarrow> m)
      in s\<lparr>w_clients := AList.update st (AList.update clientID sc m) clients\<rparr>)"

text \<open>
  The inventory visits every entry, drops those whose client does not run and counts the others.
\<close>

fun inventory_subs ::
  "heap \<Rightarrow> int \<Rightarrow> u8 \<Rightarrow> (PortIdentity \<times> addr) list \<Rightarrow> JSONStats \<Rightarrow> (PortIdentity \<times> addr) list \<times> JSONStats"
where
  "inventory_subs h wid st [] stats = ([], stats)"
| "inventory_subs h wid st ((k, a) # subs) stats =
     (if \<not> sc_running (h ! a) then inventory_subs h wid st subs stats
      else let stats = IncWorkerSubs wid (IncSubscription st stats);
               (rest, stats) = inventory_subs h wid st subs stats
           in ((k, a) # rest, stats))"

fun inventory_types ::
  "heap \<Rightarrow> int \<Rightarrow> (u8 \<times> (PortIdentity \<times> addr) list) list \<Rightarrow> JSONStats
     \<Rightarrow> (u8 \<times> (PortIdentity \<times> addr) list) list \<times> JSONStats"
where
  "inventory_types h wid [] stats = ([], stats)"
| "inventory_types h wid ((st, subs) # clients) stats =
     (let (subs, stats) = inventory_subs h wid st subs stats;
          (rest, stats) = inventory_types h wid clients stats
      in ((st, subs) # rest, stats))"

definition inventoryClients :: "heap \<Rightarrow> sendWorker \<Rightarrow> JSONStats \<Rightarrow> sendWorker \<times> JSONStats" where
  "inventoryClients h s stats =
     (let (clients, stats) = inventory_types h (w_id s) (w_clients s) stats
      in (s\<lparr>w_clients := clients\<rparr>, stats))"

subsection \<open>Sending\<close>

text \<open>
  The sockets of a worker, the answers of \<^verbatim>\<open>Sendto\<close> and \<^verbatim>\<open>Sendmsg\<close>, the answer of the
  transmit-timestamp readers (time, attempts, whether they failed) and a packet handed to the kernel:
  socket, bytes, destination and the sequence number of the control message, if one was given.
\<close>

datatype sock = EventSock | GeneralSock
datatype send_result = SendOk | SendEINVAL | SendError

record worker_io =
  io_event :: send_result
  io_txts :: "time \<times> int \<times> bool"
  io_general :: send_result

record sent =
  sent_sock :: sock
  sent_bytes :: bytes
  sent_to :: Sockaddr
  sent_seq :: "u32 option"

type_synonym worker_result = "sendWorker \<times> heap \<times> JSONStats \<times> sent list"

text \<open>
  A Sync packet with its transmit timestamp, as both timed branches send it: \<open>Inr t\<close> when the
  packet was sent and timestamped at \<open>t\<close>, \<open>Inl\<close> when the branch goes back to the
  \<^verbatim>\<open>select\<close>. \<open>txType\<close> is the message type counted.
\<close>

definition send_timed ::
  "Config \<Rightarrow> worker_io \<Rightarrow> u8 \<Rightarrow> SubscriptionClient \<Rightarrow> sendWorker \<Rightarrow> JSONStats
     \<Rightarrow> (sendWorker \<times> JSONStats \<times> sent list \<times> time option) option" where
  "send_timed cfg io txType c s stats =
     (case BytesTo (PSyncDelayReq (sc_syncP c)) (w_buf s) of
        None \<Rightarrow> None
      | Some (buf, n, Some err) \<Rightarrow> Some (s\<lparr>w_buf := buf\<rparr>, stats, [], None)
      | Some (buf, n, None) \<Rightarrow>
          (let s = s\<lparr>w_buf := buf\<rparr>;
               (txTS, attempts, failed) = io_txts io
           in if w_olderKernel s then
             (if io_event io \<noteq> SendOk then Some (s, stats, [], None)
              else
                let out = [\<lparr>sent_sock = EventSock, sent_bytes = take n buf, sent_to = sc_eclisa c,
                            sent_seq = None\<rparr>];
                    stats = IncTX txType stats;
                    stats = SetMaxTXTSAttempts (w_id s) attempts stats
                in if failed then Some (s, IncTXTSMissing stats, out, None)
                   else Some (s, stats, out,
                     Some (if TimestampType (cfg_static cfg) \<noteq> HW
                           then txTS + UTCOffset (cfg_dynamic cfg) else txTS)))
           else
             (let seqID = ucast (SequenceID (sync_Header (sc_syncP c))) :: u32 in
              if io_event io = SendEINVAL then Some (s\<lparr>w_olderKernel := True\<rparr>, stats, [], None)
              else if io_event io \<noteq> SendOk then Some (s, stats, [], None)
              else
                let out = [\<lparr>sent_sock = EventSock, sent_bytes = take n buf, sent_to = sc_eclisa c,
                            sent_seq = Some seqID\<rparr>];
                    stats = IncTX txType stats;
                    stats = SetMaxTXTSAttempts (w_id s) attempts stats
                in if failed then Some (s, IncTXTSMissing stats, out, None)
                   else Some (s, stats, out, Some txTS))))"

text \<open>A packet on the general socket: the flag says whether it was sent.\<close>

definition send_general ::
  "worker_io \<Rightarrow> Packet \<Rightarrow> Sockaddr \<Rightarrow> sendWorker \<Rightarrow> (sendWorker \<times> sent list \<times> bool) option" where
  "send_general io p sa s =
     (case BytesTo p (w_buf s) of
        None \<Rightarrow> None
      | Some (buf, n, Some err) \<Rightarrow> Some (s\<lparr>w_buf := buf\<rparr>, [], False)
      | Some (buf, n, None) \<Rightarrow>
          (let s = s\<lparr>w_buf := buf\<rparr> in
           if io_general io \<noteq> SendOk then Some (s, [], False)
           else Some (s, [\<lparr>sent_sock = GeneralSock, sent_bytes = take n buf, sent_to = sa,
                           sent_seq = None\<rparr>], True)))"

text \<open>
  The end of a successful branch: the sequence number advances and the queue is measured. A list of
  more sends than the channel has room for stands for a full buffer and senders that wait in order, so
  \<^verbatim>\<open>len\<close> of the channel is at most its capacity.
\<close>

definition chan_len :: "Config \<Rightarrow> addr list \<Rightarrow> int" where
  "chan_len cfg q = min (int (length q)) (QueueSize (cfg_static cfg))"

definition finish_send :: "Config \<Rightarrow> addr \<Rightarrow> sendWorker \<Rightarrow> heap \<Rightarrow> JSONStats \<Rightarrow> sendWorker \<times> heap \<times> JSONStats" where
  "finish_send cfg a s h stats =
     (s, h[a := IncSequenceID (h ! a)],
      SetMaxWorkerQueue (w_id s) (chan_len cfg (w_queue s)) stats)"

text \<open>One packet of the general socket after the client was updated, and the end of the branch.\<close>

definition general_branch ::
  "Config \<Rightarrow> worker_io \<Rightarrow> addr \<Rightarrow> (SubscriptionClient \<Rightarrow> Packet) \<Rightarrow> u8 \<Rightarrow> sent list \<Rightarrow> sendWorker \<Rightarrow> heap
     \<Rightarrow> JSONStats \<Rightarrow> worker_result option" where
  "general_branch cfg io a packet txType out s h stats =
     (case send_general io (packet (h ! a)) (sc_gclisa (h ! a)) s of
        None \<Rightarrow> None
      | Some (s, out', ok) \<Rightarrow>
          if \<not> ok then Some (s, h, stats, out @ out')
          else let (s, h, stats) = finish_send cfg a s h (IncTX txType stats)
               in Some (s, h, stats, out @ out'))"

definition worker_queue_step ::
  "(duration \<Rightarrow> int) \<Rightarrow> Config \<Rightarrow> worker_io \<Rightarrow> addr \<Rightarrow> sendWorker \<Rightarrow> heap \<Rightarrow> JSONStats
     \<Rightarrow> worker_result option" where
  "worker_queue_step log2i cfg io a s h stats =
     (let st = sc_subscriptionType (h ! a) in
      if st = MessageSync then
        (let h = h[a := UpdateSync (h ! a)] in
         case send_timed cfg io st (h ! a) s stats of
           None \<Rightarrow> None
         | Some (s, stats, out, None) \<Rightarrow> Some (s, h, stats, out)
         | Some (s, stats, out, Some txTS) \<Rightarrow>
             general_branch cfg io a (\<lambda>c. PFollowUp (sc_followupP c)) MessageFollowUp out s
               (h[a := UpdateFollowup log2i txTS (h ! a)]) stats)
      else if st = MessageAnnounce then
        general_branch cfg io a (\<lambda>c. PAnnounce (sc_announceP c)) st [] s
          (h[a := UpdateAnnounce log2i cfg (h ! a)]) stats
      else if st = MessageDelayResp then
        general_branch cfg io a (\<lambda>c. PDelayResp (sc_delayRespP c)) st [] s h stats
      else if st = MessageDelayReq then
        (case send_timed cfg io MessageSync (h ! a) s stats of
           None \<Rightarrow> None
         | Some (s, stats, out, None) \<Rightarrow> Some (s, h, stats, out)
         | Some (s, stats, out, Some txTS) \<Rightarrow>
             general_branch cfg io a (\<lambda>c. PAnnounce (sc_announceP c)) MessageAnnounce out s
               (h[a := UpdateAnnounceFollowUp txTS (h ! a)]) stats)
      else Some (s, h, stats, []))"

text \<open>The counters of a sent signaling message, one per grant or cancel TLV.\<close>

fun count_signaling :: "u8 \<Rightarrow> TLV list \<Rightarrow> JSONStats \<Rightarrow> JSONStats" where
  "count_signaling st [] stats = stats"
| "count_signaling st (GrantUnicastTransmissionTLV t # tlvs) stats =
     count_signaling st tlvs (IncTXSignalingGrant st stats)"
| "count_signaling st (CancelUnicastTransmissionTLV t # tlvs) stats =
     count_signaling st tlvs (IncTXSignalingCancel st stats)"
| "count_signaling st (_ # tlvs) stats = count_signaling st tlvs stats"

definition worker_signaling_step ::
  "worker_io \<Rightarrow> addr \<Rightarrow> sendWorker \<Rightarrow> heap \<Rightarrow> JSONStats \<Rightarrow> worker_result option" where
  "worker_signaling_step io a s h stats =
     (case send_general io (PSignaling (sc_signaling (h ! a))) (sc_gclisa (h ! a)) s of
        None \<Rightarrow> None
      | Some (s, out, ok) \<Rightarrow>
          if \<not> ok then Some (s, h, stats, out)
          else Some (s, h, count_signaling (sc_subscriptionType (h ! a)) (sig_TLVs (sc_signaling (h ! a))) stats, out))"

text \<open>
  One turn of the loop: receive from a channel and serve the client. A channel with nothing on it
  is not ready.
\<close>

datatype channel = Queue | SignalingQueue

fun worker_step ::
  "(duration \<Rightarrow> int) \<Rightarrow> Config \<Rightarrow> worker_io \<Rightarrow> channel \<Rightarrow> sendWorker \<Rightarrow> heap \<Rightarrow> JSONStats
     \<Rightarrow> worker_result option option" where
  "worker_step log2i cfg io Queue s h stats =
     (case w_queue s of
        [] \<Rightarrow> None
      | a # q \<Rightarrow> Some (worker_queue_step log2i cfg io a (s\<lparr>w_queue := q\<rparr>) h stats))"
| "worker_step log2i cfg io SignalingQueue s h stats =
     (case w_signalingQueue s of
        [] \<Rightarrow> None
      | a # q \<Rightarrow> Some (worker_signaling_step io a (s\<lparr>w_signalingQueue := q\<rparr>) h stats))"

subsection \<open>The contract of the subscription table\<close>

text \<open>
  What the handlers rely on: a lookup after a registration, the entries a table holds, and an
  inventory that keeps exactly the entries of a given predicate.
\<close>

locale subscription_table =
  fixes find :: "'k \<Rightarrow> 't \<Rightarrow> 'w \<Rightarrow> 'a option"
    and register :: "'k \<Rightarrow> 't \<Rightarrow> 'a \<Rightarrow> 'w \<Rightarrow> 'w"
    and restrict :: "('a \<Rightarrow> bool) \<Rightarrow> 'w \<Rightarrow> 'w"
    and entries :: "'w \<Rightarrow> ('t \<times> 'k \<times> 'a) set"
    and empty :: "'w \<Rightarrow> bool"
  assumes find_register: "find k' t' (register k t a w) = (if k' = k \<and> t' = t then Some a else find k' t' w)"
    and find_entry: "find k t w = Some a \<Longrightarrow> (t, k, a) \<in> entries w"
    and entries_register: "entries (register k t a w) \<subseteq> insert (t, k, a) (entries w)"
    and entries_restrict: "entries (restrict P w) = {(t, k, a) \<in> entries w. P a}"
    and empty_entries: "empty w \<Longrightarrow> entries w = {}"
begin

definition holds :: "('t \<Rightarrow> 'k \<Rightarrow> 'a \<Rightarrow> bool) \<Rightarrow> 'w \<Rightarrow> bool" where
  "holds I w \<longleftrightarrow> (\<forall>(t, k, a) \<in> entries w. I t k a)"

lemma holds_find: "holds I w \<Longrightarrow> find k t w = Some a \<Longrightarrow> I t k a"
  using find_entry by (fastforce simp: holds_def)

lemma holds_register: "holds I w \<Longrightarrow> I t k a \<Longrightarrow> holds I (register k t a w)"
  using entries_register by (fastforce simp: holds_def)

lemma holds_restrict: "holds I w \<Longrightarrow> holds I (restrict P w)"
  by (auto simp: holds_def entries_restrict)

lemma holds_restricted: "holds (\<lambda>t k a. P a) (restrict P w)"
  by (auto simp: holds_def entries_restrict)

lemma holds_empty: "empty w \<Longrightarrow> holds I w"
  by (simp add: holds_def empty_entries)

lemma holds_mono: "holds I w \<Longrightarrow> (\<And>t k a. I t k a \<Longrightarrow> J t k a) \<Longrightarrow> holds J w"
  by (auto simp: holds_def)

end

subsection \<open>The worker's table implements it\<close>

definition table_entries :: "sendWorker \<Rightarrow> (u8 \<times> PortIdentity \<times> addr) set" where
  "table_entries s = {(t, k, a). \<exists>m. (t, m) \<in> set (w_clients s) \<and> (k, a) \<in> set m}"

text \<open>The inventory as a filter, apart from its counting.\<close>

definition keep_running :: "(addr \<Rightarrow> bool) \<Rightarrow> sendWorker \<Rightarrow> sendWorker" where
  "keep_running P s = s\<lparr>w_clients := map (\<lambda>(st, subs). (st, filter (\<lambda>(k, a). P a) subs)) (w_clients s)\<rparr>"

lemma inventory_subs_eq:
  "fst (inventory_subs h wid st subs stats) = filter (\<lambda>(k, a). sc_running (h ! a)) subs"
  by (induction subs arbitrary: stats) (auto simp: Let_def case_prod_beta)

lemma inventory_types_eq:
  "fst (inventory_types h wid clients stats)
    = map (\<lambda>(st, subs). (st, filter (\<lambda>(k, a). sc_running (h ! a)) subs)) clients"
  by (induction clients arbitrary: stats) (auto simp: Let_def case_prod_beta inventory_subs_eq)

lemma inventoryClients_eq: "fst (inventoryClients h s stats) = keep_running (\<lambda>a. sc_running (h ! a)) s"
  using inventory_types_eq [of h "w_id s" "w_clients s" stats]
  by (auto simp: inventoryClients_def keep_running_def split: prod.splits)

lemma set_update_subset: "set (AList.update k v al) \<subseteq> insert (k, v) (set al)"
  by (induction al) auto

lemma register_clients:
  "w_clients (RegisterSubscription k t a s) =
     AList.update t (AList.update k a (case map_of (w_clients s) t of None \<Rightarrow> [] | Some m \<Rightarrow> m)) (w_clients s)"
proof -
  have "AList.update t m (AList.update t [] al) = AList.update t m al" for m al
    by (induction al) auto
  then show ?thesis
    by (simp add: RegisterSubscription_def Let_def update_conv split: option.split)
qed

interpretation table: subscription_table FindSubscription RegisterSubscription keep_running
  table_entries "\<lambda>s. w_clients s = []"
proof
  show "FindSubscription k' t' (RegisterSubscription k t a w)
    = (if k' = k \<and> t' = t then Some a else FindSubscription k' t' w)" for k' t' k t a w
    by (auto simp: FindSubscription_def register_clients update_conv split: option.splits)
  show "FindSubscription k t w = Some a \<Longrightarrow> (t, k, a) \<in> table_entries w" for k t w a
    by (auto simp: FindSubscription_def table_entries_def split: option.splits dest!: map_of_SomeD)
  show "table_entries (RegisterSubscription k t a w) \<subseteq> insert (t, k, a) (table_entries w)" for k t a w
  proof -
    let ?m = "case map_of (w_clients w) t of None \<Rightarrow> [] | Some m \<Rightarrow> m"
    have "(t', m') \<in> set (w_clients (RegisterSubscription k t a w)) \<Longrightarrow>
        (t', m') \<in> set (w_clients w) \<or> t' = t \<and> m' = AList.update k a ?m" for t' m'
      using set_update_subset [of t "AList.update k a ?m" "w_clients w"] by (auto simp: register_clients)
    moreover have "(k', a') \<in> set (AList.update k a ?m) \<Longrightarrow>
        (k', a') = (k, a) \<or> (t, k', a') \<in> table_entries w" for k' a'
      using set_update_subset [of k a ?m] map_of_SomeD [of "w_clients w" t]
      by (fastforce simp: table_entries_def split: option.splits)
    ultimately show ?thesis by (fastforce simp: table_entries_def)
  qed
  show "table_entries (keep_running P w) = {(t, k, a) \<in> table_entries w. P a}" for P w
    by (fastforce simp: table_entries_def keep_running_def)
qed (simp add: table_entries_def)

subsection \<open>What a worker hands to the kernel\<close>

abbreviation wire :: "Packet \<Rightarrow> bytes" where
  "wire p \<equiv> packet_bytes p @ [0, 0]"

definition good_sent :: "sent \<Rightarrow> bool" where
  "good_sent x \<longleftrightarrow> (\<exists>p. wf_packet p \<and> sent_bytes x = wire p)"

lemma good_sent_decodes: "good_sent x \<Longrightarrow> \<exists>p. DecodePacket (sent_bytes x) = Some (Inr p) \<and> wf_packet p"
  using DecodePacket_eq by (auto simp: good_sent_def)

lemma BytesTo_sendable:
  assumes "sendable p" and "length buf = 128"
  shows "\<exists>rest. BytesTo p buf = Some (wire p @ rest, length (packet_bytes p) + 2, None)
    \<and> length (wire p @ rest) = 128"
proof -
  have "BytesTo p buf = Some (packet_bytes p @ [0, 0] @ drop (length (packet_bytes p) + 2) buf,
      length (packet_bytes p) + 2, None)"
    using assms wf_packet_marshals by (intro BytesTo_eq) (auto simp: sendable_def)
  moreover have "length (packet_bytes p) \<le> 64" using assms by (simp add: sendable_def)
  ultimately show ?thesis using assms(2) by auto
qed

text \<open>The two send functions on a packet that can be sent, every answer of the kernel included.\<close>

lemma send_general_eq:
  assumes "sendable p" and "length (w_buf s) = 128"
  shows "\<exists>buf. length buf = 128 \<and> send_general io p sa s = Some (s\<lparr>w_buf := buf\<rparr>,
    if io_general io = SendOk
    then [\<lparr>sent_sock = GeneralSock, sent_bytes = wire p, sent_to = sa, sent_seq = None\<rparr>] else [],
    io_general io = SendOk)"
proof -
  obtain rest where "BytesTo p (w_buf s) = Some (wire p @ rest, length (packet_bytes p) + 2, None)"
    and "length (wire p @ rest) = 128"
    using BytesTo_sendable [OF assms] by blast
  then show ?thesis by (intro exI [of _ "wire p @ rest"]) (simp add: send_general_def Let_def)
qed

definition sync_sent :: "bool \<Rightarrow> SubscriptionClient \<Rightarrow> sent" where
  "sync_sent older c = \<lparr>sent_sock = EventSock, sent_bytes = wire (PSyncDelayReq (sc_syncP c)),
     sent_to = sc_eclisa c,
     sent_seq = (if older then None else Some (ucast (SequenceID (sync_Header (sc_syncP c)))))\<rparr>"

definition timed_stats :: "worker_io \<Rightarrow> u8 \<Rightarrow> int \<Rightarrow> JSONStats \<Rightarrow> JSONStats" where
  "timed_stats io txType wid stats =
     (let stats = SetMaxTXTSAttempts wid (fst (snd (io_txts io))) (IncTX txType stats)
      in if snd (snd (io_txts io)) then IncTXTSMissing stats else stats)"

definition tx_time :: "Config \<Rightarrow> bool \<Rightarrow> worker_io \<Rightarrow> time" where
  "tx_time cfg older io = (if older \<and> TimestampType (cfg_static cfg) \<noteq> HW
     then fst (io_txts io) + UTCOffset (cfg_dynamic cfg) else fst (io_txts io))"

lemma send_timed_eq:
  assumes "sendable (PSyncDelayReq (sc_syncP c))" and "length (w_buf s) = 128"
  shows "\<exists>buf. length buf = 128 \<and> send_timed cfg io txType c s stats = Some
    (if io_event io = SendOk
     then (s\<lparr>w_buf := buf\<rparr>, timed_stats io txType (w_id s) stats, [sync_sent (w_olderKernel s) c],
           if snd (snd (io_txts io)) then None else Some (tx_time cfg (w_olderKernel s) io))
     else (s\<lparr>w_buf := buf, w_olderKernel := w_olderKernel s \<or> io_event io = SendEINVAL\<rparr>, stats, [], None))"
proof -
  obtain rest where b: "BytesTo (PSyncDelayReq (sc_syncP c)) (w_buf s)
      = Some (wire (PSyncDelayReq (sc_syncP c)) @ rest, length (packet_bytes (PSyncDelayReq (sc_syncP c))) + 2, None)"
    and l: "length (wire (PSyncDelayReq (sc_syncP c)) @ rest) = 128"
    using BytesTo_sendable [OF assms] by blast
  obtain t n f where io: "io_txts io = (t, n, f)" by (cases "io_txts io") auto
  show ?thesis
    using b l by (intro exI [of _ "wire (PSyncDelayReq (sc_syncP c)) @ rest"])
      (cases s, auto simp: send_timed_def io sync_sent_def timed_stats_def tx_time_def Let_def)
qed

lemma general_branch_eq:
  assumes "sendable (packet (h ! a))" and "length (w_buf s) = 128"
  shows "\<exists>buf. length buf = 128 \<and> general_branch cfg io a packet txType out s h stats = Some
    (if io_general io = SendOk
     then (s\<lparr>w_buf := buf\<rparr>, h[a := IncSequenceID (h ! a)],
           SetMaxWorkerQueue (w_id s) (chan_len cfg (w_queue s)) (IncTX txType stats),
           out @ [\<lparr>sent_sock = GeneralSock, sent_bytes = wire (packet (h ! a)),
                   sent_to = sc_gclisa (h ! a), sent_seq = None\<rparr>])
     else (s\<lparr>w_buf := buf\<rparr>, h, stats, out))"
  using send_general_eq [OF assms, of io "sc_gclisa (h ! a)"]
  by (auto simp: general_branch_def finish_send_def)

subsection \<open>What a worker leaves alone\<close>

text \<open>
  A client changes steadily when it keeps its worker, its type and, once it has them, its grant and
  well-formed packets; a heap grows steadily when its clients do and new ones are well-formed.
\<close>

definition steady :: "SubscriptionClient \<Rightarrow> SubscriptionClient \<Rightarrow> bool" where
  "steady c c' \<longleftrightarrow> sc_worker c' = sc_worker c \<and> sc_subscriptionType c' = sc_subscriptionType c
     \<and> (granted c \<longrightarrow> granted c') \<and> (wf_client c \<longrightarrow> wf_client c')"

definition heap_le :: "heap \<Rightarrow> heap \<Rightarrow> bool" where
  "heap_le h h' \<longleftrightarrow> length h \<le> length h' \<and> (\<forall>i < length h. steady (h ! i) (h' ! i))
     \<and> (\<forall>i < length h'. length h \<le> i \<longrightarrow> wf_client (h' ! i))"

lemma steady_refl [simp]: "steady c c"
  by (simp add: steady_def)

lemma steady_trans: "steady a b \<Longrightarrow> steady b c \<Longrightarrow> steady a c"
  by (simp add: steady_def)

lemma steady_updates [simp]:
  "steady c (UpdateSync c)" "steady c (UpdateFollowup l t c)" "steady c (UpdateAnnounce l cf c)"
  "steady c (UpdateAnnounceFollowUp t c)" "steady c (UpdateSyncDelayReq t q c)"
  "steady c (UpdateAnnounceDelayReq cfg co q c)" "steady c (UpdateDelayResp h t c)"
  "steady c (IncSequenceID c)"
  by (simp_all add: steady_def IncSequenceID_def)

lemma heap_le_refl [simp]: "heap_le h h"
  by (simp add: heap_le_def)

lemma heap_le_trans:
  assumes "heap_le h1 h2" and "heap_le h2 h3"
  shows "heap_le h1 h3"
  unfolding heap_le_def
proof (intro conjI allI impI)
  fix i
  show "i < length h1 \<Longrightarrow> steady (h1 ! i) (h3 ! i)"
    using assms steady_trans unfolding heap_le_def by (meson order_less_le_trans)
  assume "i < length h3" "length h1 \<le> i"
  then show "wf_client (h3 ! i)"
    using assms by (cases "i < length h2") (auto simp: heap_le_def steady_def)
qed (use assms in \<open>auto simp: heap_le_def\<close>)

lemma heap_le_update: "steady (h ! a) c \<Longrightarrow> heap_le h (h[a := c])"
  by (cases "a < length h") (auto simp: heap_le_def nth_list_update)

lemma heap_le_updateI: "heap_le h h' \<Longrightarrow> steady (h' ! a) c \<Longrightarrow> heap_le h (h'[a := c])"
  using heap_le_trans heap_le_update by blast

lemma heap_le_wf:
  assumes "heap_le h h'" and "\<forall>c \<in> set h. wf_client c"
  shows "\<forall>c \<in> set h'. wf_client c"
proof
  fix c
  assume "c \<in> set h'"
  then obtain i where i: "i < length h'" "c = h' ! i" by (metis in_set_conv_nth)
  show "wf_client c"
    using i assms by (cases "i < length h") (auto simp: heap_le_def steady_def)
qed

lemma heap_le_new: "wf_client c \<Longrightarrow> heap_le h (h @ [c])"
  by (auto simp: heap_le_def nth_append)

definition worker_frame :: "sendWorker \<Rightarrow> sendWorker \<Rightarrow> bool" where
  "worker_frame s s' \<longleftrightarrow> w_id s' = w_id s \<and> w_queue s' = w_queue s
     \<and> w_signalingQueue s' = w_signalingQueue s \<and> w_clients s' = w_clients s
     \<and> length (w_buf s') = 128 \<and> (w_olderKernel s \<longrightarrow> w_olderKernel s')"

text \<open>A turn that succeeds, keeps the frame, changes the heap steadily and sends good packets.\<close>

definition turn_ok :: "sendWorker \<Rightarrow> heap \<Rightarrow> worker_result option \<Rightarrow> bool" where
  "turn_ok s h r \<longleftrightarrow> (\<exists>s' h' stats' out. r = Some (s', h', stats', out) \<and> worker_frame s s'
     \<and> length h' = length h \<and> heap_le h h' \<and> map sc_running h' = map sc_running h
     \<and> (\<forall>x \<in> set out. good_sent x))"

lemma map_running_update:
  "sc_running c = sc_running (h ! a) \<Longrightarrow> map sc_running (h[a := c]) = map sc_running h"
  by (cases "a < length h") (simp_all add: map_update list_update_same_conv list_update_beyond)

lemma running_updates [simp]:
  "sc_running (UpdateSync c) = sc_running c" "sc_running (UpdateFollowup l t c) = sc_running c"
  "sc_running (UpdateAnnounce l cf c) = sc_running c" "sc_running (UpdateAnnounceFollowUp t c) = sc_running c"
  "sc_running (UpdateSyncDelayReq t q c) = sc_running c" "sc_running (UpdateAnnounceDelayReq cf co q c) = sc_running c"
  "sc_running (UpdateDelayResp h t c) = sc_running c" "sc_running (IncSequenceID c) = sc_running c"
  "sc_running (UpdateSignalingGrant sg mt i d c) = sc_running c"
  by (simp_all add: packet_updates IncSequenceID_def UpdateSignalingGrant_def Let_def)

lemma good_sentI: "sendable p \<Longrightarrow> sent_bytes x = wire p \<Longrightarrow> good_sent x"
  by (auto simp: good_sent_def sendable_def)

lemma general_branch_ok:
  assumes "sendable (packet (h' ! a))" and "length (w_buf s') = 128" and "heap_le h h'"
    and "length h' = length h" and "worker_frame s s'" and "\<forall>x \<in> set out. good_sent x"
    and "map sc_running h' = map sc_running h"
  shows "turn_ok s h (general_branch cfg io a packet txType out s' h' stats)"
proof -
  have "good_sent \<lparr>sent_sock = GeneralSock, sent_bytes = wire (packet (h' ! a)),
      sent_to = sc_gclisa (h' ! a), sent_seq = None\<rparr>"
    using assms(1) by (rule good_sentI) simp
  moreover have "heap_le h (h'[a := IncSequenceID (h' ! a)])"
    using assms(3) by (rule heap_le_updateI) simp
  ultimately show ?thesis
    using general_branch_eq [of packet h' a s' cfg io txType out stats] assms
    by (auto simp: turn_ok_def worker_frame_def map_running_update)
qed

lemma sync_sent_good: "sendable (PSyncDelayReq (sc_syncP c)) \<Longrightarrow> good_sent (sync_sent older c)"
  by (rule good_sentI) (auto simp: sync_sent_def)

text \<open>A Sync with its timestamp, followed by a packet of the general socket when it has one.\<close>

lemma timed_branch_ok:
  assumes "sendable (PSyncDelayReq (sc_syncP (h' ! a)))" and "length (w_buf s) = 128"
    and "heap_le h h'" and "length h' = length h"
    and "\<And>t. sendable (packet (f t (h' ! a)))" and "\<And>t c. steady c (f t c)" and "a < length h'"
    and "map sc_running h' = map sc_running h" and "\<And>t c. sc_running (f t c) = sc_running c"
  shows "turn_ok s h (case send_timed cfg io tx1 (h' ! a) s stats of
      None \<Rightarrow> None
    | Some (s, stats, out, None) \<Rightarrow> Some (s, h', stats, out)
    | Some (s, stats, out, Some txTS) \<Rightarrow>
        general_branch cfg io a packet tx2 out s (h'[a := f txTS (h' ! a)]) stats)"
proof -
  obtain buf where "length buf = 128" and e: "send_timed cfg io tx1 (h' ! a) s stats = Some
    (if io_event io = SendOk
     then (s\<lparr>w_buf := buf\<rparr>, timed_stats io tx1 (w_id s) stats, [sync_sent (w_olderKernel s) (h' ! a)],
           if snd (snd (io_txts io)) then None else Some (tx_time cfg (w_olderKernel s) io))
     else (s\<lparr>w_buf := buf, w_olderKernel := w_olderKernel s \<or> io_event io = SendEINVAL\<rparr>, stats, [], None))"
    using send_timed_eq [OF assms(1,2)] by blast
  moreover have "worker_frame s (s\<lparr>w_buf := buf\<rparr>)"
    "worker_frame s (s\<lparr>w_buf := buf, w_olderKernel := w_olderKernel s \<or> io_event io = SendEINVAL\<rparr>)"
    using \<open>length buf = 128\<close> by (simp_all add: worker_frame_def)
  moreover have "heap_le h (h'[a := f t (h' ! a)])" for t
    using assms(3,6) by (rule heap_le_updateI)
  ultimately show ?thesis
    using assms
    by (auto simp: turn_ok_def [of _ _ "Some _"] sync_sent_good map_running_update intro!: general_branch_ok)
qed

lemma worker_queue_step_ok:
  assumes "\<forall>c \<in> set h. wf_client c" and "a < length h" and "length (w_buf s) = 128"
  shows "turn_ok s h (worker_queue_step log2i cfg io a s h stats)"
proof -
  have c: "wf_client (h ! a)" using assms(1,2) by simp
  have "worker_frame s s" using assms(3) by (simp add: worker_frame_def)
  moreover have "heap_le h (h[a := UpdateSync (h ! a)])" by (rule heap_le_update) simp
  moreover have "heap_le h (h[a := UpdateAnnounce log2i cfg (h ! a)])" by (rule heap_le_update) simp
  moreover have "turn_ok s h (Some (s, h, stats, []))"
    using assms(3) by (simp add: turn_ok_def worker_frame_def)
  moreover have "turn_ok s h (let h = h[a := UpdateSync (h ! a)] in
      case send_timed cfg io MessageSync (h ! a) s stats of
        None \<Rightarrow> None
      | Some (s, stats, out, None) \<Rightarrow> Some (s, h, stats, out)
      | Some (s, stats, out, Some txTS) \<Rightarrow>
          general_branch cfg io a (\<lambda>c. PFollowUp (sc_followupP c)) MessageFollowUp out s
            (h[a := UpdateFollowup log2i txTS (h ! a)]) stats)"
    unfolding Let_def using c assms(2,3)
    by (intro timed_branch_ok) (simp_all add: wf_client_sendable heap_le_update map_running_update)
  ultimately show ?thesis
    unfolding worker_queue_step_def
    using c assms(2,3)
    by (auto simp: Let_def map_running_update intro!: timed_branch_ok general_branch_ok wf_client_sendable)
qed

lemma worker_signaling_step_ok:
  assumes "\<forall>c \<in> set h. wf_client c" and "a < length h" and "granted (h ! a)" and "length (w_buf s) = 128"
  shows "turn_ok s h (worker_signaling_step io a s h stats)"
proof -
  have s: "sendable (PSignaling (sc_signaling (h ! a)))" using assms by (simp add: wf_client_sendable)
  then show ?thesis
    using send_general_eq [OF s assms(4), of io "sc_gclisa (h ! a)"] assms(4)
    by (auto simp: worker_signaling_step_def turn_ok_def worker_frame_def intro!: good_sentI)
qed

subsection \<open>Properties of the send branches\<close>

definition sample_config :: Config where
  "sample_config = \<lparr>cfg_static = sample_static, cfg_dynamic = NewDefaultDynamicConfig, cfg_clockIdentity = 7\<rparr>"

definition sample_client :: "u8 \<Rightarrow> SubscriptionClient" where
  "sample_client st = NewSubscriptionClient 0 (SockaddrInet4 319 [10, 0, 0, 9]) (SockaddrInet4 320 [10, 0, 0, 9])
     st sample_config Second (10 * Second) 0"

lemma sample_client_type [simp]: "sc_subscriptionType (sample_client st) = st"
  "sc_sequenceID (sample_client st) = 0"
  by (simp_all add: sample_client_def)

lemma sample_client_wf [simp]: "wf_client (sample_client st)"
  by (simp add: sample_client_def wf_client_new)

text \<open>Serving a Sync subscription whose packets are well-formed, when the kernel accepts both and returns a
  timestamp, sends exactly two packets: a Sync to the event address and a Follow\_Up to the general
  address, which decode, carry the subscription's sequence number, and the Follow\_Up the transmit
  time of the Sync (with the UTC offset added on the older path for software timestamps); then the
  sequence number advances by one modulo 65536.\<close>

lemma sync_turn:
  assumes "wf_client (h ! a)" and "a < length h" and "sc_subscriptionType (h ! a) = MessageSync"
    and "length (w_buf s) = 128"
    and "io_event io = SendOk" and "io_txts io = (t, n, False)" and "io_general io = SendOk"
  shows "\<exists>s' h' stats' e g p q. worker_queue_step log2i cfg io a s h stats = Some (s', h', stats', [e, g])
    \<and> sent_sock e = EventSock \<and> sent_seq e = (if w_olderKernel s then None else Some (ucast (sc_sequenceID (h ! a)))) \<and> sent_to e = sc_eclisa (h ! a)
    \<and> DecodePacket (sent_bytes e) = Some (Inr (PSyncDelayReq p))
    \<and> sent_sock g = GeneralSock \<and> sent_to g = sc_gclisa (h ! a)
    \<and> DecodePacket (sent_bytes g) = Some (Inr (PFollowUp q))
    \<and> SequenceID (sync_Header p) = sc_sequenceID (h ! a)
    \<and> SequenceID (fup_Header q) = sc_sequenceID (h ! a)
    \<and> PreciseOriginTimestamp q = NewTimestamp (tx_time cfg (w_olderKernel s) io)
    \<and> sc_sequenceID (h' ! a) = sc_sequenceID (h ! a) + 1"
proof -
  let ?c = "UpdateSync (h ! a)" and ?h = "h[a := UpdateSync (h ! a)]"
  let ?f = "UpdateFollowup log2i (tx_time cfg (w_olderKernel s) io) (?h ! a)"
  have c: "sendable (PSyncDelayReq (sc_syncP (?h ! a)))" and f: "sendable (PFollowUp (sc_followupP ?f))"
    using assms(1,2) by (simp_all add: wf_client_sendable)
  obtain buf where b: "length buf = 128" and e: "send_timed cfg io MessageSync (?h ! a) s stats =
      Some (s\<lparr>w_buf := buf\<rparr>, timed_stats io MessageSync (w_id s) stats, [sync_sent (w_olderKernel s) (?h ! a)],
        Some (tx_time cfg (w_olderKernel s) io))"
    using send_timed_eq [OF c assms(4), of cfg io MessageSync stats] assms(5,6) by auto
  have f': "sendable (PFollowUp (sc_followupP (?h[a := ?f] ! a)))" using f assms(2) by simp
  obtain s' h' stats' where g: "general_branch cfg io a (\<lambda>c. PFollowUp (sc_followupP c)) MessageFollowUp
        [sync_sent (w_olderKernel s) (?h ! a)] (s\<lparr>w_buf := buf\<rparr>) (?h[a := ?f])
        (timed_stats io MessageSync (w_id s) stats) = Some (s', h', stats',
        [sync_sent (w_olderKernel s) (?h ! a), \<lparr>sent_sock = GeneralSock,
          sent_bytes = wire (PFollowUp (sc_followupP ?f)), sent_to = sc_gclisa ?f, sent_seq = None\<rparr>])"
    and h': "h' ! a = IncSequenceID ?f"
    using general_branch_eq [of "\<lambda>c. PFollowUp (sc_followupP c)", OF f', of "s\<lparr>w_buf := buf\<rparr>" cfg io MessageFollowUp
      "[sync_sent (w_olderKernel s) (?h ! a)]" "timed_stats io MessageSync (w_id s) stats"] b assms(2,7) by auto
  have "worker_queue_step log2i cfg io a s h stats = Some (s', h', stats',
        [sync_sent (w_olderKernel s) (?h ! a), \<lparr>sent_sock = GeneralSock,
          sent_bytes = wire (PFollowUp (sc_followupP ?f)), sent_to = sc_gclisa ?f, sent_seq = None\<rparr>])"
    using e g assms(3) by (simp add: worker_queue_step_def Let_def)
  moreover have "DecodePacket (wire (PSyncDelayReq (sc_syncP ?c))) = Some (Inr (PSyncDelayReq (sc_syncP ?c)))"
    "DecodePacket (wire (PFollowUp (sc_followupP ?f))) = Some (Inr (PFollowUp (sc_followupP ?f)))"
    using c f assms(2) by (simp_all add: DecodePacket_eq sendable_def)
  moreover have "SequenceID (sync_Header (sc_syncP ?c)) = sc_sequenceID (h ! a)"
    "SequenceID (fup_Header (sc_followupP ?f)) = sc_sequenceID (h ! a)"
    "PreciseOriginTimestamp (sc_followupP ?f) = NewTimestamp (tx_time cfg (w_olderKernel s) io)"
    "sc_gclisa ?f = sc_gclisa (h ! a)" "sc_eclisa ?c = sc_eclisa (h ! a)"
    "sc_sequenceID (h' ! a) = sc_sequenceID (h ! a) + 1"
    using assms(2) h' by (simp_all add: packet_updates Let_def IncSequenceID_def)
  ultimately show ?thesis
    by (intro exI [of _ s'] exI [of _ h'] exI [of _ stats'] exI conjI) (auto simp: sync_sent_def assms(2))
qed

lemma sync_turn_example:
  "\<exists>s' h' stats' e g. worker_queue_step log2_ideal sample_config
       \<lparr>io_event = SendOk, io_txts = (5 * Second, 1, False), io_general = SendOk\<rparr> 0 (newSendWorker 0)
       [sample_client MessageSync] NewJSONStats = Some (s', h', stats', [e, g])
     \<and> sent_to e = sc_eclisa (sample_client MessageSync) \<and> sc_sequenceID (h' ! 0) = 1"
  using sync_turn [of "[sample_client MessageSync]" 0 "newSendWorker 0"
    "\<lparr>io_event = SendOk, io_txts = (5 * Second, 1, False), io_general = SendOk\<rparr>" "5 * Second" 1
    log2_ideal sample_config NewJSONStats]
  by (auto simp: newSendWorker_def)

text \<open>When the transmit timestamp of a Sync cannot be read, no Follow\_Up is sent, the sequence number stays,
  and the missing timestamp is recorded.\<close>

lemma sync_without_timestamp:
  assumes "wf_client (h ! a)" and "a < length h" and "sc_subscriptionType (h ! a) = MessageSync"
    and "length (w_buf s) = 128" and "io_event io = SendOk" and "snd (snd (io_txts io))"
  shows "\<exists>s' h' stats' e. worker_queue_step log2i cfg io a s h stats = Some (s', h', stats', [e])
    \<and> sent_sock e = EventSock \<and> sc_sequenceID (h' ! a) = sc_sequenceID (h ! a)
    \<and> txtsMissing (js_counters stats') = 1"
proof -
  let ?h = "h[a := UpdateSync (h ! a)]"
  have c: "sendable (PSyncDelayReq (sc_syncP (?h ! a)))"
    using assms(1,2) by (simp_all add: wf_client_sendable)
  obtain buf where "send_timed cfg io MessageSync (?h ! a) s stats =
      Some (s\<lparr>w_buf := buf\<rparr>, timed_stats io MessageSync (w_id s) stats, [sync_sent (w_olderKernel s) (?h ! a)], None)"
    using send_timed_eq [OF c assms(4), of cfg io MessageSync stats] assms(5,6) by auto
  then show ?thesis
    using assms(2,3,6)
    by (auto simp: worker_queue_step_def Let_def sync_sent_def timed_stats_def packet_updates IncTXTSMissing_def)
qed

lemma sync_without_timestamp_witness:
  "\<exists>s' h' stats' e. worker_queue_step log2_ideal sample_config
       \<lparr>io_event = SendOk, io_txts = (0, 100, True), io_general = SendOk\<rparr> 0 (newSendWorker 0)
       [sample_client MessageSync] NewJSONStats = Some (s', h', stats', [e])
     \<and> txtsMissing (js_counters stats') = 1"
  using sync_without_timestamp [of "[sample_client MessageSync]" 0 "newSendWorker 0"
    "\<lparr>io_event = SendOk, io_txts = (0, 100, True), io_general = SendOk\<rparr>"
    log2_ideal sample_config NewJSONStats]
  by (auto simp: newSendWorker_def)

text \<open>When the kernel rejects the control message of a timed packet, nothing is sent or counted, the sequence
  number stays, and the worker uses the older way of reading timestamps from then on.\<close>

lemma older_kernel_fallback:
  assumes "wf_client (h ! a)" and "a < length h"
    and "sc_subscriptionType (h ! a) = MessageSync \<or> sc_subscriptionType (h ! a) = MessageDelayReq"
    and "length (w_buf s) = 128" and "io_event io = SendEINVAL"
  shows "\<exists>s' h'. worker_queue_step log2i cfg io a s h stats = Some (s', h', stats, [])
    \<and> w_olderKernel s' \<and> sc_sequenceID (h' ! a) = sc_sequenceID (h ! a)"
proof -
  have c: "sendable (PSyncDelayReq (sc_syncP (h[a := UpdateSync (h ! a)] ! a)))"
    "sendable (PSyncDelayReq (sc_syncP (h ! a)))"
    using assms(1,2) by (simp_all add: wf_client_sendable)
  show ?thesis
    using send_timed_eq [OF c(1) assms(4), of cfg io MessageSync stats]
      send_timed_eq [OF c(2) assms(4), of cfg io MessageSync stats] assms(2,3,5)
    by (auto simp: worker_queue_step_def Let_def packet_updates)
qed

lemma older_kernel_fallback_witness:
  "\<exists>s' h'. worker_queue_step log2_ideal sample_config
       \<lparr>io_event = SendEINVAL, io_txts = (0, 0, True), io_general = SendOk\<rparr> 0 (newSendWorker 0)
       [sample_client MessageDelayReq] NewJSONStats = Some (s', h', NewJSONStats, []) \<and> w_olderKernel s'"
  using older_kernel_fallback [of "[sample_client MessageDelayReq]" 0 "newSendWorker 0"
    "\<lparr>io_event = SendEINVAL, io_txts = (0, 0, True), io_general = SendOk\<rparr>"
    log2_ideal sample_config NewJSONStats]
  by (auto simp: newSendWorker_def)

subsection \<open>The inventory counts\<close>

definition running_entries :: "heap \<Rightarrow> sendWorker \<Rightarrow> nat" where
  "running_entries h s =
     sum_list (map (\<lambda>(st, subs). length (filter (\<lambda>(k, a). sc_running (h ! a)) subs)) (w_clients s))"

lemma inventory_subs_stats:
  "snd (inventory_subs h wid st subs stats) =
     run_stats (concat (replicate (length (filter (\<lambda>(k, a). sc_running (h ! a)) subs))
       [OpIncSubscription st, OpIncWorkerSubs wid])) stats"
  by (induction subs arbitrary: stats) (auto simp: Let_def case_prod_beta)

fun inventory_ops :: "heap \<Rightarrow> int \<Rightarrow> (u8 \<times> (PortIdentity \<times> addr) list) list \<Rightarrow> stats_op list" where
  "inventory_ops h wid [] = []"
| "inventory_ops h wid ((st, subs) # clients) =
     concat (replicate (length (filter (\<lambda>(k, a). sc_running (h ! a)) subs))
       [OpIncSubscription st, OpIncWorkerSubs wid]) @ inventory_ops h wid clients"

lemma inventory_types_stats:
  "snd (inventory_types h wid clients stats) = run_stats (inventory_ops h wid clients) stats"
proof (induction clients arbitrary: stats)
  case (Cons c clients)
  then show ?case
    using inventory_subs_stats [of h wid "fst c" "snd c"] by (cases c) (simp add: Let_def case_prod_beta)
qed simp

lemma inventoryClients_stats:
  "snd (inventoryClients h s stats) = run_stats (inventory_ops h (w_id s) (w_clients s)) stats"
  using inventory_types_stats [of h "w_id s" "w_clients s"]
  by (simp add: inventoryClients_def case_prod_beta)

lemma inventory_ops_delta:
  "OpReset \<notin> set (inventory_ops h wid clients)"
  "sum_list (map (delta FWorkerSubs wid) (inventory_ops h wid clients)) =
     int (sum_list (map (\<lambda>(st, subs). length (filter (\<lambda>(k, a). sc_running (h ! a)) subs)) clients))"
proof -
  have "OpReset \<notin> set (concat (replicate n [OpIncSubscription st, OpIncWorkerSubs wid]))"
    "sum_list (map (delta FWorkerSubs wid) (concat (replicate n [OpIncSubscription st, OpIncWorkerSubs wid]))) = int n"
    for n st by (induction n) (simp_all add: delta_def)
  then show "OpReset \<notin> set (inventory_ops h wid clients)"
    "sum_list (map (delta FWorkerSubs wid) (inventory_ops h wid clients)) =
     int (sum_list (map (\<lambda>(st, subs). length (filter (\<lambda>(k, a). sc_running (h ! a)) subs)) clients))"
    by (induction h wid clients rule: inventory_ops.induct) simp_all
qed

lemma keep_running_idem [simp]: "keep_running P (keep_running P s) = keep_running P s"
  by (simp add: keep_running_def comp_def split_def)

lemma running_entries_keep [simp]: "running_entries h (keep_running (\<lambda>a. sc_running (h ! a)) s) = running_entries h s"
  by (simp add: running_entries_def keep_running_def comp_def split_def)

lemma w_id_keep [simp]: "w_id (keep_running P s) = w_id s"
  by (simp add: keep_running_def)

lemma inventory_once:
  assumes "int64_range (sm_load (workerSubs (js_counters stats)) (w_id s))"
  shows "sm_load (workerSubs (js_counters (snd (inventoryClients h s stats)))) (w_id s) =
    wrap64 (sm_load (workerSubs (js_counters stats)) (w_id s) + int (running_entries h s))"
  using run_stats_delta [of FWorkerSubs "inventory_ops h (w_id s) (w_clients s)" stats "w_id s"] assms
  by (simp add: inventoryClients_stats inventory_ops_delta running_entries_def)

text \<open>C33: the inventory of a worker keeps exactly the running subscriptions, and right after a reset it sets the
  worker's subscription gauge to their number.\<close>

theorem inventory_exact:
  "table_entries (fst (inventoryClients h s stats)) = {(t, k, a) \<in> table_entries s. sc_running (h ! a)}
   \<and> sm_load (workerSubs (js_counters (snd (inventoryClients h s (Stats_Reset stats))))) (w_id s)
       = wrap64 (int (running_entries h s))"
proof -
  have "sm_load (workerSubs (js_counters (Stats_Reset stats))) (w_id s) = 0"
    using sel_reset [of FWorkerSubs stats] by (simp add: smap.load_reset)
  then show ?thesis
    using inventory_once [of "Stats_Reset stats" s h]
    by (simp add: inventoryClients_eq table.entries_restrict int64_range_def)
qed

text \<open>The gauge is incremented, not set: \<open>n\<close> inventories without a reset in between, as the ten
  rounds of a drain are, report \<open>n\<close> times the number of running subscriptions.\<close>

lemma repeated_inventory_inflates:
  "sm_load (workerSubs (js_counters (snd
       (((\<lambda>(s, stats). inventoryClients h s stats) ^^ n) (s, Stats_Reset stats))))) (w_id s)
   = wrap64 (int n * int (running_entries h s))"
proof -
  have "sm_load (workerSubs (js_counters (Stats_Reset stats))) (w_id s) = 0"
    using sel_reset [of FWorkerSubs stats] by (simp add: smap.load_reset)
  moreover have "let r = ((\<lambda>(s, stats). inventoryClients h s stats) ^^ n) (s, Stats_Reset stats) in
      (fst r = s \<or> fst r = keep_running (\<lambda>a. sc_running (h ! a)) s)
      \<and> sm_load (workerSubs (js_counters (snd r))) (w_id s) = wrap64 (int n * int (running_entries h s))"
  proof (induction n)
    case 0
    then show ?case using calculation by (simp add: int64_range_def)
  next
    case (Suc n)
    obtain s1 st1 where r: "((\<lambda>(s, stats). inventoryClients h s stats) ^^ n) (s, Stats_Reset stats) = (s1, st1)"
      by (cases "((\<lambda>(s, stats). inventoryClients h s stats) ^^ n) (s, Stats_Reset stats)")
    then have "w_id s1 = w_id s" "running_entries h s1 = running_entries h s"
      "keep_running (\<lambda>a. sc_running (h ! a)) s1 = keep_running (\<lambda>a. sc_running (h ! a)) s"
      using Suc by (auto simp: Let_def)
    then show ?case
      using Suc r inventory_once [of st1 s1 h]
        wrap64_add [of "int n * int (running_entries h s)" "int (running_entries h s)"]
      by (simp add: Let_def inventoryClients_eq wrap64_range algebra_simps)
  qed
  ultimately show ?thesis by (simp add: Let_def)
qed

end
