(* ===== verification/Ptp_Server.thy ===== *)
theory Ptp_Server
  imports Ptp_Worker
begin

section \<open>The server (\<^verbatim>\<open>src/server/server.go\<close>)\<close>

text \<open>
  The server's state, one function per iteration of each of its goroutines (the event and the general
  handler, the timer loop of a subscription, the send workers, the drain check, the metric loop, the
  SIGHUP handler), and the runs of the whole system as sequences of such iterations in any order.
  A send on a channel appends to it: the model does not bound the channels, so an iteration that
  would wait for room goes on.
\<close>

subsection \<open>State\<close>

text \<open>
  Contexts are numbered; \<open>sv_ctxs\<close> says which are cancelled and \<open>sv_ctx\<close> is the one
  \<^verbatim>\<open>s.ctx\<close> points to, set before any goroutine starts. \<open>sv_spawned\<close> holds the
  goroutines created by \<^verbatim>\<open>go sc.Start(ctx)\<close> that have not run yet and \<open>sv_loops\<close> those in their
  loop, as pairs of client and context. \<open>sv_sent\<close> records the packets handed to the kernel.
\<close>

record Server =
  sv_Config :: Config
  sv_Stats :: JSONStats
  sv_Checks :: "FileDrain list"
  sv_sw :: "sendWorker list"
  sv_heap :: heap
  sv_ctxs :: "bool list"
  sv_ctx :: nat
  sv_spawned :: "(addr \<times> nat) list"
  sv_loops :: "(addr \<times> nat) list"
  sv_sent :: "sent list"

text \<open>
  The hash function with its random seed, the floating-point operations of the log intervals, and
  the operating system.
\<close>

record server_env =
  env_hash :: "bytes \<Rightarrow> u64"
  env_log2i :: "duration \<Rightarrow> int"
  env_oor :: int
  env_cfg :: config_env

abbreviation subscriptionDuration :: duration where
  "subscriptionDuration \<equiv> Minute * 5"

definition ctx_Err :: "Server \<Rightarrow> bool" where
  "ctx_Err s = sv_ctxs s ! sv_ctx s"

definition on_client :: "addr \<Rightarrow> (SubscriptionClient \<Rightarrow> SubscriptionClient) \<Rightarrow> Server \<Rightarrow> Server" where
  "on_client a f s = s\<lparr>sv_heap := (sv_heap s)[a := f (sv_heap s ! a)]\<rparr>"

definition on_worker :: "nat \<Rightarrow> (sendWorker \<Rightarrow> sendWorker) \<Rightarrow> Server \<Rightarrow> Server" where
  "on_worker w f s = s\<lparr>sv_sw := (sv_sw s)[w := f (sv_sw s ! w)]\<rparr>"

definition on_stats :: "(JSONStats \<Rightarrow> JSONStats) \<Rightarrow> Server \<Rightarrow> Server" where
  "on_stats f s = s\<lparr>sv_Stats := f (sv_Stats s)\<rparr>"

text \<open>\<^verbatim>\<open>Once\<close> and \<^verbatim>\<open>OnceSignaling\<close>: the channels are those of the client's worker.\<close>

fun push :: "addr \<Rightarrow> enqueue \<Rightarrow> Server \<Rightarrow> Server" where
  "push a ToQueue s =
     on_worker (sc_worker (sv_heap s ! a)) (\<lambda>w. w\<lparr>w_queue := w_queue w @ [a]\<rparr>) s"
| "push a ToSignalingQueue s =
     on_worker (sc_worker (sv_heap s ! a)) (\<lambda>w. w\<lparr>w_signalingQueue := w_signalingQueue w @ [a]\<rparr>) s"

definition newClient :: "SubscriptionClient \<Rightarrow> Server \<Rightarrow> addr \<times> Server" where
  "newClient sc s = (length (sv_heap s), s\<lparr>sv_heap := sv_heap s @ [sc]\<rparr>)"

definition spawn :: "addr \<Rightarrow> Server \<Rightarrow> Server" where
  "spawn a s = s\<lparr>sv_spawned := sv_spawned s @ [(a, sv_ctx s)]\<rparr>"

subsection \<open>Choosing the worker\<close>

text \<open>The index of the worker; with no workers the remainder panics.\<close>

definition findWorker :: "server_env \<Rightarrow> PortIdentity \<Rightarrow> u16 \<Rightarrow> Server \<Rightarrow> nat option" where
  "findWorker env clientID offset s =
     (let b = le_bytes 8 (ClockIdentity clientID) @ le_bytes 2 (PortNumber clientID)
              @ le_bytes 2 offset;
          hash = env_hash env b
      in if length (sv_sw s) = 0 then None
         else Some (unat (hash mod word_of_nat (length (sv_sw s)))))"

subsection \<open>Event messages\<close>

fun updateSockaddrWithPort :: "Sockaddr \<Rightarrow> int \<Rightarrow> Sockaddr" where
  "updateSockaddrWithPort (SockaddrInet4 p addr) port = SockaddrInet4 port addr"
| "updateSockaddrWithPort (SockaddrInet6 p zone addr) port = SockaddrInet6 port zone addr"
| "updateSockaddrWithPort sa port = sa"

fun workerOffset_of :: "u16 \<Rightarrow> TLV list \<Rightarrow> u16" where
  "workerOffset_of workerOffset [] = workerOffset"
| "workerOffset_of workerOffset (AlternateResponsePortTLV v # tlvs) = workerOffset_of (Offset v) tlvs"
| "workerOffset_of workerOffset (_ # tlvs) = workerOffset_of workerOffset tlvs"

text \<open>The branch of a client that asks for Sync and Announce with its delay request.\<close>

definition sptp_request ::
  "time \<Rightarrow> SyncDelayReq \<Rightarrow> Sockaddr \<Rightarrow> time \<Rightarrow> nat \<Rightarrow> Server \<Rightarrow> Server" where
  "sptp_request now dReq eclisa rxTS w s =
     (let h = sync_Header dReq;
          clientID = SourcePortIdentity h;
          expire = now + subscriptionDuration;
          (a, s) = (case FindSubscription clientID MessageDelayReq (sv_sw s ! w) of
              None \<Rightarrow>
                (let gclisa = (if PortNumber clientID > 10 then eclisa
                               else NewSockaddrWithPort eclisa PortGeneral);
                     (a, s) = newClient (NewSubscriptionClient w eclisa gclisa MessageDelayReq
                                (sv_Config s) subscriptionDuration expire now) s;
                     s = on_worker w (RegisterSubscription clientID MessageDelayReq a) s
                 in (a, spawn a s))
            | Some a \<Rightarrow>
                (let s = on_client a (SetExpire expire) s;
                     s = on_client a (\<lambda>sc. sc\<lparr>sc_eclisa := eclisa\<rparr>) s;
                     s = (if PortNumber clientID > 10 then on_client a (\<lambda>sc. sc\<lparr>sc_gclisa := eclisa\<rparr>) s
                          else on_client a (\<lambda>sc. sc\<lparr>sc_gclisa :=
                                 updateSockaddrWithPort (sc_gclisa sc) PortGeneral\<rparr>) s)
                 in (a, s)));
          s = on_client a (UpdateSyncDelayReq rxTS (SequenceID h)) s;
          s = on_client a (UpdateAnnounceDelayReq (sv_Config s) (CorrectionField h) (SequenceID h)) s
      in push a ToQueue s)"

definition delay_request ::
  "server_env \<Rightarrow> time \<Rightarrow> SyncDelayReq \<Rightarrow> Sockaddr \<Rightarrow> time \<Rightarrow> Server \<Rightarrow> Server outcome" where
  "delay_request env now dReq eclisa rxTS s =
     (let h = sync_Header dReq; workerOffset = workerOffset_of 0 (sync_TLVs dReq) in
      case findWorker env (SourcePortIdentity h) workerOffset s of
        None \<Rightarrow> Crash
      | Some w \<Rightarrow>
          if FlagField h = FlagProfileSpecific1 OR FlagUnicast
          then Done (sptp_request now dReq eclisa rxTS w s)
          else (case FindSubscription (SourcePortIdentity h) MessageDelayResp (sv_sw s ! w) of
              None \<Rightarrow> Done s
            | Some a \<Rightarrow> Done (push a ToQueue (on_client a (UpdateDelayResp h rxTS) s))))"

text \<open>
  One iteration of the event handler on a packet that was read: the bytes, the sender and the receive
  timestamp. \<open>dReq\<close> is the structure the handler reuses, with whatever earlier iterations left in it.
\<close>

definition handleEventMessage ::
  "server_env \<Rightarrow> time \<Rightarrow> SyncDelayReq \<Rightarrow> bytes \<Rightarrow> Sockaddr \<Rightarrow> time \<Rightarrow> Server \<Rightarrow> Server outcome" where
  "handleEventMessage env now dReq buf eclisa rxTS s =
     (let rxTS = (if TimestampType (cfg_static (sv_Config s)) \<noteq> HW
                  then rxTS + UTCOffset (cfg_dynamic (sv_Config s)) else rxTS) in
      case ProbeMsgType buf of
        Inl err \<Rightarrow> Done s
      | Inr msgType \<Rightarrow>
          (let s = on_stats (IncRX msgType) s in
           if ctx_Err s then Done s
           else if msgType = MessageDelayReq then
             (case SyncDelayReq_UnmarshalBinary (dReq\<lparr>sync_TLVs := []\<rparr>) buf of
                None \<Rightarrow> Crash
              | Some (dReq, Some err) \<Rightarrow> Done s
              | Some (dReq, None) \<Rightarrow> delay_request env now dReq eclisa rxTS s)
           else Done s))"

subsection \<open>General messages\<close>

definition sendSignalingGrant ::
  "Signaling \<Rightarrow> u8 \<Rightarrow> u8 \<Rightarrow> u32 \<Rightarrow> addr \<Rightarrow> Server \<Rightarrow> Server" where
  "sendSignalingGrant sg mt i duration a s =
     push a ToSignalingQueue (on_client a (UpdateSignalingGrant sg mt i duration) s)"

text \<open>A request for unicast transmission of one of the three types that are served.\<close>

definition grant_request ::
  "server_env \<Rightarrow> time \<Rightarrow> Sockaddr \<Rightarrow> Signaling \<Rightarrow> RequestUnicastTransmission \<Rightarrow> u8 \<Rightarrow> Server
     \<Rightarrow> Server outcome" where
  "grant_request env now gclisa sg v signalingType s =
     (let durationt = wrap64 (uint (req_DurationField v) * Second);
          expire = now + durationt;
          intervalt = LogInterval_Duration (env_oor env) (req_LogInterMessagePeriod v);
          clientID = SourcePortIdentity (sig_Header sg)
      in case findWorker env clientID 0 s of
           None \<Rightarrow> Crash
         | Some w \<Rightarrow>
             (let found = FindSubscription clientID signalingType (sv_sw s ! w);
                  (a, s) = (case found of
                      Some a \<Rightarrow>
                        if sc_running (sv_heap s ! a)
                        then (a, on_client a (SetGclisa gclisa)
                                   (on_client a (SetInterval intervalt) (on_client a (SetExpire expire) s)))
                        else
                          (let ip = SockaddrToIP gclisa;
                               eclisa = IPToSockaddr ip PortEvent;
                               (a, s) = newClient (NewSubscriptionClient w eclisa gclisa signalingType
                                          (sv_Config s) intervalt expire now) s
                           in (a, on_worker w (RegisterSubscription clientID signalingType a) s))
                    | None \<Rightarrow>
                        (let ip = SockaddrToIP gclisa;
                             eclisa = IPToSockaddr ip PortEvent;
                             (a, s) = newClient (NewSubscriptionClient w eclisa gclisa signalingType
                                        (sv_Config s) intervalt expire now) s
                         in (a, on_worker w (RegisterSubscription clientID signalingType a) s)))
              in if intervalt < MinSubInterval (cfg_dynamic (sv_Config s))
                    \<or> durationt > MaxSubDuration (cfg_dynamic (sv_Config s)) \<or> ctx_Err s
                 then Done (sendSignalingGrant sg (req_MsgTypeAndReserved v)
                              (req_LogInterMessagePeriod v) 0 a s)
                 else
                   (let s = sendSignalingGrant sg (req_MsgTypeAndReserved v)
                              (req_LogInterMessagePeriod v) (req_DurationField v) a s
                    in if \<not> sc_running (sv_heap s ! a) then Done (spawn a s) else Done s)))"

definition cancel_request ::
  "server_env \<Rightarrow> time \<Rightarrow> Signaling \<Rightarrow> u8 \<Rightarrow> Server \<Rightarrow> Server outcome" where
  "cancel_request env now sg signalingType s =
     (let clientID = SourcePortIdentity (sig_Header sg) in
      case findWorker env clientID 0 s of
        None \<Rightarrow> Crash
      | Some w \<Rightarrow>
          (case FindSubscription clientID signalingType (sv_sw s ! w) of
             None \<Rightarrow> Done s
           | Some a \<Rightarrow>
               (case Stop now (sv_heap s ! a) of
                  Done sc \<Rightarrow> Done (on_client a (\<lambda>_. sc) s)
                | Hang sc \<Rightarrow> Hang (on_client a (\<lambda>_. sc) s)
                | Crash \<Rightarrow> Crash)))"

fun handle_tlv ::
  "server_env \<Rightarrow> time \<Rightarrow> Sockaddr \<Rightarrow> Signaling \<Rightarrow> TLV \<Rightarrow> Server \<Rightarrow> Server outcome" where
  "handle_tlv env now gclisa sg (RequestUnicastTransmissionTLV v) s =
     (let signalingType = Unicast_MsgType (req_MsgTypeAndReserved v);
          s = on_stats (IncRXSignalingGrant signalingType) s
      in if signalingType = MessageAnnounce \<or> signalingType = MessageSync
            \<or> signalingType = MessageDelayResp
         then grant_request env now gclisa sg v signalingType s
         else Done s)"
| "handle_tlv env now gclisa sg (CancelUnicastTransmissionTLV v) s =
     (let signalingType = Unicast_MsgType (cancel_MsgTypeAndFlags v);
          s = on_stats (IncRXSignalingCancel signalingType) s
      in cancel_request env now sg signalingType s)"
| "handle_tlv env now gclisa sg _ s = Done s"

fun handle_tlvs ::
  "server_env \<Rightarrow> time \<Rightarrow> Sockaddr \<Rightarrow> Signaling \<Rightarrow> TLV list \<Rightarrow> Server \<Rightarrow> Server outcome" where
  "handle_tlvs env now gclisa sg [] s = Done s"
| "handle_tlvs env now gclisa sg (tlv # tlvs) s =
     obind (handle_tlv env now gclisa sg tlv s) (handle_tlvs env now gclisa sg tlvs)"

text \<open>One iteration of the general handler; \<open>signaling\<close> is the structure it reuses.\<close>

definition handleGeneralMessage ::
  "server_env \<Rightarrow> time \<Rightarrow> Signaling \<Rightarrow> bytes \<Rightarrow> Sockaddr \<Rightarrow> Server \<Rightarrow> Server outcome" where
  "handleGeneralMessage env now signaling buf gclisa s =
     (case ProbeMsgType buf of
        Inl err \<Rightarrow> Done s
      | Inr msgType \<Rightarrow>
          if msgType = MessageSignaling then
            (case Signaling_UnmarshalBinary (signaling\<lparr>sig_TLVs := []\<rparr>) buf of
               None \<Rightarrow> Crash
             | Some (sg, Some err) \<Rightarrow> Done s
             | Some (sg, None) \<Rightarrow> handle_tlvs env now gclisa sg (sig_TLVs sg) s)
          else Done s)"

subsection \<open>Draining, metrics, reload\<close>

definition inventory_worker :: "nat \<Rightarrow> Server \<Rightarrow> Server" where
  "inventory_worker w s =
     (let (wk, stats) = inventoryClients (sv_heap s) (sv_sw s ! w) (sv_Stats s)
      in s\<lparr>sv_sw := (sv_sw s)[w := wk], sv_Stats := stats\<rparr>)"

definition inventory_all :: "Server \<Rightarrow> Server" where
  "inventory_all s = fold inventory_worker [0..<length (sv_sw s)] s"

definition Drain_cancel :: "Server \<Rightarrow> Server" where
  "Drain_cancel s =
     (if \<not> ctx_Err s then s\<lparr>sv_ctxs := (sv_ctxs s)[sv_ctx s := True]\<rparr> else s)"

text \<open>
  \<^verbatim>\<open>Drain\<close> when no other goroutine runs in between: ten rounds of inventory. The pauses are
  not modelled.
\<close>

definition Drain :: "Server \<Rightarrow> Server" where
  "Drain s = (inventory_all ^^ 10) (Drain_cancel s)"

definition Undrain :: "Server \<Rightarrow> Server" where
  "Undrain s =
     (if ctx_Err s then s\<lparr>sv_ctxs := sv_ctxs s @ [False], sv_ctx := length (sv_ctxs s)\<rparr> else s)"

definition shouldDrain :: "server_env \<Rightarrow> Server \<Rightarrow> bool" where
  "shouldDrain env s =
     (let shouldDrain = list_ex (FileDrain_Check (env_cfg env)) (sv_Checks s)
      in if drain_Undrain (env_cfg env) (UndrainFileName (cfg_static (sv_Config s))) then False
         else shouldDrain)"

definition drain_check :: "server_env \<Rightarrow> Server \<Rightarrow> Server" where
  "drain_check env s =
     (if shouldDrain env s then on_stats (SetDrain 1) (Drain s)
      else on_stats (SetDrain 0) (Undrain s))"

definition report_metrics :: "range_order \<Rightarrow> Server \<Rightarrow> Server" where
  "report_metrics ord s =
     (let s = inventory_all s;
          s = on_stats (SetUTCOffsetSec (utc_seconds (sv_Config s))) s;
          s = on_stats (SetClockAccuracy (uint (cfg_ClockAccuracy (cfg_dynamic (sv_Config s))))) s;
          s = on_stats (SetClockClass (uint (cfg_ClockClass (cfg_dynamic (sv_Config s))))) s;
          s = on_stats (Snapshot ord) s
      in on_stats Stats_Reset s)"

definition reload_config :: "server_env \<Rightarrow> Server \<Rightarrow> Server" where
  "reload_config env s =
     (case ReadDynamicConfig (env_cfg env) (ConfigFile (cfg_static (sv_Config s))) of
        Inl err \<Rightarrow> s
      | Inr dc \<Rightarrow> on_stats IncReload (s\<lparr>sv_Config := (sv_Config s)\<lparr>cfg_dynamic := dc\<rparr>\<rparr>))"

subsection \<open>Starting the server\<close>

text \<open>
  \<^verbatim>\<open>Start\<close> up to the point where every goroutine has been created: the pid file, the clock
  identity of the interface, the context of the subscriptions and the workers. The second component
  is the file system afterwards.
\<close>

datatype start_error = StartPidFile os_error | StartInterface os_error | StartClockIdentity go_error

definition Server_Start ::
  "config_env \<Rightarrow> Config \<Rightarrow> JSONStats \<Rightarrow> FileDrain list \<Rightarrow> (start_error + Server) \<times> config_env" where
  "Server_Start env c stats checks =
     (case CreatePidFile env (cfg_static c) of
        (Some err, env) \<Rightarrow> (Inl (StartPidFile err), env)
      | (None, env) \<Rightarrow>
          (case InterfaceMAC env (Interface (cfg_static c)) of
             Inl err \<Rightarrow> (Inl (StartInterface err), env)
           | Inr mac \<Rightarrow>
               (case NewClockIdentity mac of
                  Inl err \<Rightarrow> (Inl (StartClockIdentity err), env)
                | Inr clk \<Rightarrow> (Inr
                    \<lparr>sv_Config = c\<lparr>cfg_clockIdentity := clk\<rparr>, sv_Stats = stats, sv_Checks = checks,
                     sv_sw = map (\<lambda>i. newSendWorker (int i)) [0..<nat (SendWorkers (cfg_static c))],
                     sv_heap = [], sv_ctxs = [False], sv_ctx = 0, sv_spawned = [], sv_loops = [],
                     sv_sent = []\<rparr>, env))))"

text \<open>
  The handler of SIGTERM and SIGINT, when no other goroutine runs during the drain; an error is the
  exit with status 1.
\<close>

definition handleSigterm :: "config_env \<Rightarrow> Server \<Rightarrow> (os_error option \<times> config_env) \<times> Server" where
  "handleSigterm env s = (let s = Drain s in (DeletePidFile env (cfg_static (sv_Config s)), s))"

subsection \<open>Iterations and runs\<close>

text \<open>
  The iterations of the goroutines with what they read from outside. A number names the goroutine in
  \<open>sv_spawned\<close> or \<open>sv_loops\<close>, or the worker.
\<close>

datatype event =
    EventPacket time SyncDelayReq bytes Sockaddr time
  | GeneralPacket time Signaling bytes Sockaddr
  | BeginLoop nat
  | Tick time nat
  | CtxDone nat
  | StopReceived nat
  | WorkerTurn nat channel worker_io
  | CancelContext
  | DoUndrain
  | InventoryRound
  | DrainFlag int
  | ReportMetrics range_order
  | Sighup

definition pushes :: "addr \<Rightarrow> enqueue list \<Rightarrow> Server \<Rightarrow> Server" where
  "pushes a qs s = fold (push a) qs s"

definition remove_nth :: "nat \<Rightarrow> 'a list \<Rightarrow> 'a list" where
  "remove_nth i xs = take i xs @ drop (Suc i) xs"

definition begin_loop :: "nat \<Rightarrow> Server \<Rightarrow> Server outcome" where
  "begin_loop i s =
     (let (a, ctx) = sv_spawned s ! i in
      case Start_begin (sv_heap s ! a) of
        Done (sc, qs) \<Rightarrow> Done (pushes a qs (on_client a (\<lambda>_. sc)
          (s\<lparr>sv_spawned := remove_nth i (sv_spawned s), sv_loops := sv_loops s @ [(a, ctx)]\<rparr>)))
      | Hang (sc, qs) \<Rightarrow> Crash
      | Crash \<Rightarrow> Crash)"

definition exit_loop :: "nat \<Rightarrow> (SubscriptionClient \<times> enqueue list) \<Rightarrow> Server \<Rightarrow> Server" where
  "exit_loop i r s =
     (let (a, ctx) = sv_loops s ! i; (sc, qs) = r in
      pushes a qs (on_client a (\<lambda>_. sc) (s\<lparr>sv_loops := remove_nth i (sv_loops s)\<rparr>)))"

definition tick_loop :: "time \<Rightarrow> nat \<Rightarrow> Server \<Rightarrow> Server outcome" where
  "tick_loop now i s =
     (let (a, ctx) = sv_loops s ! i in
      case Start_tick now (sv_heap s ! a) of
        Done ((sc, qs), go_on) \<Rightarrow>
          Done (if go_on then pushes a qs (on_client a (\<lambda>_. sc) s) else exit_loop i (sc, qs) s)
      | Hang r \<Rightarrow> Crash
      | Crash \<Rightarrow> Crash)"

definition worker_turn :: "server_env \<Rightarrow> nat \<Rightarrow> channel \<Rightarrow> worker_io \<Rightarrow> Server \<Rightarrow> Server outcome option" where
  "worker_turn env w ch io s =
     (case worker_step (env_log2i env) (sv_Config s) io ch (sv_sw s ! w) (sv_heap s) (sv_Stats s) of
        None \<Rightarrow> None
      | Some None \<Rightarrow> Some Crash
      | Some (Some (wk, h, stats, out)) \<Rightarrow>
          Some (Done (s\<lparr>sv_sw := (sv_sw s)[w := wk], sv_heap := h, sv_Stats := stats,
                        sv_sent := sv_sent s @ out\<rparr>)))"

text \<open>The outcome of an iteration, or \<^term>\<open>None\<close> when it is not ready.\<close>

fun exec :: "server_env \<Rightarrow> event \<Rightarrow> Server \<Rightarrow> Server outcome option" where
  "exec env (EventPacket now dReq buf sa rxTS) s = Some (handleEventMessage env now dReq buf sa rxTS s)"
| "exec env (GeneralPacket now sg buf sa) s = Some (handleGeneralMessage env now sg buf sa s)"
| "exec env (BeginLoop i) s = (if i < length (sv_spawned s) then Some (begin_loop i s) else None)"
| "exec env (Tick now i) s =
     (if i < length (sv_loops s) then Some (tick_loop now i s) else None)"
| "exec env (CtxDone i) s =
     (if i < length (sv_loops s) \<and> sv_ctxs s ! snd (sv_loops s ! i)
      then Some (Done (exit_loop i (Start_exit (sv_heap s ! fst (sv_loops s ! i))) s)) else None)"
| "exec env (StopReceived i) s =
     (if i < length (sv_loops s) \<and> sc_stop (sv_heap s ! fst (sv_loops s ! i)) \<noteq> []
      then (let sc = sv_heap s ! fst (sv_loops s ! i); sc = sc\<lparr>sc_stop := tl (sc_stop sc)\<rparr>
            in Some (Done (exit_loop i (Start_exit sc) s))) else None)"
| "exec env (WorkerTurn w ch io) s = (if w < length (sv_sw s) then worker_turn env w ch io s else None)"
| "exec env CancelContext s = Some (Done (Drain_cancel s))"
| "exec env DoUndrain s = Some (Done (Undrain s))"
| "exec env InventoryRound s = Some (Done (inventory_all s))"
| "exec env (DrainFlag v) s = Some (Done (on_stats (SetDrain v) s))"
| "exec env (ReportMetrics ord) s = Some (Done (report_metrics ord s))"
| "exec env Sighup s = Some (Done (reload_config env s))"

text \<open>The states a run reaches from a start, up to the first crash or wait.\<close>

inductive reachable :: "server_env \<Rightarrow> Server \<Rightarrow> Server \<Rightarrow> bool" for env s0 where
  start: "reachable env s0 s0"
| iteration: "reachable env s0 s \<Longrightarrow> exec env ev s = Some (Done s') \<Longrightarrow> reachable env s0 s'"

end
