(* ===== verification/Ptp_Invariant.thy ===== *)
theory Ptp_Invariant
  imports Ptp_Server
begin

section \<open>The invariant of the server\<close>

text \<open>
  What holds in every state a run of the server reaches: the workers' tables, channels and goroutines
  refer to clients on the heap, a client sits with the worker its identity is hashed to, every
  packet a client owns is well-formed, what is on a signaling channel has been granted, and every
  packet handed to the kernel is well-formed. One lemma per operation, then one per iteration, then
  the runs by rule induction.
\<close>

subsection \<open>The invariant\<close>

text \<open>
  The worker a client is hashed to; signaling uses offset 0, a delay request may ask for another.
\<close>

definition worker_index :: "server_env \<Rightarrow> nat \<Rightarrow> PortIdentity \<Rightarrow> u16 \<Rightarrow> nat" where
  "worker_index env n clientID offset =
     unat (env_hash env (le_bytes 8 (ClockIdentity clientID) @ le_bytes 2 (PortNumber clientID)
       @ le_bytes 2 offset) mod word_of_nat n)"

definition assigned :: "server_env \<Rightarrow> nat \<Rightarrow> nat \<Rightarrow> u8 \<Rightarrow> PortIdentity \<Rightarrow> bool" where
  "assigned env n w t k \<longleftrightarrow>
     (\<exists>offset. (t \<noteq> MessageDelayReq \<longrightarrow> offset = 0) \<and> worker_index env n k offset = w)"

abbreviation served :: "u8 \<Rightarrow> bool" where
  "served t \<equiv> t \<in> {MessageSync, MessageAnnounce, MessageDelayResp, MessageDelayReq}"

text \<open>An entry of a worker's table refers to a client of its type and worker.\<close>

definition entry_ok :: "server_env \<Rightarrow> nat \<Rightarrow> heap \<Rightarrow> nat \<Rightarrow> u8 \<Rightarrow> PortIdentity \<Rightarrow> addr \<Rightarrow> bool" where
  "entry_ok env n h w t k a \<longleftrightarrow> a < length h \<and> sc_subscriptionType (h ! a) = t
     \<and> sc_worker (h ! a) = w \<and> served t \<and> assigned env n w t k"

definition worker_inv :: "server_env \<Rightarrow> nat \<Rightarrow> heap \<Rightarrow> nat \<Rightarrow> sendWorker \<Rightarrow> bool" where
  "worker_inv env n h w s \<longleftrightarrow> length (w_buf s) = 128
     \<and> (\<forall>a \<in> set (w_queue s). a < length h \<and> sc_worker (h ! a) = w)
     \<and> (\<forall>a \<in> set (w_signalingQueue s). a < length h \<and> sc_worker (h ! a) = w \<and> granted (h ! a))
     \<and> table.holds (entry_ok env n h w) s"

text \<open>A goroutine refers to a client that has been granted, unless it answers delay requests.\<close>

definition routine_ok :: "heap \<Rightarrow> bool list \<Rightarrow> addr \<times> nat \<Rightarrow> bool" where
  "routine_ok h ctxs r \<longleftrightarrow> fst r < length h \<and> snd r < length ctxs
     \<and> (sc_subscriptionType (h ! fst r) \<noteq> MessageDelayReq \<longrightarrow> granted (h ! fst r))"

definition heap_ok :: "nat \<Rightarrow> heap \<Rightarrow> bool" where
  "heap_ok n h \<longleftrightarrow> (\<forall>c \<in> set h. wf_client c \<and> sc_worker c < n)"

definition server_inv :: "server_env \<Rightarrow> nat \<Rightarrow> Server \<Rightarrow> bool" where
  "server_inv env n s \<longleftrightarrow> length (sv_sw s) = n \<and> 0 < n \<and> n < 2 ^ 64
     \<and> sv_ctx s < length (sv_ctxs s)
     \<and> heap_ok n (sv_heap s)
     \<and> (\<forall>w < n. worker_inv env n (sv_heap s) w (sv_sw s ! w))
     \<and> (\<forall>r \<in> set (sv_spawned s). routine_ok (sv_heap s) (sv_ctxs s) r)
     \<and> (\<forall>r \<in> set (sv_loops s). routine_ok (sv_heap s) (sv_ctxs s) r)
     \<and> (\<forall>x \<in> set (sv_sent s). good_sent x)"

lemma worker_index_less:
  assumes "0 < n" and "n < 2 ^ 64"
  shows "worker_index env n k offset < n"
proof -
  have "unat (word_of_nat n :: u64) = n"
    using assms(2) by (simp add: unat_of_nat take_bit_nat_eq_self unsigned_of_nat)
  then show ?thesis using assms(1) by (simp add: worker_index_def unat_mod)
qed

lemma findWorker_eq:
  "findWorker env k offset s =
     (if length (sv_sw s) = 0 then None else Some (worker_index env (length (sv_sw s)) k offset))"
  by (simp add: findWorker_def worker_index_def Let_def)

lemma heap_le_nth:
  assumes "heap_le h h'" and "a < length h"
  shows "a < length h'" "sc_worker (h' ! a) = sc_worker (h ! a)"
    "sc_subscriptionType (h' ! a) = sc_subscriptionType (h ! a)" "granted (h ! a) \<Longrightarrow> granted (h' ! a)"
  using assms by (auto simp: heap_le_def steady_def)

lemma worker_inv_heap:
  assumes "worker_inv env n h w s" and "heap_le h h'"
  shows "worker_inv env n h' w s"
proof -
  have "table.holds (entry_ok env n h' w) s"
    using assms heap_le_nth [OF assms(2)]
    by (auto simp: worker_inv_def entry_ok_def elim!: table.holds_mono)
  then show ?thesis
    using assms heap_le_nth [OF assms(2)] by (auto simp: worker_inv_def)
qed

lemma routine_ok_heap: "routine_ok h ctxs r \<Longrightarrow> heap_le h h' \<Longrightarrow> routine_ok h' ctxs r"
  using heap_le_nth [of h h' "fst r"] by (auto simp: routine_ok_def)

text \<open>The invariant is kept when the heap changes steadily and nothing else changes.\<close>

lemma server_inv_heap:
  assumes "server_inv env n s" and "heap_le (sv_heap s) h" and "heap_ok n h"
  shows "server_inv env n (s\<lparr>sv_heap := h\<rparr>)"
  using assms by (auto simp: server_inv_def intro: worker_inv_heap routine_ok_heap)

lemma heap_ok_update:
  assumes "heap_ok n h" and "steady (h ! a) c"
  shows "heap_ok n (h[a := c])"
proof (cases "a < length h")
  case True
  then have "wf_client c \<and> sc_worker c < n"
    using assms by (auto simp: heap_ok_def steady_def)
  then show ?thesis using assms(1) set_update_subset_insert [of h a c] by (fastforce simp: heap_ok_def)
qed (use assms in \<open>simp add: list_update_beyond\<close>)

lemma inv_on_client:
  assumes "server_inv env n s" and "steady (sv_heap s ! a) (f (sv_heap s ! a))"
  shows "server_inv env n (on_client a f s)"
  using assms unfolding on_client_def
  by (intro server_inv_heap) (auto simp: server_inv_def heap_le_update heap_ok_update)

lemma inv_on_stats: "server_inv env n (on_stats f s) = server_inv env n s"
  by (simp add: server_inv_def on_stats_def)

text \<open>One worker changes: it is enough to look at that one.\<close>

lemma inv_on_worker:
  assumes "server_inv env n s" and "w < n \<Longrightarrow> worker_inv env n (sv_heap s) w (f (sv_sw s ! w))"
  shows "server_inv env n (on_worker w f s)"
proof -
  have "worker_inv env n (sv_heap s) w' ((sv_sw s)[w := f (sv_sw s ! w)] ! w')" if "w' < n" for w'
    using assms that by (cases "w' = w") (auto simp: server_inv_def)
  then show ?thesis using assms(1) by (simp add: server_inv_def on_worker_def)
qed

lemma table_holds_queues [simp]:
  "table.holds I (s\<lparr>w_queue := q\<rparr>) = table.holds I s"
  "table.holds I (s\<lparr>w_signalingQueue := q\<rparr>) = table.holds I s"
  by (simp_all add: table.holds_def table_entries_def)

lemma worker_inv_push:
  assumes "worker_inv env n h w s" and "a < length h" and "sc_worker (h ! a) = w"
  shows "worker_inv env n h w (s\<lparr>w_queue := w_queue s @ [a]\<rparr>)"
    and "granted (h ! a) \<Longrightarrow> worker_inv env n h w (s\<lparr>w_signalingQueue := w_signalingQueue s @ [a]\<rparr>)"
  using assms by (simp_all add: worker_inv_def ball_Un)

lemma inv_push:
  assumes "server_inv env n s" and "a < length (sv_heap s)"
    and "q = ToSignalingQueue \<longrightarrow> granted (sv_heap s ! a)"
  shows "server_inv env n (push a q s)"
proof -
  define w where "w = sc_worker (sv_heap s ! a)"
  have "w < n \<Longrightarrow> worker_inv env n (sv_heap s) w (sv_sw s ! w)"
    using assms(1) by (simp add: server_inv_def)
  note inv = worker_inv_push [OF this assms(2) w_def [symmetric]]
  show ?thesis
    using assms inv by (cases q) (auto intro!: inv_on_worker simp flip: w_def)
qed

lemma inv_spawn:
  assumes "server_inv env n s" and "a < length (sv_heap s)"
    and "sc_subscriptionType (sv_heap s ! a) \<noteq> MessageDelayReq \<longrightarrow> granted (sv_heap s ! a)"
  shows "server_inv env n (spawn a s)"
  using assms by (auto simp: server_inv_def spawn_def routine_ok_def)

lemma heap_new: "snd (newClient c s) = s\<lparr>sv_heap := sv_heap s @ [c]\<rparr>" "fst (newClient c s) = length (sv_heap s)"
  by (simp_all add: newClient_def)

lemma inv_newClient:
  assumes "server_inv env n s" and "wf_client c" and "sc_worker c < n"
  shows "server_inv env n (s\<lparr>sv_heap := sv_heap s @ [c]\<rparr>)"
  using assms by (intro server_inv_heap) (auto simp: heap_le_new server_inv_def heap_ok_def)

lemma inv_register:
  assumes "server_inv env n s" and "entry_ok env n (sv_heap s) w t k a"
  shows "server_inv env n (on_worker w (RegisterSubscription k t a) s)"
proof (rule inv_on_worker [OF assms(1)])
  assume "w < n"
  then have "worker_inv env n (sv_heap s) w (sv_sw s ! w)" using assms(1) by (simp add: server_inv_def)
  then show "worker_inv env n (sv_heap s) w (RegisterSubscription k t a (sv_sw s ! w))"
    using assms(2) table.holds_register
    by (auto simp: worker_inv_def) (simp_all add: RegisterSubscription_def Let_def)
qed

subsection \<open>The handlers keep the invariant\<close>

lemma sv_heap_ops [simp]:
  "sv_heap (on_client a f s) = (sv_heap s)[a := f (sv_heap s ! a)]"
  "sv_heap (on_worker w g s) = sv_heap s" "sv_heap (on_stats k s) = sv_heap s"
  "sv_heap (push a q s) = sv_heap s" "sv_heap (spawn a s) = sv_heap s"
  by (simp_all add: on_client_def on_worker_def on_stats_def spawn_def) (cases q; simp add: on_worker_def)

declare push.simps [simp del]

lemma sv_sw_ops [simp]:
  "sv_sw (on_client a f s) = sv_sw s" "sv_sw (on_stats k s) = sv_sw s" "sv_sw (spawn a s) = sv_sw s"
  "length (sv_sw (on_worker w g s)) = length (sv_sw s)"
  by (simp_all add: on_client_def on_worker_def on_stats_def spawn_def)

lemma steady_fields [simp]:
  "steady c (SetExpire e c)" "steady c (SetInterval i c)" "steady c (SetGclisa sa c)"
  "steady c (c\<lparr>sc_eclisa := sa\<rparr>)" "steady c (c\<lparr>sc_gclisa := sa\<rparr>)"
  by (simp_all add: steady_def SetExpire_def SetInterval_def SetGclisa_def)

lemma steady_grant:
  "Header_MessageType (sig_Header sg) = MessageSignaling \<Longrightarrow> steady c (UpdateSignalingGrant sg mt i d c)"
  by (simp add: steady_def wf_client_grant)

lemma found_entry:
  assumes "server_inv env n s" and "w < n" and "FindSubscription k t (sv_sw s ! w) = Some a"
  shows "entry_ok env n (sv_heap s) w t k a"
proof -
  have "table.holds (entry_ok env n (sv_heap s) w) (sv_sw s ! w)"
    using assms(1,2) by (simp add: server_inv_def worker_inv_def)
  then show ?thesis using assms(3) by (rule table.holds_find)
qed

text \<open>A new client is put on the heap and registered.\<close>

lemma inv_new_registered:
  assumes "server_inv env n s" and "w < n" and "served t" and "assigned env n w t k"
  shows "server_inv env n (on_worker w (RegisterSubscription k t (length (sv_heap s)))
    (s\<lparr>sv_heap := sv_heap s @ [NewSubscriptionClient w e g t c i ex now]\<rparr>))"
proof (rule inv_register)
  show "server_inv env n (s\<lparr>sv_heap := sv_heap s @ [NewSubscriptionClient w e g t c i ex now]\<rparr>)"
    using assms by (intro inv_newClient) (simp_all add: wf_client_new)
qed (use assms in \<open>simp add: entry_ok_def\<close>)

lemma inv_sptp_request:
  assumes "server_inv env n s" and "w < n" and "assigned env n w MessageDelayReq (SourcePortIdentity (sync_Header dReq))"
  shows "server_inv env n (sptp_request now dReq eclisa rxTS w s)"
proof (cases "FindSubscription (SourcePortIdentity (sync_Header dReq)) MessageDelayReq (sv_sw s ! w)")
  case None
  note new = inv_new_registered [OF assms(1,2) _ assms(3)]
  show ?thesis
    unfolding sptp_request_def Let_def newClient_def None
    by (auto intro!: inv_push inv_on_client inv_spawn new)
next
  case (Some a)
  then have "a < length (sv_heap s)" using found_entry [OF assms(1,2) Some] by (simp add: entry_ok_def)
  then show ?thesis
    using assms(1) unfolding sptp_request_def Let_def Some by (auto intro!: inv_push inv_on_client)
qed

lemma inv_delay_request:
  assumes "server_inv env n s" and "delay_request env now dReq eclisa rxTS s = Done s'"
  shows "server_inv env n s'"
proof -
  let ?k = "SourcePortIdentity (sync_Header dReq)"
  define w where "w = worker_index env n ?k (workerOffset_of 0 (sync_TLVs dReq))"
  have n: "length (sv_sw s) = n" "0 < n" "n < 2 ^ 64" using assms(1) by (simp_all add: server_inv_def)
  then have w: "w < n" "assigned env n w MessageDelayReq ?k"
    by (auto simp: w_def worker_index_less assigned_def)
  show ?thesis
  proof (cases "FlagField (sync_Header dReq) = FlagProfileSpecific1 OR FlagUnicast")
    case True
    then show ?thesis
      using assms n inv_sptp_request [OF assms(1) w, of now eclisa rxTS] by (auto simp: delay_request_def findWorker_eq Let_def w_def)
  next
    case False
    then show ?thesis
      using assms n found_entry [OF assms(1) w(1), of ?k MessageDelayResp]
      by (auto simp: delay_request_def findWorker_eq Let_def w_def entry_ok_def
        split: option.splits intro!: inv_push inv_on_client)
  qed
qed

lemma inv_handleEventMessage:
  assumes "server_inv env n s" and "handleEventMessage env now dReq buf sa rxTS s = Done s'"
  shows "server_inv env n s'"
  using assms inv_delay_request [of env n "on_stats k s" now d sa t s' for k d t]
  by (auto simp: handleEventMessage_def Let_def inv_on_stats split: sum.splits if_splits option.splits)

lemma inv_sendSignalingGrant:
  assumes "server_inv env n s" and "a < length (sv_heap s)"
    and "Header_MessageType (sig_Header sg) = MessageSignaling"
  shows "server_inv env n (sendSignalingGrant sg mt i d a s)"
  unfolding sendSignalingGrant_def
  using assms by (auto intro!: inv_push inv_on_client steady_grant)

lemma sendSignalingGrant_heap [simp]:
  "sv_heap (sendSignalingGrant sg mt i d a s) = (sv_heap s)[a := UpdateSignalingGrant sg mt i d (sv_heap s ! a)]"
  by (simp add: sendSignalingGrant_def)

text \<open>The client a grant request works on: the running one it found, or a new one.\<close>

definition grant_client ::
  "server_env \<Rightarrow> time \<Rightarrow> Sockaddr \<Rightarrow> PortIdentity \<Rightarrow> u8 \<Rightarrow> duration \<Rightarrow> time \<Rightarrow> nat \<Rightarrow> Server \<Rightarrow> addr \<times> Server" where
  "grant_client env now gclisa clientID t intervalt expire w s =
     (case FindSubscription clientID t (sv_sw s ! w) of
        Some a \<Rightarrow>
          if sc_running (sv_heap s ! a)
          then (a, on_client a (SetGclisa gclisa) (on_client a (SetInterval intervalt) (on_client a (SetExpire expire) s)))
          else (length (sv_heap s), on_worker w (RegisterSubscription clientID t (length (sv_heap s)))
            (s\<lparr>sv_heap := sv_heap s @ [NewSubscriptionClient w (IPToSockaddr (SockaddrToIP gclisa) PortEvent)
               gclisa t (sv_Config s) intervalt expire now]\<rparr>))
      | None \<Rightarrow> (length (sv_heap s), on_worker w (RegisterSubscription clientID t (length (sv_heap s)))
            (s\<lparr>sv_heap := sv_heap s @ [NewSubscriptionClient w (IPToSockaddr (SockaddrToIP gclisa) PortEvent)
               gclisa t (sv_Config s) intervalt expire now]\<rparr>)))"

text \<open>Whether a request is within the limits and the server is not draining.\<close>

definition acceptable :: "Server \<Rightarrow> duration \<Rightarrow> duration \<Rightarrow> bool" where
  "acceptable s intervalt durationt \<longleftrightarrow> MinSubInterval (cfg_dynamic (sv_Config s)) \<le> intervalt
     \<and> durationt \<le> MaxSubDuration (cfg_dynamic (sv_Config s)) \<and> \<not> ctx_Err s"

abbreviation req_duration :: "RequestUnicastTransmission \<Rightarrow> duration" where
  "req_duration v \<equiv> uint (req_DurationField v) * Second"

abbreviation req_interval :: "server_env \<Rightarrow> RequestUnicastTransmission \<Rightarrow> duration" where
  "req_interval env v \<equiv> LogInterval_Duration (env_oor env) (req_LogInterMessagePeriod v)"

lemma req_duration_wrap: "wrap64 (uint (d :: u32) * Second) = uint d * Second"
proof (rule wrap64_id)
  have "0 \<le> x \<Longrightarrow> x < 2 ^ 32 \<Longrightarrow> int64_range (x * Second)" for x by (simp add: int64_range_def)
  moreover have "uint d < 2 ^ 32" using unsigned_less [of d] by simp
  ultimately show "int64_range (uint d * Second)" by simp
qed

lemma ctx_Err_ops [simp]:
  "ctx_Err (on_client a f s) = ctx_Err s" "ctx_Err (on_worker w g s) = ctx_Err s" "ctx_Err (on_stats k s) = ctx_Err s"
  "ctx_Err (s\<lparr>sv_heap := h\<rparr>) = ctx_Err s"
  by (simp_all add: ctx_Err_def on_client_def on_worker_def on_stats_def)

lemma sv_Config_ops [simp]:
  "sv_Config (on_client a f s) = sv_Config s" "sv_Config (on_worker w g s) = sv_Config s"
  "sv_Config (on_stats k s) = sv_Config s"
  by (simp_all add: on_client_def on_worker_def on_stats_def)

lemma grant_client_keeps:
  "sv_Config (snd (grant_client env now g k t i e w s)) = sv_Config s"
  "ctx_Err (snd (grant_client env now g k t i e w s)) = ctx_Err s"
  by (simp_all add: grant_client_def split: option.split)

lemma grant_request_eq:
  assumes "length (sv_sw s) = n" and "0 < n"
  shows "grant_request env now gclisa sg v t s =
    (let k = SourcePortIdentity (sig_Header sg);
         (a, s1) = grant_client env now gclisa k t (req_interval env v) (now + req_duration v) (worker_index env n k 0) s
     in if acceptable s (req_interval env v) (req_duration v)
        then (let s2 = sendSignalingGrant sg (req_MsgTypeAndReserved v) (req_LogInterMessagePeriod v)
                         (req_DurationField v) a s1
              in Done (if sc_running (sv_heap s2 ! a) then s2 else spawn a s2))
        else Done (sendSignalingGrant sg (req_MsgTypeAndReserved v) (req_LogInterMessagePeriod v) 0 a s1))"
  using assms
  by (auto simp: grant_request_def findWorker_eq Let_def grant_client_def acceptable_def newClient_def
    req_duration_wrap split: option.split)

lemma inv_grant_client:
  assumes "server_inv env n s" and "w < n" and "served t" and "assigned env n w t k"
    and "grant_client env now g k t i e w s = (a, s1)"
  shows "server_inv env n s1" and "a < length (sv_heap s1)"
  using assms inv_new_registered [OF assms(1-4)] found_entry [OF assms(1,2), of k t]
  by (auto simp: grant_client_def entry_ok_def split: option.splits if_splits intro!: inv_on_client)

lemma inv_grant_request:
  assumes "server_inv env n s" and "grant_request env now gclisa sg v t s = Done s'"
    and "served t" and "t \<noteq> MessageDelayReq" and "Header_MessageType (sig_Header sg) = MessageSignaling"
  shows "server_inv env n s'"
proof -
  let ?k = "SourcePortIdentity (sig_Header sg)"
  have n: "length (sv_sw s) = n" "0 < n" "n < 2 ^ 64" using assms(1) by (simp_all add: server_inv_def)
  obtain a s1 where gc: "grant_client env now gclisa ?k t (req_interval env v) (now + req_duration v)
      (worker_index env n ?k 0) s = (a, s1)" by (cases "grant_client env now gclisa ?k t (req_interval env v)
      (now + req_duration v) (worker_index env n ?k 0) s")
  note inv = inv_grant_client [OF assms(1) worker_index_less [OF n(2,3)] assms(3) _ gc]
  have "server_inv env n s1" "a < length (sv_heap s1)" using inv by (auto simp: assigned_def)
  then show ?thesis
    using assms(2,4,5) grant_request_eq [OF n(1,2), of env now gclisa sg v t] gc
    by (auto simp: Let_def intro!: inv_spawn inv_sendSignalingGrant split: if_splits)
qed

lemma Stop_steady: "Stop now c = Done c' \<Longrightarrow> steady c c'"
  by (auto simp: Stop_def Let_def steady_def split: if_splits)

lemma inv_cancel_request:
  assumes "server_inv env n s" and "cancel_request env now sg t s = Done s'"
  shows "server_inv env n s'"
  using assms
  by (auto simp: cancel_request_def Let_def Stop_steady split: option.splits outcome.splits intro!: inv_on_client)

lemma inv_handle_tlv:
  assumes "server_inv env n s" and "handle_tlv env now gclisa sg tlv s = Done s'"
    and "Header_MessageType (sig_Header sg) = MessageSignaling"
  shows "server_inv env n s'"
proof (cases tlv)
  case (RequestUnicastTransmissionTLV v)
  then show ?thesis
    using assms inv_grant_request [of env n "on_stats f s" now gclisa sg v "Unicast_MsgType (req_MsgTypeAndReserved v)" s' for f]
    by (auto simp: Let_def inv_on_stats split: if_splits)
next
  case (CancelUnicastTransmissionTLV v)
  then show ?thesis
    using assms inv_cancel_request [of env n "on_stats f s" now sg t s' for f t]
    by (auto simp: Let_def inv_on_stats)
qed (use assms in auto)

lemma obind_Done: "obind m f = Done y \<longleftrightarrow> (\<exists>x. m = Done x \<and> f x = Done y)"
  by (cases m) auto

lemma inv_handle_tlvs:
  assumes "server_inv env n s" and "handle_tlvs env now gclisa sg tlvs s = Done s'"
    and "Header_MessageType (sig_Header sg) = MessageSignaling"
  shows "server_inv env n s'"
  using assms
proof (induction tlvs arbitrary: s)
  case (Cons tlv tlvs)
  then show ?case by (auto simp: obind_Done dest: inv_handle_tlv)
qed simp

lemma Signaling_Unmarshal_type:
  "Signaling_UnmarshalBinary z b = Some (sg, None) \<Longrightarrow> Header_MessageType (sig_Header sg) = MessageSignaling"
  by (auto simp: Signaling_UnmarshalBinary_def Header_MessageType_def bind_eq_Some_conv Let_def
    split: if_splits option.splits)

lemma inv_handleGeneralMessage:
  assumes "server_inv env n s" and "handleGeneralMessage env now sg buf sa s = Done s'"
  shows "server_inv env n s'"
  using assms inv_handle_tlvs [OF assms(1) _ Signaling_Unmarshal_type]
  by (auto simp: handleGeneralMessage_def split: sum.splits if_splits option.splits)

subsection \<open>The timer loops keep the invariant\<close>

lemma Start_begin_steady: "Start_begin c = Done (c', qs) \<Longrightarrow> steady c c' \<and> ToSignalingQueue \<notin> set qs"
  by (auto simp: Start_begin_def Let_def steady_def setRunning_def timer_sends_def split: if_splits)

lemma Start_exit_steady:
  assumes "sc_subscriptionType c \<noteq> MessageDelayReq \<longrightarrow> granted c" and "Start_exit c = (c', qs)"
  shows "steady c c' \<and> (ToSignalingQueue \<in> set qs \<longrightarrow> granted c')"
  using assms by (auto simp: Start_exit_def Let_def steady_def setRunning_def wf_client_cancel split: if_splits)

lemma Start_tick_steady:
  assumes "sc_subscriptionType c \<noteq> MessageDelayReq \<longrightarrow> granted c" and "Start_tick now c = Done ((c', qs), b)"
  shows "steady c c' \<and> (ToSignalingQueue \<in> set qs \<longrightarrow> granted c')"
proof (cases "Expired now c")
  case True
  then show ?thesis using assms Start_exit_steady [OF assms(1)] by (simp add: Start_tick_def)
next
  case False
  then show ?thesis
    using assms by (auto simp: Start_tick_def Let_def steady_def timer_sends_def split: if_splits)
qed

lemma sv_heap_pushes [simp]: "sv_heap (pushes a qs s) = sv_heap s"
  unfolding pushes_def by (induction qs arbitrary: s) simp_all

lemma inv_pushes:
  assumes "server_inv env n s" and "a < length (sv_heap s)"
    and "ToSignalingQueue \<in> set qs \<longrightarrow> granted (sv_heap s ! a)"
  shows "server_inv env n (pushes a qs s)"
  using assms unfolding pushes_def
proof (induction qs arbitrary: s)
  case (Cons q qs)
  then show ?case using inv_push [of env n s a q] by auto
qed simp

text \<open>A client is replaced by a steady successor and put on its channels.\<close>

lemma inv_resume:
  assumes "server_inv env n s" and "a < length (sv_heap s)" and "steady (sv_heap s ! a) c"
    and "ToSignalingQueue \<in> set qs \<longrightarrow> granted c"
  shows "server_inv env n (pushes a qs (on_client a (\<lambda>_. c) s))"
  using assms by (intro inv_pushes inv_on_client) simp_all

lemma set_remove_nth: "set (remove_nth i xs) \<subseteq> set xs"
  unfolding remove_nth_def using set_take_subset set_drop_subset by (auto dest: in_set_takeD in_set_dropD)

lemma routine_at:
  assumes "server_inv env n s" and "i < length (sv_loops s)" and "sv_loops s ! i = (a, ctx)"
  shows "a < length (sv_heap s)" "sc_subscriptionType (sv_heap s ! a) \<noteq> MessageDelayReq \<longrightarrow> granted (sv_heap s ! a)"
  using assms nth_mem [OF assms(2)] by (auto simp: server_inv_def routine_ok_def)

lemma inv_begin_loop:
  assumes "server_inv env n s" and "i < length (sv_spawned s)" and "begin_loop i s = Done s'"
  shows "server_inv env n s'"
proof -
  obtain a ctx where r: "sv_spawned s ! i = (a, ctx)" by (cases "sv_spawned s ! i")
  then have ok: "routine_ok (sv_heap s) (sv_ctxs s) (a, ctx)"
    using assms(1,2) nth_mem [OF assms(2)] by (auto simp: server_inv_def)
  let ?s = "s\<lparr>sv_spawned := remove_nth i (sv_spawned s), sv_loops := sv_loops s @ [(a, ctx)]\<rparr>"
  have "server_inv env n ?s"
    using assms(1) ok set_remove_nth [of i "sv_spawned s"] by (auto simp: server_inv_def)
  then show ?thesis
    using assms(3) r ok Start_begin_steady [of "sv_heap s ! a"]
    by (auto simp: begin_loop_def routine_ok_def split: outcome.splits intro!: inv_resume)
qed

lemma inv_exit_loop:
  assumes "server_inv env n s" and "i < length (sv_loops s)" and "sv_loops s ! i = (a, ctx)"
    and "steady (sv_heap s ! a) c" and "ToSignalingQueue \<in> set qs \<longrightarrow> granted c"
  shows "server_inv env n (exit_loop i (c, qs) s)"
proof -
  have "server_inv env n (s\<lparr>sv_loops := remove_nth i (sv_loops s)\<rparr>)"
    using assms(1) set_remove_nth [of i "sv_loops s"] by (auto simp: server_inv_def)
  then show ?thesis
    using assms(3-5) routine_at [OF assms(1-3)] by (auto simp: exit_loop_def intro!: inv_resume)
qed

lemma inv_tick_loop:
  assumes "server_inv env n s" and "i < length (sv_loops s)" and "tick_loop now i s = Done s'"
  shows "server_inv env n s'"
proof -
  obtain a ctx where r: "sv_loops s ! i = (a, ctx)" by (cases "sv_loops s ! i")
  note at = routine_at [OF assms(1,2) r]
  obtain c qs b where t: "Start_tick now (sv_heap s ! a) = Done ((c, qs), b)"
    using assms(3) r by (auto simp: tick_loop_def split: outcome.splits)
  note st = Start_tick_steady [OF at(2) t]
  show ?thesis
    using assms(3) r t st at(1) inv_exit_loop [OF assms(1,2) r, of c qs] inv_resume [OF assms(1) at(1), of c qs]
    by (auto simp: tick_loop_def split: if_splits)
qed

subsection \<open>Workers, inventory and draining keep the invariant\<close>

lemma worker_step_ok:
  assumes "worker_inv env n h w s" and "\<forall>c \<in> set h. wf_client c" and "worker_step log2i cfg io ch s h stats = Some r"
  shows "\<exists>s1. turn_ok s1 h r \<and> worker_inv env n h w s1"
proof (cases ch)
  case Queue
  then obtain a q where q: "w_queue s = a # q" "r = worker_queue_step log2i cfg io a (s\<lparr>w_queue := q\<rparr>) h stats"
    using assms(3) by (auto split: list.splits)
  moreover have "worker_inv env n h w (s\<lparr>w_queue := q\<rparr>)" "a < length h" "length (w_buf s) = 128"
    using assms(1) q by (auto simp: worker_inv_def)
  ultimately show ?thesis
    using assms(2) worker_queue_step_ok [of h a "s\<lparr>w_queue := q\<rparr>" log2i cfg io stats] by auto
next
  case SignalingQueue
  then obtain a q where q: "w_signalingQueue s = a # q" "r = worker_signaling_step io a (s\<lparr>w_signalingQueue := q\<rparr>) h stats"
    using assms(3) by (auto split: list.splits)
  moreover have "worker_inv env n h w (s\<lparr>w_signalingQueue := q\<rparr>)" "a < length h" "granted (h ! a)" "length (w_buf s) = 128"
    using assms(1) q by (auto simp: worker_inv_def)
  ultimately show ?thesis
    using assms(2) worker_signaling_step_ok [of h a "s\<lparr>w_signalingQueue := q\<rparr>" io stats] by auto
qed

lemma worker_inv_frame: "worker_inv env n h w s \<Longrightarrow> worker_frame s s' \<Longrightarrow> worker_inv env n h w s'"
  by (simp add: worker_inv_def worker_frame_def table.holds_def table_entries_def)

text \<open>A worker's turn never panics and keeps the invariant.\<close>

lemma worker_turn_ok:
  assumes "server_inv env n s" and "w < length (sv_sw s)" and "worker_turn env w ch io s = Some r"
  shows "\<exists>s'. r = Done s' \<and> server_inv env n s'"
proof -
  have wi: "worker_inv env n (sv_heap s) w (sv_sw s ! w)" and wf: "\<forall>c \<in> set (sv_heap s). wf_client c"
    using assms(1,2) by (auto simp: server_inv_def heap_ok_def)
  obtain t where t: "worker_step (env_log2i env) (sv_Config s) io ch (sv_sw s ! w) (sv_heap s) (sv_Stats s) = Some t"
    using assms(3) by (auto simp: worker_turn_def split: option.splits)
  then obtain s1 wk h stats out where ok: "t = Some (wk, h, stats, out)" "worker_frame s1 wk"
    "length h = length (sv_heap s)" "heap_le (sv_heap s) h" "\<forall>x \<in> set out. good_sent x"
    "worker_inv env n (sv_heap s) w s1"
    using worker_step_ok [OF wi wf t] by (auto simp: turn_ok_def)
  have "heap_ok n h"
    using assms(1) ok(3,4)
    by (simp add: server_inv_def heap_ok_def heap_le_def steady_def all_set_conv_all_nth)
  then have "server_inv env n (s\<lparr>sv_heap := h\<rparr>)" using assms(1) ok(4) by (intro server_inv_heap)
  moreover have "worker_inv env n h w wk"
    using worker_inv_frame [OF worker_inv_heap [OF ok(6,4)] ok(2)] .
  ultimately have "server_inv env n (on_worker w (\<lambda>_. wk) (s\<lparr>sv_heap := h\<rparr>))"
    by (intro inv_on_worker) simp_all
  then show ?thesis
    using assms(3) t ok(1,5) by (auto simp: worker_turn_def on_worker_def server_inv_def)
qed

lemma keep_running_frame [simp]:
  "w_buf (keep_running P s) = w_buf s" "w_queue (keep_running P s) = w_queue s"
  "w_signalingQueue (keep_running P s) = w_signalingQueue s"
  by (simp_all add: keep_running_def)

lemma inv_inventory_worker:
  assumes "server_inv env n s" and "w < n"
  shows "server_inv env n (inventory_worker w s)"
proof -
  let ?k = "fst (inventoryClients (sv_heap s) (sv_sw s ! w) (sv_Stats s))"
  have "worker_inv env n (sv_heap s) w (sv_sw s ! w)" using assms by (simp add: server_inv_def)
  then have "worker_inv env n (sv_heap s) w ?k"
    by (simp add: worker_inv_def inventoryClients_eq table.holds_restrict)
  then have "server_inv env n (on_worker w (\<lambda>_. ?k) s)" using assms(1) by (intro inv_on_worker)
  then show ?thesis
    by (simp add: inventory_worker_def on_worker_def server_inv_def split: prod.split) auto
qed

lemma inv_inventory_all: "server_inv env n s \<Longrightarrow> server_inv env n (inventory_all s)"
proof -
  have "server_inv env n s \<Longrightarrow> \<forall>w \<in> set ws. w < n \<Longrightarrow> server_inv env n (fold inventory_worker ws s)" for ws
    by (induction ws arbitrary: s) (auto simp: inv_inventory_worker)
  then have "\<forall>w \<in> set [0..<length (sv_sw s)]. w < n \<Longrightarrow> server_inv env n s \<Longrightarrow> server_inv env n (inventory_all s)"
    unfolding inventory_all_def by blast
  then show "server_inv env n s \<Longrightarrow> server_inv env n (inventory_all s)"
    by (auto simp: server_inv_def [of env n s])
qed

lemma inv_contexts:
  assumes "server_inv env n s"
  shows "server_inv env n (Drain_cancel s)" "server_inv env n (Undrain s)"
  using assms by (auto simp: server_inv_def Drain_cancel_def Undrain_def routine_ok_def)

lemma inv_report_metrics: "server_inv env n s \<Longrightarrow> server_inv env n (report_metrics ord s)"
  by (simp add: report_metrics_def Let_def inv_on_stats inv_inventory_all)

lemma inv_reload_config: "server_inv env n s \<Longrightarrow> server_inv env n (reload_config env s)"
  by (cases "ReadDynamicConfig (env_cfg env) (ConfigFile (cfg_static (sv_Config s)))")
    (simp_all add: reload_config_def inv_on_stats, simp add: server_inv_def)


lemma inv_exec:
  assumes "server_inv env n s" and "exec env ev s = Some (Done s')"
  shows "server_inv env n s'"
proof (cases ev)
  case (CtxDone i)
  obtain a ctx where r: "sv_loops s ! i = (a, ctx)" by (cases "sv_loops s ! i")
  obtain c qs where e: "Start_exit (sv_heap s ! a) = (c, qs)" by (cases "Start_exit (sv_heap s ! a)")
  then show ?thesis
    using assms CtxDone r routine_at [OF assms(1) _ r] Start_exit_steady [OF _ e] inv_exit_loop [OF assms(1) _ r, of c qs]
    by (auto split: if_splits)
next
  case (StopReceived i)
  obtain a ctx where r: "sv_loops s ! i = (a, ctx)" by (cases "sv_loops s ! i")
  let ?c = "(sv_heap s ! a)\<lparr>sc_stop := tl (sc_stop (sv_heap s ! a))\<rparr>"
  obtain c qs where e: "Start_exit ?c = (c, qs)" by (cases "Start_exit ?c")
  have "steady (sv_heap s ! a) ?c" by (simp add: steady_def)
  then show ?thesis
    using assms StopReceived r e routine_at [OF assms(1) _ r] Start_exit_steady [OF _ e] steady_trans [of "sv_heap s ! a" ?c c]
      inv_exit_loop [OF assms(1) _ r, of c qs]
    by (auto simp: Let_def split: if_splits)
next
  case (WorkerTurn w ch io)
  then show ?thesis using assms worker_turn_ok [OF assms(1), of w ch io] by (auto split: if_splits)
qed (use assms inv_contexts [OF assms(1)] in \<open>auto simp: inv_on_stats inv_inventory_all inv_report_metrics
  inv_reload_config split: if_splits intro: inv_handleEventMessage inv_handleGeneralMessage inv_begin_loop inv_tick_loop\<close>)

lemma inv_start:
  assumes "fst (Server_Start cenv c stats checks) = Inr s" and "0 < SendWorkers (cfg_static c)"
    and "SendWorkers (cfg_static c) < 2 ^ 63"
  shows "server_inv env (nat (SendWorkers (cfg_static c))) s"
proof -
  have "worker_inv env n [] w (newSendWorker i)" for n w i
    by (simp add: worker_inv_def newSendWorker_def table.holds_empty)
  then show ?thesis
    using assms by (auto simp: Server_Start_def server_inv_def heap_ok_def split: sum.splits option.splits prod.splits)
qed

lemma inv_reachable:
  assumes "reachable env s0 s" and "server_inv env n s0"
  shows "server_inv env n s"
  using assms by (induction rule: reachable.induct) (auto intro: inv_exec)

end
