(* ===== verification/Ptp_Safety.thy ===== *)
theory Ptp_Safety
  imports Ptp_Invariant
begin

section \<open>Runs of the server\<close>

text \<open>
  What holds in every state that a started server reaches (\<^verbatim>\<open>src/server/server.go\<close> with its workers
  and subscriptions): its invariant, which iterations can panic, what is on the wire, what a request
  for unicast transmission, a cancellation and a drain do. Concrete runs, evaluated in the kernel,
  show that the hypotheses can be met.
\<close>

subsection \<open>Crashes\<close>

lemma event_no_crash: "server_inv env n s \<Longrightarrow> handleEventMessage env now dReq buf sa rxTS s \<noteq> Crash"
  using UnmarshalBinary_no_panic_tlvs(2) [of "dReq\<lparr>sync_TLVs := []\<rparr>" buf]
  by (auto simp: handleEventMessage_def delay_request_def findWorker_eq server_inv_def Let_def
    split: sum.splits option.splits)

lemma Stop_no_crash: "Stop now c \<noteq> Crash"
  by (simp add: Stop_def Let_def)

lemma handle_tlv_no_crash:
  assumes "0 < length (sv_sw s)"
  shows "handle_tlv env now gclisa sg tlv s \<noteq> Crash"
proof (cases tlv)
  case (RequestUnicastTransmissionTLV v)
  have "grant_request env now gclisa sg v t (on_stats f s) \<noteq> Crash" for t f
    using grant_request_eq [of "on_stats f s" "length (sv_sw s)" env now gclisa sg v t] assms
    by (auto simp: Let_def split: prod.split)
  then show ?thesis by (simp add: RequestUnicastTransmissionTLV Let_def)
next
  case (CancelUnicastTransmissionTLV v)
  then show ?thesis
    using assms Stop_no_crash
    by (auto simp: Let_def cancel_request_def findWorker_eq split: option.splits outcome.splits)
qed (simp_all)

lemma obind_Crash: "obind m f = Crash \<longleftrightarrow> m = Crash \<or> (\<exists>x. m = Done x \<and> f x = Crash)"
  by (cases m) auto

lemma handle_tlvs_no_crash:
  assumes "server_inv env n s" and "Header_MessageType (sig_Header sg) = MessageSignaling"
  shows "handle_tlvs env now gclisa sg tlvs s \<noteq> Crash"
  using assms
proof (induction tlvs arbitrary: s)
  case (Cons tlv tlvs)
  have "0 < length (sv_sw s)" using Cons.prems(1) by (simp add: server_inv_def)
  then show ?case
    using Cons handle_tlv_no_crash [of s env now gclisa sg tlv] by (auto simp: obind_Crash dest: inv_handle_tlv)
qed simp

lemma general_no_crash:
  assumes "server_inv env n s"
  shows "handleGeneralMessage env now sg buf sa s \<noteq> Crash"
  using UnmarshalBinary_no_panic_tlvs(3) [of "sg\<lparr>sig_TLVs := []\<rparr>" buf]
    handle_tlvs_no_crash [OF assms Signaling_Unmarshal_type]
  by (auto simp: handleGeneralMessage_def split: sum.splits option.splits)

definition ticker_panic :: "event \<Rightarrow> Server \<Rightarrow> bool" where
  "ticker_panic ev s \<longleftrightarrow>
     (\<exists>i. ev = BeginLoop i \<and> i < length (sv_spawned s)
        \<and> sc_interval (sv_heap s ! fst (sv_spawned s ! i)) \<le> 0)
     \<or> (\<exists>now i. ev = Tick now i \<and> i < length (sv_loops s)
        \<and> sc_interval (sv_heap s ! fst (sv_loops s ! i)) \<le> 0)"

lemma Start_begin_Crash: "Start_begin c = Crash \<longleftrightarrow> sc_interval c \<le> 0" "Start_begin c \<noteq> Hang x"
  by (simp_all add: Start_begin_def Let_def setRunning_def)

lemma Start_tick_Crash: "Start_tick now c = Crash \<Longrightarrow> sc_interval c \<le> 0" "Start_tick now c \<noteq> Hang x"
  by (auto simp: Start_tick_def Let_def split: if_splits)

lemma exec_Crash:
  assumes "server_inv env n s" and "exec env ev s = Some Crash"
  shows "ticker_panic ev s"
proof (cases ev)
  case (BeginLoop i)
  obtain a ctx where r: "sv_spawned s ! i = (a, ctx)" by (cases "sv_spawned s ! i")
  then show ?thesis
    using assms BeginLoop Start_begin_Crash [of "sv_heap s ! a"]
    by (auto simp: begin_loop_def ticker_panic_def split: if_splits outcome.splits)
next
  case (Tick now i)
  obtain a ctx where r: "sv_loops s ! i = (a, ctx)" by (cases "sv_loops s ! i")
  then show ?thesis
    using assms Tick Start_tick_Crash [of now "sv_heap s ! a"]
    by (auto simp: tick_loop_def ticker_panic_def split: if_splits outcome.splits)
next
  case (WorkerTurn w ch io)
  then show ?thesis using assms worker_turn_ok [OF assms(1), of w ch io] by (auto split: if_splits)
qed (use assms event_no_crash [OF assms(1)] general_no_crash [OF assms(1)] in \<open>auto simp: Let_def split: if_splits\<close>)

text \<open>A server that \<^verbatim>\<open>main\<close> starts, and the states it reaches.\<close>

definition started :: "server_env \<Rightarrow> Server \<Rightarrow> bool" where
  "started env s \<longleftrightarrow> (\<exists>c stats checks. fst (Server_Start (env_cfg env) c stats checks) = Inr s
     \<and> Config_Validate (env_cfg env) (cfg_static c) = None \<and> SendWorkers (cfg_static c) < 2 ^ 63)"

lemma started_inv: "started env s0 \<Longrightarrow> reachable env s0 s \<Longrightarrow> server_inv env (length (sv_sw s0)) s"
proof -
  assume "started env s0" and r: "reachable env s0 s"
  then obtain c stats checks where s: "fst (Server_Start (env_cfg env) c stats checks) = Inr s0"
    and v: "Config_Validate (env_cfg env) (cfg_static c) = None" and l: "SendWorkers (cfg_static c) < 2 ^ 63"
    by (auto simp: started_def)
  have "server_inv env (nat (SendWorkers (cfg_static c))) s0"
    using s Config_Validate_None(5) [OF v] l by (rule inv_start)
  then show ?thesis using inv_reachable [OF r] by (auto simp: server_inv_def)
qed

subsection \<open>Sample runs\<close>

text \<open>A sequence of iterations, up to the first crash, wait or iteration that is not ready.\<close>

fun run :: "server_env \<Rightarrow> event list \<Rightarrow> Server \<Rightarrow> Server outcome option" where
  "run env [] s = Some (Done s)"
| "run env (ev # evs) s = (case exec env ev s of Some (Done s') \<Rightarrow> run env evs s' | r \<Rightarrow> r)"

lemma run_reachable:
  assumes "run env evs s = Some (Done s')" and "reachable env s0 s"
  shows "reachable env s0 s'"
  using assms
  by (induction evs arbitrary: s) (auto split: option.splits outcome.splits intro: reachable.iteration)

definition sample_senv :: server_env where
  "sample_senv = \<lparr>env_hash = (\<lambda>b. 5), env_log2i = log2_ideal, env_oor = 0, env_cfg = sample_env\<rparr>"

definition sample_server :: Server where
  "sample_server =
     \<lparr>sv_Config = sample_config\<lparr>cfg_static := sample_static\<lparr>SendWorkers := 2, cfg_IP := IPv6zero\<rparr>,
        cfg_clockIdentity := 0x010203fffe040506\<rparr>,
      sv_Stats = NewJSONStats, sv_Checks = [], sv_sw = map (\<lambda>i. newSendWorker (int i)) [0..<2],
      sv_heap = [], sv_ctxs = [False], sv_ctx = 0, sv_spawned = [], sv_loops = [], sv_sent = []\<rparr>"

definition sample_state :: "event list \<Rightarrow> Server" where
  "sample_state evs = (case run sample_senv evs sample_server of Some (Done s) \<Rightarrow> s)"

definition run_done :: "event list \<Rightarrow> bool" where
  "run_done evs = (case run sample_senv evs sample_server of Some (Done s) \<Rightarrow> True | _ \<Rightarrow> False)"

lemma sample_started: "started sample_senv sample_server"
proof -
  let ?c = "sample_config\<lparr>cfg_static := sample_static\<lparr>SendWorkers := 2, cfg_IP := IPv6zero\<rparr>\<rparr>"
  have "Config_Validate (env_cfg sample_senv) (cfg_static ?c) = None"
    by (simp add: Config_Validate_def sample_static_def sample_env_def sample_senv_def IfaceHasIP_def ifaceIPs_def
      IPv6zero_def)
  moreover have "fst (Server_Start (env_cfg sample_senv) ?c NewJSONStats []) = Inr sample_server"
    by (simp add: sample_server_def sample_senv_def sample_env_def Server_Start_def NewClockIdentity_def
      CreatePidFile_def WriteFile_def Let_def be_val_def)
  ultimately show ?thesis
    unfolding started_def by (intro exI [of _ ?c] exI conjI) (assumption+, simp)
qed

lemma sample_reachable: "run_done evs \<Longrightarrow> reachable sample_senv sample_server (sample_state evs)"
  using run_reachable [OF _ reachable.start]
  by (auto simp: run_done_def sample_state_def split: option.splits outcome.splits)

lemma run_append:
  "run env (evs @ evs') s = (case run env evs s of Some (Done s') \<Rightarrow> run env evs' s' | r \<Rightarrow> r)"
  by (induction evs arbitrary: s) (auto split: option.split outcome.split)

lemma sample_step:
  assumes "run_done (evs @ [ev])"
  shows "exec sample_senv ev (sample_state evs) = Some (Done (sample_state (evs @ [ev])))"
  using assms by (auto simp: run_done_def sample_state_def run_append split: option.splits outcome.splits)

definition sample_tlv :: "u8 \<Rightarrow> u8 \<Rightarrow> u32 \<Rightarrow> RequestUnicastTransmission" where
  "sample_tlv mt i d = \<lparr>req_Head = \<lparr>TLVType = TLVRequestUnicastTransmission, LengthField = 6\<rparr>,
     req_MsgTypeAndReserved = mt, req_LogInterMessagePeriod = i, req_DurationField = d\<rparr>"

definition sample_signaling :: "TLV list \<Rightarrow> Signaling" where
  "sample_signaling tlvs = \<lparr>sig_Header = zero_Header\<lparr>SdoIDAndMsgType := MessageSignaling, MessageLength := 54,
     SourcePortIdentity := PortIdentity 9 1\<rparr>, TargetPortIdentity = PortIdentity 7 1, sig_TLVs = tlvs\<rparr>"

text \<open>A client asks for Sync messages every two seconds, and its goroutine begins.\<close>

definition sample_request :: "u8 \<Rightarrow> u32 \<Rightarrow> event" where
  "sample_request i d = GeneralPacket 0 zero_Signaling
     (packet_bytes (PSignaling (sample_signaling [RequestUnicastTransmissionTLV (sample_tlv 0 i d)])))
     (SockaddrInet4 320 [10, 0, 0, 9])"

definition sample_running :: "event list" where
  "sample_running = [sample_request 1 60, BeginLoop 0]"

lemma sample_running_done: "run_done sample_running"
  by code_simp

subsection \<open>Safety\<close>

text \<open>C1: in every state a started server reaches, under any interleaving of its goroutines and any input, the server invariant holds: every queued, registered or running client exists, belongs to the worker that holds it and to the worker its port identity hashes to, its packets are well-formed, and everything sent is a packet that decodes.\<close>

theorem reachable_invariant:
  assumes "started env s0" and "reachable env s0 s"
  shows "server_inv env (length (sv_sw s0)) s"
  using assms by (rule started_inv)

lemma sample_sizes: "length (sv_sw sample_server) = 2" "length (sv_sw (sample_state sample_running)) = 2"
  by code_simp+

theorem reachable_invariant_witness: "server_inv sample_senv 2 (sample_state sample_running)"
  using reachable_invariant [OF sample_started sample_reachable [OF sample_running_done]]
  by (simp add: sample_sizes)



text \<open>C23: everything a started server ever hands to the kernel decodes as a well-formed packet, and is as long as the message length of its header says plus the two trailing bytes.\<close>

theorem sent_packets_decode:
  assumes "started env s0" and "reachable env s0 s" and "x \<in> set (sv_sent s)"
  shows "\<exists>p. DecodePacket (sent_bytes x) = Some (Inr p) \<and> wf_packet p
    \<and> length (sent_bytes x) = unat (MessageLength (packet_Header p)) + 2"
proof -
  have "good_sent x" using started_inv [OF assms(1,2)] assms(3) by (simp add: server_inv_def)
  then show ?thesis using DecodePacket_eq by (auto simp: good_sent_def wf_packet_def)
qed

definition sample_answered :: "event list" where
  "sample_answered = sample_running
     @ [WorkerTurn 1 SignalingQueue \<lparr>io_event = SendOk, io_txts = (0, 0, False), io_general = SendOk\<rparr>]"

theorem sent_packets_decode_witness:
  "\<exists>p. DecodePacket (sent_bytes (hd (sv_sent (sample_state sample_answered)))) = Some (Inr p) \<and> wf_packet p"
proof -
  have "run_done sample_answered" by code_simp
  moreover have "sv_sent (sample_state sample_answered) \<noteq> []" by code_simp
  ultimately show ?thesis
    using sent_packets_decode [OF sample_started sample_reachable, of sample_answered
      "hd (sv_sent (sample_state sample_answered))"] by auto
qed

text \<open>C24: a port identity has its subscriptions of one type on at most one worker, the one \<^verbatim>\<open>findWorker\<close> chooses with offset zero, and the registered client is of that type and belongs to that worker (delay requests, whose worker depends on the offset the client asks for, apart).\<close>

theorem client_affinity:
  assumes "started env s0" and "reachable env s0 s" and "w < length (sv_sw s)" and "w' < length (sv_sw s)"
    and "FindSubscription k t (sv_sw s ! w) = Some a" and "FindSubscription k t (sv_sw s ! w') = Some a'"
    and "t \<noteq> MessageDelayReq"
  shows "w = w' \<and> findWorker env k 0 s = Some w \<and> a = a'
    \<and> sc_subscriptionType (sv_heap s ! a) = t \<and> sc_worker (sv_heap s ! a) = w"
proof -
  let ?n = "length (sv_sw s0)"
  have inv: "server_inv env ?n s" using assms(1,2) by (rule started_inv)
  then have "entry_ok env ?n (sv_heap s) w t k a" "entry_ok env ?n (sv_heap s) w' t k a'" "length (sv_sw s) = ?n" "0 < ?n"
    using assms(3-6) found_entry [OF inv] by (simp_all add: server_inv_def)
  then show ?thesis using assms(5-7) by (auto simp: entry_ok_def assigned_def findWorker_eq)
qed

theorem client_affinity_witness:
  "findWorker sample_senv (PortIdentity 9 1) 0 (sample_state sample_running) = Some 1
    \<and> sc_worker (sv_heap (sample_state sample_running) ! 0) = 1"
proof -
  have "FindSubscription (PortIdentity 9 1) MessageSync (sv_sw (sample_state sample_running) ! 1) = Some 0"
    by code_simp
  then show ?thesis
    using client_affinity [OF sample_started sample_reachable [OF sample_running_done], of 1 1 "PortIdentity 9 1"
      MessageSync 0 0] by (simp add: sample_sizes)
qed

subsection \<open>What a request for unicast transmission does\<close>

definition grant_tlv :: "RequestUnicastTransmission \<Rightarrow> u32 \<Rightarrow> TLV" where
  "grant_tlv v d = GrantUnicastTransmissionTLV
     \<lparr>grant_Head = \<lparr>TLVType = TLVGrantUnicastTransmission, LengthField = 8\<rparr>,
      grant_MsgTypeAndReserved = req_MsgTypeAndReserved v,
      grant_LogInterMessagePeriod = req_LogInterMessagePeriod v,
      grant_DurationField = d, grant_Reserved = 0, grant_Renewal = 1\<rparr>"

text \<open>
  The answer to a request: client \<open>a\<close> of worker \<open>w\<close> is the registered subscription and
  the last on the signaling channel, with a message that grants \<open>d\<close> seconds to the requester.
\<close>

definition answered ::
  "Signaling \<Rightarrow> RequestUnicastTransmission \<Rightarrow> u32 \<Rightarrow> nat \<Rightarrow> addr \<Rightarrow> Server \<Rightarrow> bool" where
  "answered sg v d w a s \<longleftrightarrow>
     FindSubscription (SourcePortIdentity (sig_Header sg)) (Unicast_MsgType (req_MsgTypeAndReserved v)) (sv_sw s ! w) = Some a
     \<and> last (w_signalingQueue (sv_sw s ! w)) = a \<and> w_signalingQueue (sv_sw s ! w) \<noteq> []
     \<and> sig_TLVs (sc_signaling (sv_heap s ! a)) = [grant_tlv v d]
     \<and> TargetPortIdentity (sc_signaling (sv_heap s ! a)) = SourcePortIdentity (sig_Header sg)
     \<and> SequenceID (sig_Header (sc_signaling (sv_heap s ! a))) = SequenceID (sig_Header sg)"

abbreviation req_type :: "RequestUnicastTransmission \<Rightarrow> u8" where
  "req_type v \<equiv> Unicast_MsgType (req_MsgTypeAndReserved v)"

abbreviation grantable :: "u8 \<Rightarrow> bool" where
  "grantable t \<equiv> t \<in> {MessageAnnounce, MessageSync, MessageDelayResp}"

lemma FindSubscription_cong:
  "w_clients w = w_clients w' \<Longrightarrow> FindSubscription k t w = FindSubscription k t w'"
  by (simp add: FindSubscription_def)

lemma push_clients [simp]: "w_clients (sv_sw (push a q s) ! w) = w_clients (sv_sw s ! w)"
  by (cases q; cases "sc_worker (sv_heap s ! a) < length (sv_sw s)")
    (auto simp: push.simps on_worker_def nth_list_update list_update_beyond)

lemma find_push [simp]: "FindSubscription k t (sv_sw (push a q s) ! w) = FindSubscription k t (sv_sw s ! w)"
  by (rule FindSubscription_cong) simp

lemma find_register [simp]:
  "w < length (sv_sw s) \<Longrightarrow>
     FindSubscription k t (sv_sw (on_worker w (RegisterSubscription k t a) s) ! w) = Some a"
  by (simp add: on_worker_def table.find_register)

lemma push_signaling [simp]:
  "sc_worker (sv_heap s ! a) = w \<Longrightarrow> w < length (sv_sw s) \<Longrightarrow>
     w_signalingQueue (sv_sw (push a ToSignalingQueue s) ! w) = w_signalingQueue (sv_sw s ! w) @ [a]"
  by (simp add: push.simps on_worker_def)

lemma push_others [simp]:
  "sv_spawned (push a q s) = sv_spawned s" "sv_loops (push a q s) = sv_loops s" "sv_ctx (push a q s) = sv_ctx s"
  "length (sv_sw (push a q s)) = length (sv_sw s)" "sv_Config (push a q s) = sv_Config s"
  by (cases q; simp add: push.simps on_worker_def)+

lemma client_others [simp]:
  "sv_spawned (on_client a f s) = sv_spawned s" "sv_loops (on_client a f s) = sv_loops s" "sv_ctx (on_client a f s) = sv_ctx s"
  "sv_spawned (on_worker w g s) = sv_spawned s" "sv_loops (on_worker w g s) = sv_loops s" "sv_ctx (on_worker w g s) = sv_ctx s"
  "sv_spawned (on_stats h s) = sv_spawned s" "sv_loops (on_stats h s) = sv_loops s" "sv_ctx (on_stats h s) = sv_ctx s"
  by (simp_all add: on_client_def on_worker_def on_stats_def)

lemma answeredI:
  assumes "FindSubscription (SourcePortIdentity (sig_Header sg)) (req_type v) (sv_sw s ! w) = Some a"
    and "a < length (sv_heap s)" and "sc_worker (sv_heap s ! a) = w" and "w < length (sv_sw s)"
  shows "answered sg v d w a (sendSignalingGrant sg (req_MsgTypeAndReserved v) (req_LogInterMessagePeriod v) d a s)"
  using assms
  by (simp add: answered_def sendSignalingGrant_def UpdateSignalingGrant_def Let_def grant_tlv_def)

lemma grant_client_registered:
  assumes "server_inv env n s" and "w < n" and "served t" and "assigned env n w t k"
    and "grant_client env now g k t i e w s = (a, s1)"
  shows "FindSubscription k t (sv_sw s1 ! w) = Some a" "a < length (sv_heap s1)" "sc_worker (sv_heap s1 ! a) = w"
    "w < length (sv_sw s1)" "sc_expire (sv_heap s1 ! a) = e" "sc_interval (sv_heap s1 ! a) = i" "sc_gclisa (sv_heap s1 ! a) = g"
    "sv_spawned s1 = sv_spawned s" "sv_loops s1 = sv_loops s" "sv_ctx s1 = sv_ctx s"
proof -
  have l: "length (sv_sw s) = n" using assms(1) by (simp add: server_inv_def)
  have e: "FindSubscription k t (sv_sw s ! w) = Some x \<Longrightarrow> entry_ok env n (sv_heap s) w t k x" for x
    using found_entry [OF assms(1,2)] .
  show "FindSubscription k t (sv_sw s1 ! w) = Some a" "a < length (sv_heap s1)" "sc_worker (sv_heap s1 ! a) = w"
    "w < length (sv_sw s1)" "sc_expire (sv_heap s1 ! a) = e" "sc_interval (sv_heap s1 ! a) = i" "sc_gclisa (sv_heap s1 ! a) = g"
    "sv_spawned s1 = sv_spawned s" "sv_loops s1 = sv_loops s" "sv_ctx s1 = sv_ctx s"
    using assms(2,5) l e
    by (auto simp: grant_client_def entry_ok_def SetExpire_def SetInterval_def SetGclisa_def
      split: option.splits if_splits)
qed

lemma on_stats_acceptable [simp]: "acceptable (on_stats f s) i d = acceptable s i d"
  by (simp add: acceptable_def)

text \<open>The client and state a request works on, in a state that satisfies the invariant.\<close>

lemma request_parts:
  assumes "server_inv env n s" and "grantable (req_type v)"
  obtains a s1 where
    "handle_tlv env now gclisa sg (RequestUnicastTransmissionTLV v) s =
       (if acceptable s (req_interval env v) (req_duration v)
        then (let s2 = sendSignalingGrant sg (req_MsgTypeAndReserved v) (req_LogInterMessagePeriod v) (req_DurationField v) a s1
              in Done (if sc_running (sv_heap s2 ! a) then s2 else spawn a s2))
        else Done (sendSignalingGrant sg (req_MsgTypeAndReserved v) (req_LogInterMessagePeriod v) 0 a s1))"
    and "FindSubscription (SourcePortIdentity (sig_Header sg)) (req_type v)
      (sv_sw s1 ! worker_index env n (SourcePortIdentity (sig_Header sg)) 0) = Some a"
    and "a < length (sv_heap s1)" and "sc_worker (sv_heap s1 ! a) = worker_index env n (SourcePortIdentity (sig_Header sg)) 0"
    and "worker_index env n (SourcePortIdentity (sig_Header sg)) 0 < length (sv_sw s1)"
    and "sc_expire (sv_heap s1 ! a) = now + req_duration v" and "sc_interval (sv_heap s1 ! a) = req_interval env v"
    and "sc_gclisa (sv_heap s1 ! a) = gclisa"
    and "sv_spawned s1 = sv_spawned s" and "sv_loops s1 = sv_loops s" and "sv_ctx s1 = sv_ctx s"
proof -
  let ?s = "on_stats (IncRXSignalingGrant (req_type v)) s"
  let ?k = "SourcePortIdentity (sig_Header sg)"
  let ?w = "worker_index env n ?k 0"
  have inv: "server_inv env n ?s" and n: "length (sv_sw ?s) = n" "0 < n" "n < 2 ^ 64"
    using assms(1) by (simp_all add: inv_on_stats) (simp_all add: server_inv_def)
  obtain a s1 where gc: "grant_client env now gclisa ?k (req_type v) (req_interval env v) (now + req_duration v) ?w ?s = (a, s1)"
    by (cases "grant_client env now gclisa ?k (req_type v) (req_interval env v) (now + req_duration v) ?w ?s")
  have "?w < n" "assigned env n ?w (req_type v) ?k" using n by (auto simp: worker_index_less assigned_def)
  note r = grant_client_registered [OF inv this(1) _ this(2) gc]
  show ?thesis
    by (rule that [of a s1]) (use assms(2) r gc grant_request_eq [OF n(1,2), of env now gclisa sg v "req_type v"] in
      \<open>auto simp: Let_def\<close>)
qed

text \<open>C18: a request whose interval and duration the configuration allows, while the server is not draining, is answered by a grant of the requested duration to the requester with the sequence number of the request; the registered subscription expires after that duration, uses the requested interval and the address of the requester, and it runs or its goroutine has been created.\<close>

theorem grant_accepted:
  assumes "started env s0" and "reachable env s0 s" and "grantable (req_type v)"
    and "acceptable s (req_interval env v) (req_duration v)"
  shows "\<exists>s' w a. handle_tlv env now gclisa sg (RequestUnicastTransmissionTLV v) s = Done s'
    \<and> findWorker env (SourcePortIdentity (sig_Header sg)) 0 s = Some w
    \<and> answered sg v (req_DurationField v) w a s'
    \<and> sc_expire (sv_heap s' ! a) = now + req_duration v
    \<and> sc_interval (sv_heap s' ! a) = req_interval env v \<and> sc_gclisa (sv_heap s' ! a) = gclisa
    \<and> (sc_running (sv_heap s' ! a) \<or> (a, sv_ctx s) \<in> set (sv_spawned s'))"
proof -
  let ?n = "length (sv_sw s0)"
  have inv: "server_inv env ?n s" using assms(1,2) by (rule started_inv)
  show ?thesis
  proof (rule request_parts [OF inv assms(3), of now gclisa sg])
    fix a s1
    let ?w = "worker_index env ?n (SourcePortIdentity (sig_Header sg)) 0"
    let ?s2 = "sendSignalingGrant sg (req_MsgTypeAndReserved v) (req_LogInterMessagePeriod v) (req_DurationField v) a s1"
    assume h: "handle_tlv env now gclisa sg (RequestUnicastTransmissionTLV v) s =
       (if acceptable s (req_interval env v) (req_duration v)
        then (let s2 = ?s2 in Done (if sc_running (sv_heap s2 ! a) then s2 else spawn a s2))
        else Done (sendSignalingGrant sg (req_MsgTypeAndReserved v) (req_LogInterMessagePeriod v) 0 a s1))"
      and f: "FindSubscription (SourcePortIdentity (sig_Header sg)) (req_type v) (sv_sw s1 ! ?w) = Some a"
      and a: "a < length (sv_heap s1)" "sc_worker (sv_heap s1 ! a) = ?w" "?w < length (sv_sw s1)"
      and e: "sc_expire (sv_heap s1 ! a) = now + req_duration v" "sc_interval (sv_heap s1 ! a) = req_interval env v"
        "sc_gclisa (sv_heap s1 ! a) = gclisa" and c: "sv_ctx s1 = sv_ctx s"
    have w: "findWorker env (SourcePortIdentity (sig_Header sg)) 0 s = Some ?w"
      using inv by (simp add: findWorker_eq server_inv_def)
    have ans: "answered sg v (req_DurationField v) ?w a ?s2" using f a by (rule answeredI)
    then have "answered sg v (req_DurationField v) ?w a (spawn a ?s2)" by (simp add: answered_def)
    moreover have "sv_ctx ?s2 = sv_ctx s" using c by (simp add: sendSignalingGrant_def)
    moreover have "sc_expire (sv_heap ?s2 ! a) = now + req_duration v" "sc_interval (sv_heap ?s2 ! a) = req_interval env v"
      "sc_gclisa (sv_heap ?s2 ! a) = gclisa"
      using a(1) e by (simp_all add: UpdateSignalingGrant_def Let_def)
    ultimately show ?thesis using h ans w assms(4) by (auto simp: Let_def spawn_def)
  qed
qed

theorem grant_accepted_witness:
  "\<exists>s'. handle_tlv sample_senv 5 (SockaddrInet4 320 [10, 0, 0, 9]) (sample_signaling [])
       (RequestUnicastTransmissionTLV (sample_tlv 0 1 60)) sample_server = Done s'
     \<and> (\<exists>w a. answered (sample_signaling []) (sample_tlv 0 1 60) 60 w a s')"
proof -
  have "acceptable sample_server (req_interval sample_senv (sample_tlv 0 1 60)) (req_duration (sample_tlv 0 1 60))"
    by code_simp
  moreover have "grantable (req_type (sample_tlv 0 1 60))" by code_simp
  moreover have "req_DurationField (sample_tlv 0 1 60) = 60" by code_simp
  ultimately show ?thesis
    using grant_accepted [OF sample_started reachable.start, of "sample_tlv 0 1 60" 5
      "SockaddrInet4 320 [10, 0, 0, 9]" "sample_signaling []"] by metis
qed

text \<open>C19: a request that is refused (interval too short, duration too long, or the server drains) is answered by a grant of duration zero, and no goroutine is created. But the subscription, even a running one, has by then taken over the refused interval and expiry time.\<close>

theorem grant_rejected:
  assumes "started env s0" and "reachable env s0 s" and "grantable (req_type v)"
    and "\<not> acceptable s (req_interval env v) (req_duration v)"
  shows "\<exists>s' w a. handle_tlv env now gclisa sg (RequestUnicastTransmissionTLV v) s = Done s'
    \<and> findWorker env (SourcePortIdentity (sig_Header sg)) 0 s = Some w
    \<and> answered sg v 0 w a s' \<and> sv_spawned s' = sv_spawned s \<and> sv_loops s' = sv_loops s
    \<and> sc_expire (sv_heap s' ! a) = now + req_duration v
    \<and> sc_interval (sv_heap s' ! a) = req_interval env v"
proof -
  let ?n = "length (sv_sw s0)"
  have inv: "server_inv env ?n s" using assms(1,2) by (rule started_inv)
  show ?thesis
  proof (rule request_parts [OF inv assms(3), of now gclisa sg])
    fix a s1
    let ?w = "worker_index env ?n (SourcePortIdentity (sig_Header sg)) 0"
    let ?s2 = "sendSignalingGrant sg (req_MsgTypeAndReserved v) (req_LogInterMessagePeriod v) 0 a s1"
    assume h: "handle_tlv env now gclisa sg (RequestUnicastTransmissionTLV v) s =
       (if acceptable s (req_interval env v) (req_duration v)
        then (let s2 = sendSignalingGrant sg (req_MsgTypeAndReserved v) (req_LogInterMessagePeriod v) (req_DurationField v) a s1
              in Done (if sc_running (sv_heap s2 ! a) then s2 else spawn a s2))
        else Done ?s2)"
      and f: "FindSubscription (SourcePortIdentity (sig_Header sg)) (req_type v) (sv_sw s1 ! ?w) = Some a"
      and a: "a < length (sv_heap s1)" "sc_worker (sv_heap s1 ! a) = ?w" "?w < length (sv_sw s1)"
      and e: "sc_expire (sv_heap s1 ! a) = now + req_duration v" "sc_interval (sv_heap s1 ! a) = req_interval env v"
      and l: "sv_spawned s1 = sv_spawned s" "sv_loops s1 = sv_loops s"
    have "findWorker env (SourcePortIdentity (sig_Header sg)) 0 s = Some ?w"
      using inv by (simp add: findWorker_eq server_inv_def)
    moreover have "answered sg v 0 ?w a ?s2" using f a by (rule answeredI)
    moreover have "sv_spawned ?s2 = sv_spawned s" "sv_loops ?s2 = sv_loops s" using l by (simp_all add: sendSignalingGrant_def)
    moreover have "sc_expire (sv_heap ?s2 ! a) = now + req_duration v" "sc_interval (sv_heap ?s2 ! a) = req_interval env v"
      using a(1) e by (simp_all add: UpdateSignalingGrant_def Let_def)
    ultimately show ?thesis using h assms(4) by auto
  qed
qed

theorem grant_rejected_witness:
  "\<exists>s'. handle_tlv sample_senv 5 (SockaddrInet4 320 [10, 0, 0, 9]) (sample_signaling [])
       (RequestUnicastTransmissionTLV (sample_tlv 0 1 100000)) sample_server = Done s'
     \<and> (\<exists>w a. answered (sample_signaling []) (sample_tlv 0 1 100000) 0 w a s') \<and> sv_spawned s' = []"
proof -
  have "\<not> acceptable sample_server (req_interval sample_senv (sample_tlv 0 1 100000)) (req_duration (sample_tlv 0 1 100000))"
    by code_simp
  moreover have "sv_spawned sample_server = []" by code_simp
  moreover have "grantable (req_type (sample_tlv 0 1 100000))" by code_simp
  moreover have "req_DurationField (sample_tlv 0 1 100000) = 100000" by code_simp
  ultimately show ?thesis
    using grant_rejected [OF sample_started reachable.start, of "sample_tlv 0 1 100000" 5
      "SockaddrInet4 320 [10, 0, 0, 9]" "sample_signaling []"] by metis
qed

subsection \<open>Draining\<close>

text \<open>What a message handler may not change while the server drains.\<close>

definition no_start :: "Server \<Rightarrow> Server \<Rightarrow> bool" where
  "no_start s s' \<longleftrightarrow> sv_spawned s' = sv_spawned s \<and> sv_loops s' = sv_loops s \<and> ctx_Err s' = ctx_Err s"

lemma no_start_ops [simp]:
  "no_start s s" "no_start s (on_stats f s')= no_start s s'" "no_start s (on_client a g s') = no_start s s'"
  by (simp_all add: no_start_def)

lemma ctx_Err_push [simp]: "ctx_Err (push a q s) = ctx_Err s"
  by (cases q) (simp_all add: push.simps)

lemma no_start_push [simp]: "no_start s (push a q s') = no_start s s'"
  by (simp add: no_start_def)

lemma grant_client_no_start: "no_start s (snd (grant_client env now g k t i e w s))"
  by (simp add: grant_client_def no_start_def split: option.split)

lemma drained_tlv:
  assumes "ctx_Err s" and "0 < length (sv_sw s)"
    and "handle_tlv env now gclisa sg tlv s = Done s' \<or> handle_tlv env now gclisa sg tlv s = Hang s'"
  shows "no_start s s'"
proof (cases tlv)
  case (RequestUnicastTransmissionTLV v)
  let ?s = "on_stats (IncRXSignalingGrant (req_type v)) s"
  let ?k = "SourcePortIdentity (sig_Header sg)"
  obtain a s1 where gc: "grant_client env now gclisa ?k (req_type v) (req_interval env v) (now + req_duration v)
      (worker_index env (length (sv_sw ?s)) ?k 0) ?s = (a, s1)"
    by (cases "grant_client env now gclisa ?k (req_type v) (req_interval env v) (now + req_duration v)
      (worker_index env (length (sv_sw ?s)) ?k 0) ?s")
  then have "no_start s s1"
    using grant_client_no_start [of ?s env now gclisa ?k "req_type v" "req_interval env v" "now + req_duration v"
      "worker_index env (length (sv_sw ?s)) ?k 0"] by (simp add: no_start_def)
  then show ?thesis
    using assms RequestUnicastTransmissionTLV gc
      grant_request_eq [of ?s "length (sv_sw ?s)" env now gclisa sg v "req_type v"]
    by (auto simp: Let_def acceptable_def sendSignalingGrant_def split: if_splits)
next
  case (CancelUnicastTransmissionTLV v)
  then show ?thesis
    using assms by (auto simp: Let_def cancel_request_def split: option.splits outcome.splits)
qed (use assms in auto)

lemma handle_tlv_workers:
  assumes "handle_tlv env now gclisa sg tlv s = Done s'"
  shows "length (sv_sw s') = length (sv_sw s)"
proof (cases tlv)
  case (RequestUnicastTransmissionTLV v)
  then show ?thesis
    using assms by (auto simp: Let_def grant_request_def sendSignalingGrant_def newClient_def
      split: option.splits if_splits prod.splits)
next
  case (CancelUnicastTransmissionTLV v)
  then show ?thesis
    using assms by (auto simp: Let_def cancel_request_def split: option.splits outcome.splits)
qed (use assms in auto)

lemma drained_tlvs:
  assumes "ctx_Err s" and "0 < length (sv_sw s)"
    and "handle_tlvs env now gclisa sg tlvs s = Done s'"
  shows "no_start s s'"
  using assms
proof (induction tlvs arbitrary: s)
  case (Cons tlv tlvs)
  then obtain s1 where s1: "handle_tlv env now gclisa sg tlv s = Done s1" "handle_tlvs env now gclisa sg tlvs s1 = Done s'"
    by (auto simp: obind_Done)
  then have "no_start s s1" using Cons.prems drained_tlv by blast
  moreover from this have "no_start s1 s'"
    using Cons.IH [of s1] s1 Cons.prems handle_tlv_workers [OF s1(1)] by (simp add: no_start_def)
  ultimately show ?case by (simp add: no_start_def)
qed simp

text \<open>C28: while the server drains, no event or general message creates or ends a subscription goroutine or ends the draining, and event messages change neither the subscriptions nor the queues.\<close>

theorem drained_starts_nothing:
  assumes "started env s0" and "reachable env s0 s" and "ctx_Err s"
    and "ev = EventPacket now dReq buf sa rxTS \<or> ev = GeneralPacket now sg buf sa"
    and "exec env ev s = Some (Done s')"
  shows "sv_spawned s' = sv_spawned s \<and> sv_loops s' = sv_loops s \<and> ctx_Err s'
    \<and> (ev = EventPacket now dReq buf sa rxTS \<longrightarrow> sv_sw s' = sv_sw s \<and> sv_heap s' = sv_heap s)"
proof -
  have n: "0 < length (sv_sw s)" using started_inv [OF assms(1,2)] by (simp add: server_inv_def)
  show ?thesis
  proof (cases "ev = EventPacket now dReq buf sa rxTS")
    case True
    then show ?thesis
      using assms(3,5) by (auto simp: handleEventMessage_def Let_def split: sum.splits)
  next
    case False
    then have "handleGeneralMessage env now sg buf sa s = Done s'" using assms(4,5) by auto
    then have "no_start s s'"
      using drained_tlvs [OF assms(3) n]
      by (auto simp: handleGeneralMessage_def split: sum.splits if_splits option.splits)
    then show ?thesis using False assms(3) by (simp add: no_start_def)
  qed
qed

definition sample_drained :: "event list" where
  "sample_drained = sample_running @ [CancelContext]"

theorem drained_starts_nothing_witness:
  "sv_spawned (sample_state (sample_drained @ [sample_request 2 70])) = []
   \<and> length (sv_loops (sample_state (sample_drained @ [sample_request 2 70]))) = 1"
proof -
  let ?s = "sample_state sample_drained" and ?s' = "sample_state (sample_drained @ [sample_request 2 70])"
  let ?b = "packet_bytes (PSignaling (sample_signaling [RequestUnicastTransmissionTLV (sample_tlv 0 2 70)]))"
  let ?e = "GeneralPacket 0 zero_Signaling ?b (SockaddrInet4 320 [10, 0, 0, 9])"
  have r: "run_done sample_drained" by code_simp
  have c: "ctx_Err ?s" by code_simp
  have "run_done (sample_drained @ [sample_request 2 70])" by code_simp
  then have x: "exec sample_senv ?e ?s = Some (Done ?s')"
    using sample_step [of sample_drained "sample_request 2 70"] by (simp only: sample_request_def)
  have f: "sv_spawned ?s = [] \<and> length (sv_loops ?s) = 1" by code_simp
  show ?thesis
    using drained_starts_nothing [OF sample_started sample_reachable [OF r] c disjI2 [OF refl] x] f by simp
qed

subsection \<open>Cancelling\<close>

lemma cancel_at:
  assumes "server_inv env n s" and "findWorker env (SourcePortIdentity (sig_Header sg)) 0 s = Some w"
    and "FindSubscription (SourcePortIdentity (sig_Header sg)) (Unicast_MsgType (cancel_MsgTypeAndFlags v)) (sv_sw s ! w) = Some a"
  shows "handle_tlv env now gclisa sg (CancelUnicastTransmissionTLV v) s =
    (case Stop now (sv_heap s ! a) of
       Done sc \<Rightarrow> Done (on_client a (\<lambda>_. sc) (on_stats (IncRXSignalingCancel (Unicast_MsgType (cancel_MsgTypeAndFlags v))) s))
     | Hang sc \<Rightarrow> Hang (on_client a (\<lambda>_. sc) (on_stats (IncRXSignalingCancel (Unicast_MsgType (cancel_MsgTypeAndFlags v))) s))
     | Crash \<Rightarrow> Crash)"
  using assms by (simp add: Let_def cancel_request_def findWorker_eq split: if_splits)

text \<open>C29: cancelling a running subscription whose stop channel is empty lets its goroutine leave the loop: the client no longer runs, has expired, and a message that cancels its message type is the last on the signaling queue of its worker.\<close>

theorem cancel_stops:
  assumes "started env s0" and "reachable env s0 s"
    and "findWorker env (SourcePortIdentity (sig_Header sg)) 0 s = Some w"
    and "FindSubscription (SourcePortIdentity (sig_Header sg)) t (sv_sw s ! w) = Some a"
    and "t = Unicast_MsgType (cancel_MsgTypeAndFlags v)" and "t \<noteq> MessageDelayReq"
    and "i < length (sv_loops s)" and "fst (sv_loops s ! i) = a"
    and "sc_running (sv_heap s ! a)" and "sc_stop (sv_heap s ! a) = []"
  shows "\<exists>s' s''. handle_tlv env now gclisa sg (CancelUnicastTransmissionTLV v) s = Done s'
    \<and> exec env (StopReceived i) s' = Some (Done s'')
    \<and> \<not> sc_running (sv_heap s'' ! a) \<and> sc_expire (sv_heap s'' ! a) = now
    \<and> sv_loops s'' = remove_nth i (sv_loops s)
    \<and> last (w_signalingQueue (sv_sw s'' ! w)) = a
    \<and> sig_TLVs (sc_signaling (sv_heap s'' ! a)) = [CancelUnicastTransmissionTLV
        \<lparr>cancel_Head = \<lparr>TLVType = TLVCancelUnicastTransmission, LengthField = 2\<rparr>,
         cancel_MsgTypeAndFlags = NewUnicastMsgTypeAndFlags t 0, cancel_Reserved = 0\<rparr>]"
proof -
  let ?n = "length (sv_sw s0)"
  have inv: "server_inv env ?n s" using assms(1,2) by (rule started_inv)
  have w: "w < ?n" "w < length (sv_sw s)"
    using assms(3) inv worker_index_less by (auto simp: findWorker_eq server_inv_def split: if_splits)
  have e: "entry_ok env ?n (sv_heap s) w t (SourcePortIdentity (sig_Header sg)) a"
    using found_entry [OF inv w(1) assms(4)] .
  then have a: "a < length (sv_heap s)" "sc_worker (sv_heap s ! a) = w" "sc_subscriptionType (sv_heap s ! a) = t"
    by (simp_all add: entry_ok_def)
  let ?c = "(sv_heap s ! a)\<lparr>sc_expire := now, sc_stop := [True]\<rparr>"
  let ?s1 = "on_client a (\<lambda>_. ?c) (on_stats (IncRXSignalingCancel t) s)"
  have h: "handle_tlv env now gclisa sg (CancelUnicastTransmissionTLV v) s = Done ?s1"
    using cancel_at [OF inv assms(3), of v a now gclisa] assms(4,5,9,10) by (simp add: Stop_def Let_def)
  obtain ctx where r: "sv_loops s ! i = (a, ctx)" using assms(8) by (metis prod.collapse)
  let ?c2 = "UpdateSignalingCancel (?c\<lparr>sc_stop := [], sc_running := False, sc_intervalTicker := None\<rparr>)"
  let ?s2 = "push a ToSignalingQueue (on_client a (\<lambda>_. ?c2) (?s1\<lparr>sv_loops := remove_nth i (sv_loops s)\<rparr>))"
  have x: "exec env (StopReceived i) ?s1 = Some (Done ?s2)"
    using assms(6,7) a r
    by (simp add: Let_def exit_loop_def Start_exit_def setRunning_def pushes_def)
  have "sc_worker ?c2 = w" using a by simp
  then have q: "w_signalingQueue (sv_sw ?s2 ! w) = w_signalingQueue (sv_sw s ! w) @ [a]"
    using a w by (subst push_signaling) (simp_all add: on_client_def on_stats_def)
  show ?thesis
    using h x q a by (intro exI [of _ ?s1] exI [of _ ?s2]) (simp add: UpdateSignalingCancel_def Let_def)
qed

definition sample_cancel :: CancelUnicastTransmission where
  "sample_cancel = \<lparr>cancel_Head = \<lparr>TLVType = TLVCancelUnicastTransmission, LengthField = 2\<rparr>,
     cancel_MsgTypeAndFlags = 0, cancel_Reserved = 0\<rparr>"

theorem cancel_stops_witness:
  "\<exists>s' s''. handle_tlv sample_senv 5 (SockaddrInet4 320 [10, 0, 0, 9]) (sample_signaling [])
       (CancelUnicastTransmissionTLV sample_cancel) (sample_state sample_running) = Done s'
     \<and> exec sample_senv (StopReceived 0) s' = Some (Done s'') \<and> \<not> sc_running (sv_heap s'' ! 0)"
proof -
  have "findWorker sample_senv (PortIdentity 9 1) 0 (sample_state sample_running) = Some 1" by code_simp
  moreover have "FindSubscription (PortIdentity 9 1) MessageSync (sv_sw (sample_state sample_running) ! 1) = Some 0"
    by code_simp
  moreover have "Unicast_MsgType (cancel_MsgTypeAndFlags sample_cancel) = MessageSync" by code_simp
  moreover have "sv_loops (sample_state sample_running) = [(0, 0)]" by code_simp
  moreover have "sc_running (sv_heap (sample_state sample_running) ! 0)" by code_simp
  moreover have "sc_stop (sv_heap (sample_state sample_running) ! 0) = []" by code_simp
  ultimately show ?thesis
    using cancel_stops [OF sample_started sample_reachable [OF sample_running_done], of "sample_signaling []" 1
      MessageSync 0 sample_cancel 0 5 "SockaddrInet4 320 [10, 0, 0, 9]"]
    by (auto simp: sample_signaling_def)
qed

text \<open>Two cancel TLVs of the same type in one message block the general handler of a running subscription: the second send on the stop channel of capacity one waits, with the lock of the client held.\<close>

lemma double_cancel_waits:
  assumes "started env s0" and "reachable env s0 s"
    and "findWorker env (SourcePortIdentity (sig_Header sg)) 0 s = Some w"
    and "FindSubscription (SourcePortIdentity (sig_Header sg)) (Unicast_MsgType (cancel_MsgTypeAndFlags v)) (sv_sw s ! w) = Some a"
    and "sc_running (sv_heap s ! a)"
  shows "\<exists>s'. handle_tlvs env now gclisa sg [CancelUnicastTransmissionTLV v, CancelUnicastTransmissionTLV v] s = Hang s'"
proof -
  let ?n = "length (sv_sw s0)" and ?t = "Unicast_MsgType (cancel_MsgTypeAndFlags v)"
  let ?s1 = "on_client a (\<lambda>_. (sv_heap s ! a)\<lparr>sc_expire := now, sc_stop := [True]\<rparr>) (on_stats (IncRXSignalingCancel ?t) s)"
  have inv: "server_inv env ?n s" using assms(1,2) by (rule started_inv)
  have "w < ?n"
    using assms(3) inv worker_index_less by (auto simp: findWorker_eq server_inv_def split: if_splits)
  then have a: "a < length (sv_heap s)" using found_entry [OF inv _ assms(4)] by (simp add: entry_ok_def)
  show ?thesis
  proof (cases "sc_stop (sv_heap s ! a) = []")
    case True
    then have h: "handle_tlv env now gclisa sg (CancelUnicastTransmissionTLV v) s = Done ?s1"
      using cancel_at [OF inv assms(3), of v a now gclisa] assms(4,5) by (simp add: Stop_def Let_def)
    have inv1: "server_inv env ?n ?s1"
      using inv by (intro inv_on_client) (simp_all add: inv_on_stats steady_def)
    have f: "findWorker env (SourcePortIdentity (sig_Header sg)) 0 ?s1 = Some w"
      using assms(3) by (simp add: findWorker_eq split: if_splits)
    show ?thesis
      using h cancel_at [OF inv1 f, of v a now gclisa] a assms(4,5) by (simp add: Stop_def Let_def)
  next
    case False
    then have "handle_tlv env now gclisa sg (CancelUnicastTransmissionTLV v) s =
        Hang (on_client a (\<lambda>_. (sv_heap s ! a)\<lparr>sc_expire := now\<rparr>) (on_stats (IncRXSignalingCancel ?t) s))"
      using cancel_at [OF inv assms(3), of v a now gclisa] assms(4,5) by (simp add: Stop_def Let_def)
    then show ?thesis by simp
  qed
qed

lemma double_cancel_waits_witness:
  "\<exists>s'. handle_tlvs sample_senv 5 (SockaddrInet4 320 [10, 0, 0, 9]) (sample_signaling [])
     [CancelUnicastTransmissionTLV sample_cancel, CancelUnicastTransmissionTLV sample_cancel]
     (sample_state sample_running) = Hang s'"
proof -
  have "findWorker sample_senv (PortIdentity 9 1) 0 (sample_state sample_running) = Some 1" by code_simp
  moreover have "FindSubscription (PortIdentity 9 1) MessageSync (sv_sw (sample_state sample_running) ! 1) = Some 0"
    by code_simp
  moreover have "Unicast_MsgType (cancel_MsgTypeAndFlags sample_cancel) = MessageSync" by code_simp
  moreover have "sc_running (sv_heap (sample_state sample_running) ! 0)" by code_simp
  ultimately show ?thesis
    using double_cancel_waits [OF sample_started sample_reachable [OF sample_running_done], of "sample_signaling []" 1
      sample_cancel 0 5 "SockaddrInet4 320 [10, 0, 0, 9]"]
    by (auto simp: sample_signaling_def)
qed

end
