(* ===== verification/Ptp_Liveness.thy ===== *)
theory Ptp_Liveness
  imports Ptp_Safety
begin

section \<open>Goroutines, drains and message exchanges\<close>

text \<open>
  The second invariant of the server (\<^verbatim>\<open>src/server/server.go\<close>, \<^verbatim>\<open>src/server/subscription.go\<close>): which
  clients run. From it, that a drain ends every subscription. Then the exchanges of messages from
  the request that arrives to the packets that leave, and what unexpected requests cause.
\<close>

subsection \<open>Goroutines and running clients\<close>

text \<open>
  Every client has at most one goroutine, a client runs exactly while its goroutine is in the
  loop, and every context but the current one is cancelled.
\<close>

definition routines_inv :: "Server \<Rightarrow> bool" where
  "routines_inv s \<longleftrightarrow> distinct (map fst (sv_spawned s @ sv_loops s))
     \<and> (\<forall>a \<in> fst ` set (sv_spawned s @ sv_loops s). a < length (sv_heap s))
     \<and> (\<forall>a < length (sv_heap s). sc_running (sv_heap s ! a) \<longleftrightarrow> a \<in> fst ` set (sv_loops s))
     \<and> (\<forall>i < length (sv_ctxs s). i \<noteq> sv_ctx s \<longrightarrow> sv_ctxs s ! i)"

text \<open>An operation that starts and stops nothing; it may put new clients on the heap.\<close>

definition quiet :: "Server \<Rightarrow> Server \<Rightarrow> bool" where
  "quiet s s' \<longleftrightarrow> sv_spawned s' = sv_spawned s \<and> sv_loops s' = sv_loops s \<and> sv_ctxs s' = sv_ctxs s
     \<and> sv_ctx s' = sv_ctx s
     \<and> (\<exists>new. map sc_running (sv_heap s') = map sc_running (sv_heap s) @ new \<and> True \<notin> set new)"

lemma quiet_refl [simp]: "quiet s s"
  by (auto simp: quiet_def)

lemma quiet_trans: "quiet s s' \<Longrightarrow> quiet s' s'' \<Longrightarrow> quiet s s''"
  by (fastforce simp: quiet_def)

lemma quiet_inv:
  assumes "routines_inv s" and "quiet s s'"
  shows "routines_inv s'"
proof -
  obtain new where new: "map sc_running (sv_heap s') = map sc_running (sv_heap s) @ new" "True \<notin> set new"
    using assms(2) by (auto simp: quiet_def)
  have l: "length (sv_heap s') = length (sv_heap s) + length new"
    using new(1) by (metis length_append length_map)
  have r: "sc_running (sv_heap s' ! a) = (if a < length (sv_heap s) then sc_running (sv_heap s ! a) else False)"
    if "a < length (sv_heap s')" for a
  proof -
    have "sc_running (sv_heap s' ! a) = (map sc_running (sv_heap s) @ new) ! a" using that new(1) by (metis nth_map)
    moreover have "\<not> new ! (a - length (sv_heap s))" if "\<not> a < length (sv_heap s)"
      using nth_mem [of "a - length (sv_heap s)" new] new(2) l that \<open>a < length (sv_heap s')\<close> by (cases "new ! (a - length (sv_heap s))") auto
    ultimately show ?thesis by (simp add: nth_append)
  qed
  have q: "sv_spawned s' = sv_spawned s" "sv_loops s' = sv_loops s" "sv_ctxs s' = sv_ctxs s" "sv_ctx s' = sv_ctx s"
    using assms(2) by (simp_all add: quiet_def)
  have lt: "a \<in> fst ` set (sv_spawned s @ sv_loops s) \<Longrightarrow> a < length (sv_heap s)" for a
    using assms(1) unfolding routines_inv_def by blast
  have "sc_running (sv_heap s' ! a) \<longleftrightarrow> a \<in> fst ` set (sv_loops s)" if "a < length (sv_heap s')" for a
    using r [OF that] lt [of a] assms(1) unfolding routines_inv_def by (cases "a < length (sv_heap s)") auto
  moreover have "\<forall>a \<in> fst ` set (sv_spawned s @ sv_loops s). a < length (sv_heap s')"
    using lt l by (metis trans_less_add1)
  ultimately show ?thesis using assms(1) unfolding routines_inv_def q by blast
qed

lemma quiet_ops [simp]:
  "quiet s (on_stats f s') = quiet s s'" "quiet s (on_worker w g s') = quiet s s'" "quiet s (push a q s') = quiet s s'"
  by (simp_all add: quiet_def on_stats_def on_worker_def) (cases q; simp add: push.simps on_worker_def)

lemma quiet_client: "quiet s s' \<Longrightarrow> sc_running (f (sv_heap s' ! a)) = sc_running (sv_heap s' ! a) \<Longrightarrow> quiet s (on_client a f s')"
  by (auto simp: quiet_def on_client_def map_running_update)

lemma quiet_new: "\<not> sc_running c \<Longrightarrow> quiet s s' \<Longrightarrow> quiet s (s'\<lparr>sv_heap := sv_heap s' @ [c]\<rparr>)"
  by (auto simp: quiet_def)

lemma routines_spawn:
  assumes "routines_inv s" and "a < length (sv_heap s)" and "a \<notin> fst ` set (sv_spawned s @ sv_loops s)"
  shows "routines_inv (spawn a s)"
  using assms by (auto simp: routines_inv_def spawn_def)

lemma routines_new_spawn:
  assumes "routines_inv s" and "quiet (s\<lparr>sv_heap := sv_heap s @ [c]\<rparr>) s'" and "\<not> sc_running c"
  shows "routines_inv (spawn (length (sv_heap s)) s')"
proof -
  have q: "quiet s s'" using assms(2) quiet_trans [OF quiet_new [OF assms(3) quiet_refl]] by blast
  obtain new where "map sc_running (sv_heap s') = map sc_running (sv_heap s @ [c]) @ new"
    using assms(2) by (auto simp: quiet_def)
  then have "length (sv_heap s') = length (sv_heap s @ [c]) + length new" by (metis length_append length_map)
  then have "length (sv_heap s) < length (sv_heap s')" by simp
  moreover have "length (sv_heap s) \<notin> fst ` set (sv_spawned s' @ sv_loops s')"
    using assms(1) q unfolding routines_inv_def quiet_def by (metis less_irrefl)
  ultimately show ?thesis using quiet_inv [OF assms(1) q] by (intro routines_spawn)
qed

lemma spawn_commute:
  "on_client a f (spawn b s) = spawn b (on_client a f s)" "push a q (spawn b s) = spawn b (push a q s)"
  by (simp_all add: on_client_def spawn_def) (cases q; simp add: push.simps on_worker_def)

lemma sv_Config_spawn [simp]: "sv_Config (spawn a s) = sv_Config s"
  by (simp add: spawn_def)

lemma routines_sptp_request:
  assumes "routines_inv s"
  shows "routines_inv (sptp_request now dReq eclisa rxTS w s)"
proof (cases "FindSubscription (SourcePortIdentity (sync_Header dReq)) MessageDelayReq (sv_sw s ! w)")
  case None
  define c where "c = NewSubscriptionClient w eclisa
    (if PortNumber (SourcePortIdentity (sync_Header dReq)) > 10 then eclisa else NewSockaddrWithPort eclisa PortGeneral)
    MessageDelayReq (sv_Config s) subscriptionDuration (now + subscriptionDuration) now"
  have "\<exists>s1. sptp_request now dReq eclisa rxTS w s = spawn (length (sv_heap s)) s1
      \<and> quiet (s\<lparr>sv_heap := sv_heap s @ [c]\<rparr>) s1"
    by (rule exI, rule conjI)
      (simp only: sptp_request_def Let_def newClient_def None spawn_commute option.case prod.case c_def [symmetric]
         sv_Config_ops sv_Config_spawn, auto intro!: quiet_client)
  then show ?thesis using routines_new_spawn [OF assms] by (auto simp: c_def)
next
  case (Some a)
  have "quiet s (sptp_request now dReq eclisa rxTS w s)"
    unfolding sptp_request_def Let_def Some by (auto intro!: quiet_client simp: SetExpire_def)
  then show ?thesis using assms quiet_inv by blast
qed

lemma routines_delay_request:
  assumes "routines_inv s" and "delay_request env now dReq eclisa rxTS s = Done s'"
  shows "routines_inv s'"
proof -
  have "quiet s (push a ToQueue (on_client a (UpdateDelayResp h rxTS) s))" for a h by (simp add: quiet_client)
  then show ?thesis
    using assms routines_sptp_request [OF assms(1)] quiet_inv [OF assms(1)]
    by (auto simp: delay_request_def Let_def split: option.splits if_splits)
qed

lemma routines_event:
  assumes "routines_inv s" and "handleEventMessage env now dReq buf sa rxTS s = Done s'"
  shows "routines_inv s'"
proof -
  have "routines_inv (on_stats f s)" for f using quiet_inv [OF assms(1), of "on_stats f s"] by simp
  then show ?thesis
    using assms routines_delay_request by (auto simp: handleEventMessage_def Let_def split: sum.splits if_splits option.splits) blast+
qed

lemma routines_grant:
  assumes "routines_inv s" and "0 < length (sv_sw s)" and "grant_request env now gclisa sg v t s = Done s'"
  shows "routines_inv s'"
proof -
  let ?k = "SourcePortIdentity (sig_Header sg)" and ?n = "length (sv_sw s)"
  let ?g = "grant_client env now gclisa ?k t (req_interval env v) (now + req_duration v) (worker_index env ?n ?k 0) s"
  obtain a s1 where gc: "?g = (a, s1)" by (cases ?g)
  have send: "quiet s2 (sendSignalingGrant sg mt i d a s1)" if "quiet s2 s1" for s2 mt i d
    using that by (auto simp: sendSignalingGrant_def intro!: quiet_client)
  consider (old) "quiet s s1" "sc_running (sv_heap s1 ! a)"
    | (new) c where "\<not> sc_running c" "a = length (sv_heap s)" "quiet (s\<lparr>sv_heap := sv_heap s @ [c]\<rparr>) s1"
  proof (cases "\<exists>b. FindSubscription ?k t (sv_sw s ! worker_index env ?n ?k 0) = Some b \<and> sc_running (sv_heap s ! b)")
    case True
    have run: "sc_running (f (xs ! b)) \<Longrightarrow> sc_running (xs ! b) \<Longrightarrow> sc_running (xs[b := f (xs ! b)] ! b)" for f xs b
      by (cases "b < length xs") (simp_all add: list_update_beyond)
    show ?thesis
      by (rule old) (use True gc in \<open>auto simp: grant_client_def SetExpire_def SetInterval_def SetGclisa_def
        intro!: quiet_client run\<close>)
  next
    case False
    show ?thesis
      by (rule new [of "NewSubscriptionClient (worker_index env ?n ?k 0) (IPToSockaddr (SockaddrToIP gclisa) PortEvent)
          gclisa t (sv_Config s) (req_interval env v) (now + req_duration v) now"])
        (use False gc in \<open>auto simp: grant_client_def split: option.splits if_splits\<close>)
  qed
  then show ?thesis
  proof cases
    case old
    have "sc_running (sv_heap (sendSignalingGrant sg mt i d a s1) ! a)" for mt i d
      using old(2) by (cases "a < length (sv_heap s1)") (simp_all add: list_update_beyond)
    then have "quiet s s'"
      using assms(3) grant_request_eq [of s ?n env now gclisa sg v t] assms(2) gc send [OF old(1)]
      by (auto simp: Let_def split: if_splits)
    then show ?thesis using quiet_inv assms(1) by blast
  next
    case new
    have "routines_inv (sendSignalingGrant sg mt i d a s1)" for mt i d
      using quiet_inv [OF assms(1)] quiet_trans [OF quiet_new [OF new(1) quiet_refl]] send [OF new(3)] by blast
    moreover have "routines_inv (spawn a (sendSignalingGrant sg mt i d a s1))" for mt i d
      unfolding new(2) using routines_new_spawn [OF assms(1) send [OF new(3)] new(1)] by (simp add: new(2))
    ultimately show ?thesis
      using assms(3) grant_request_eq [of s ?n env now gclisa sg v t] assms(2) gc
      by (auto simp: Let_def split: if_splits)
  qed
qed

lemma quietI:
  assumes "sv_spawned s' = sv_spawned s" "sv_loops s' = sv_loops s" "sv_ctxs s' = sv_ctxs s" "sv_ctx s' = sv_ctx s"
    and "map sc_running (sv_heap s') = map sc_running (sv_heap s)"
  shows "quiet s s'"
  using assms by (simp add: quiet_def)

lemma Stop_running: "Stop now c = Done c' \<Longrightarrow> sc_running c' = sc_running c"
  by (auto simp: Stop_def Let_def split: if_splits)

lemma routines_handle_tlv:
  assumes "routines_inv s" and "0 < length (sv_sw s)" and "handle_tlv env now gclisa sg tlv s = Done s'"
  shows "routines_inv s'"
proof (cases tlv)
  case (RequestUnicastTransmissionTLV v)
  have st: "routines_inv (on_stats f s)" for f using quiet_inv [OF assms(1), of "on_stats f s"] by simp
  have "0 < length (sv_sw (on_stats f s))" for f using assms(2) by simp
  with routines_grant [OF st this] assms st show ?thesis
    by (auto simp: RequestUnicastTransmissionTLV Let_def split: if_splits)
next
  case (CancelUnicastTransmissionTLV v)
  have "quiet s s'"
    using assms(3) Stop_running
    by (auto simp: CancelUnicastTransmissionTLV Let_def cancel_request_def intro!: quiet_client
      split: option.splits outcome.splits)
  then show ?thesis using assms(1) quiet_inv by blast
qed (use assms in auto)

lemma routines_handle_tlvs:
  assumes "routines_inv s" and "0 < length (sv_sw s)" and "handle_tlvs env now gclisa sg tlvs s = Done s'"
  shows "routines_inv s'"
  using assms
proof (induction tlvs arbitrary: s)
  case (Cons tlv tlvs)
  then obtain s1 where s1: "handle_tlv env now gclisa sg tlv s = Done s1" "handle_tlvs env now gclisa sg tlvs s1 = Done s'"
    by (auto simp: obind_Done)
  then show ?case
    using Cons.IH [OF routines_handle_tlv [OF Cons.prems(1,2) s1(1)]] Cons.prems(2) handle_tlv_workers [OF s1(1)] by simp
qed simp

lemma routines_general:
  assumes "routines_inv s" and "0 < length (sv_sw s)" and "handleGeneralMessage env now sg buf sa s = Done s'"
  shows "routines_inv s'"
  using assms routines_handle_tlvs [OF assms(1,2)]
  by (auto simp: handleGeneralMessage_def split: sum.splits if_splits option.splits)

lemma remove_nth_split:
  assumes "i < length xs"
  obtains ps qs where "xs = ps @ xs ! i # qs" and "remove_nth i xs = ps @ qs"
  using id_take_nth_drop [OF assms] by (metis remove_nth_def that)

lemma quiet_pushes: "quiet s s' \<Longrightarrow> quiet s (pushes a qs s')"
  by (induction qs arbitrary: s') (simp_all add: pushes_def)

text \<open>A goroutine enters or leaves its loop: the client and the two lists change together.\<close>

lemma routines_enter:
  assumes "routines_inv s" and "i < length (sv_spawned s)" and "sv_spawned s ! i = (a, ctx)" and "sc_running c"
  shows "routines_inv (on_client a (\<lambda>_. c)
    (s\<lparr>sv_spawned := remove_nth i (sv_spawned s), sv_loops := sv_loops s @ [(a, ctx)]\<rparr>))"
proof -
  obtain ps qs where p: "sv_spawned s = ps @ (a, ctx) # qs" "remove_nth i (sv_spawned s) = ps @ qs"
    using remove_nth_split [OF assms(2)] assms(3) by metis
  then show ?thesis
    using assms(1,4) by (auto simp: routines_inv_def on_client_def nth_list_update)
qed

lemma routines_leave:
  assumes "routines_inv s" and "i < length (sv_loops s)" and "sv_loops s ! i = (a, ctx)" and "\<not> sc_running c"
  shows "routines_inv (on_client a (\<lambda>_. c) (s\<lparr>sv_loops := remove_nth i (sv_loops s)\<rparr>))"
proof -
  obtain ps qs where p: "sv_loops s = ps @ (a, ctx) # qs" "remove_nth i (sv_loops s) = ps @ qs"
    using remove_nth_split [OF assms(2)] assms(3) by metis
  then show ?thesis
    using assms(1,4) by (auto simp: routines_inv_def on_client_def nth_list_update)
qed

lemma Start_exit_running: "\<not> sc_running (fst (Start_exit c))"
  by (simp add: Start_exit_def Let_def setRunning_def UpdateSignalingCancel_def)

lemma routines_exit_loop:
  assumes "routines_inv s" and "i < length (sv_loops s)"
  shows "routines_inv (exit_loop i (Start_exit c) s)"
proof -
  obtain a ctx where r: "sv_loops s ! i = (a, ctx)" by (cases "sv_loops s ! i")
  show ?thesis
    using quiet_inv [OF routines_leave [OF assms r Start_exit_running] quiet_pushes [OF quiet_refl]]
    by (simp add: exit_loop_def r split_def Let_def)
qed

lemma routines_begin_loop:
  assumes "routines_inv s" and "i < length (sv_spawned s)" and "begin_loop i s = Done s'"
  shows "routines_inv s'"
proof -
  obtain a ctx where r: "sv_spawned s ! i = (a, ctx)" by (cases "sv_spawned s ! i")
  obtain c qs where c: "Start_begin (sv_heap s ! a) = Done (c, qs)"
    using assms(3) r by (auto simp: begin_loop_def split: outcome.splits)
  then have "sc_running c" by (auto simp: Start_begin_def Let_def setRunning_def split: if_splits)
  then show ?thesis
    using assms(3) r c quiet_inv [OF routines_enter [OF assms(1,2) r] quiet_pushes [OF quiet_refl]]
    by (auto simp: begin_loop_def)
qed

lemma Start_tick_cases:
  assumes "Start_tick now c = Done ((c', qs), go_on)"
  shows "if go_on then sc_running c' = sc_running c else (c', qs) = Start_exit c"
  using assms by (auto simp: Start_tick_def Let_def split: if_splits)

lemma routines_tick_loop:
  assumes "routines_inv s" and "i < length (sv_loops s)" and "tick_loop now i s = Done s'"
  shows "routines_inv s'"
proof -
  obtain a ctx where r: "sv_loops s ! i = (a, ctx)" by (cases "sv_loops s ! i")
  obtain c qs g where t: "Start_tick now (sv_heap s ! a) = Done ((c, qs), g)"
    using assms(3) r by (auto simp: tick_loop_def split: outcome.splits)
  show ?thesis
  proof (cases g)
    case True
    then have "quiet s (pushes a qs (on_client a (\<lambda>_. c) s))"
      using Start_tick_cases [OF t] by (intro quiet_pushes quiet_client) simp_all
    then show ?thesis using assms(3) r t True quiet_inv [OF assms(1)] by (auto simp: tick_loop_def)
  next
    case False
    then show ?thesis
      using assms(3) r t Start_tick_cases [OF t] routines_exit_loop [OF assms(1,2), of "sv_heap s ! a"]
      by (auto simp: tick_loop_def)
  qed
qed

lemma quiet_inventory_worker: "quiet s s' \<Longrightarrow> quiet s (inventory_worker w s')"
  by (simp add: inventory_worker_def quiet_def split_def Let_def)

lemma quiet_inventory_all: "quiet s s' \<Longrightarrow> quiet s (inventory_all s')"
proof -
  have "quiet s s' \<Longrightarrow> quiet s (fold inventory_worker ws s')" for ws
    by (induction ws arbitrary: s') (simp_all add: quiet_inventory_worker)
  then show "quiet s s' \<Longrightarrow> quiet s (inventory_all s')" by (simp add: inventory_all_def)
qed

lemma routines_contexts:
  assumes "routines_inv s"
  shows "routines_inv (Drain_cancel s)" "routines_inv (Undrain s)"
  using assms by (auto simp: routines_inv_def Drain_cancel_def Undrain_def ctx_Err_def nth_list_update nth_append less_Suc_eq)

lemma routines_worker_turn:
  assumes "server_inv env n s" and "routines_inv s" and "w < length (sv_sw s)" and "worker_turn env w ch io s = Some (Done s')"
  shows "routines_inv s'"
proof -
  have wi: "worker_inv env n (sv_heap s) w (sv_sw s ! w)" and wf: "\<forall>c \<in> set (sv_heap s). wf_client c"
    using assms(1,3) by (auto simp: server_inv_def heap_ok_def)
  obtain t where t: "worker_step (env_log2i env) (sv_Config s) io ch (sv_sw s ! w) (sv_heap s) (sv_Stats s) = Some t"
    using assms(4) by (auto simp: worker_turn_def split: option.splits)
  obtain wk h stats out where ok: "t = Some (wk, h, stats, out)" "map sc_running h = map sc_running (sv_heap s)"
    using worker_step_ok [OF wi wf t] by (auto simp: turn_ok_def)
  then have "quiet s s'" using assms(4) t by (auto simp: worker_turn_def intro!: quietI)
  then show ?thesis using quiet_inv assms(2) by blast
qed

lemma routines_exec:
  assumes "server_inv env n s" and "routines_inv s" and "exec env ev s = Some (Done s')"
  shows "routines_inv s'"
proof (cases ev)
  case (WorkerTurn w ch io)
  then show ?thesis using assms routines_worker_turn [OF assms(1,2)] by (auto split: if_splits)
next
  case (GeneralPacket now sg buf sa)
  have "0 < length (sv_sw s)" using assms(1) by (simp add: server_inv_def)
  then show ?thesis using GeneralPacket assms(3) routines_general [OF assms(2)] by simp
next
  case (ReportMetrics ord)
  then show ?thesis
    using assms(3) quiet_inv [OF assms(2), of s'] quiet_inventory_all [OF quiet_refl, of s]
    by (auto simp: report_metrics_def Let_def)
next
  case Sighup
  have "quiet s (reload_config env s)" by (auto simp: reload_config_def quiet_def on_stats_def split: sum.split)
  then show ?thesis using Sighup assms(3) quiet_inv [OF assms(2)] by simp
next
  case InventoryRound
  then show ?thesis using assms(3) quiet_inv [OF assms(2)] quiet_inventory_all [OF quiet_refl, of s] by simp
next
  case (DrainFlag v)
  then show ?thesis using assms(3) quiet_inv [OF assms(2), of s'] by auto
next
  case (EventPacket now dReq buf sa rxTS)
  then show ?thesis using assms(3) routines_event [OF assms(2)] by simp
next
  case (BeginLoop i)
  then show ?thesis using assms(3) routines_begin_loop [OF assms(2)] by (simp split: if_splits)
next
  case (Tick now i)
  then show ?thesis using assms(3) routines_tick_loop [OF assms(2)] by (simp split: if_splits)
next
  case (CtxDone i)
  then show ?thesis using assms(3) routines_exit_loop [OF assms(2)] by (auto split: if_splits)
next
  case (StopReceived i)
  then show ?thesis using assms(3) routines_exit_loop [OF assms(2)] by (auto simp: Let_def split: if_splits)
qed (use assms(3) routines_contexts [OF assms(2)] in simp_all)

lemma Server_Start_empty:
  assumes "fst (Server_Start cenv c stats checks) = Inr s"
  shows "sv_heap s = []" "sv_spawned s = []" "sv_loops s = []" "sv_ctxs s = [False]" "sv_ctx s = 0"
proof -
  obtain err cenv' where p: "CreatePidFile cenv (cfg_static c) = (err, cenv')" by (cases "CreatePidFile cenv (cfg_static c)")
  show "sv_heap s = []" "sv_spawned s = []" "sv_loops s = []" "sv_ctxs s = [False]" "sv_ctx s = 0"
    using assms p by (auto simp: Server_Start_def split: sum.splits option.splits)
qed

lemma started_routines: "started env s0 \<Longrightarrow> reachable env s0 s \<Longrightarrow> routines_inv s"
proof (rotate_tac, induction rule: reachable.induct)
  case start
  then show ?case
    using Server_Start_empty by (auto simp: started_def routines_inv_def)
next
  case (iteration s ev s')
  then show ?case using routines_exec [OF started_inv] by blast
qed

text \<open>C20: in every state that whole iterations reach, a client is marked as running exactly while its goroutine is in its loop, no client has two goroutines, and every context but the current one has been cancelled, so that no goroutine of an earlier context can miss a drain.\<close>

theorem running_iff_loop:
  assumes "started env s0" and "reachable env s0 s" and "a < length (sv_heap s)"
  shows "(sc_running (sv_heap s ! a) \<longleftrightarrow> (\<exists>ctx. (a, ctx) \<in> set (sv_loops s)))
    \<and> distinct (map fst (sv_spawned s @ sv_loops s))
    \<and> (\<forall>i < length (sv_ctxs s). i \<noteq> sv_ctx s \<longrightarrow> sv_ctxs s ! i)"
proof -
  have "routines_inv s" using assms(1,2) by (rule started_routines)
  then have "sc_running (sv_heap s ! a) \<longleftrightarrow> a \<in> fst ` set (sv_loops s)"
    "distinct (map fst (sv_spawned s @ sv_loops s))" "\<forall>i < length (sv_ctxs s). i \<noteq> sv_ctx s \<longrightarrow> sv_ctxs s ! i"
    using assms(3) unfolding routines_inv_def by blast+
  moreover have "a \<in> fst ` set (sv_loops s) \<longleftrightarrow> (\<exists>ctx. (a, ctx) \<in> set (sv_loops s))" by force
  ultimately show ?thesis by simp
qed

theorem running_iff_loop_witness:
  "sc_running (sv_heap (sample_state sample_running) ! 0)
     \<longleftrightarrow> (\<exists>ctx. (0, ctx) \<in> set (sv_loops (sample_state sample_running)))"
proof -
  have "0 < length (sv_heap (sample_state sample_running))" by code_simp
  then show ?thesis
    using running_iff_loop [OF sample_started sample_reachable [OF sample_running_done], of 0] by blast
qed

subsection \<open>A drain completes\<close>

lemma run_append_Done:
  "run env evs s = Some (Done s1) \<Longrightarrow> run env evs' s1 = r \<Longrightarrow> run env (evs @ evs') s = r"
  by (simp add: run_append)

lemma sv_pushes [simp]:
  "sv_spawned (pushes a qs s) = sv_spawned s" "sv_loops (pushes a qs s) = sv_loops s"
  "sv_ctxs (pushes a qs s) = sv_ctxs s" "sv_ctx (pushes a qs s) = sv_ctx s"
  using quiet_pushes [OF quiet_refl, of s a qs] by (simp_all add: quiet_def)

lemma remove_nth_0 [simp]: "remove_nth 0 xs = tl xs"
  by (simp add: remove_nth_def drop_Suc)

lemma begin_all:
  assumes "\<forall>r \<in> set (sv_spawned s). 0 < sc_interval (sv_heap s ! fst r)"
  shows "\<exists>s'. run env (replicate (length (sv_spawned s)) (BeginLoop 0)) s = Some (Done s')
    \<and> sv_spawned s' = [] \<and> sv_loops s' = sv_loops s @ sv_spawned s \<and> sv_ctxs s' = sv_ctxs s"
  using assms
proof (induction "sv_spawned s" arbitrary: s)
  case (Cons r rs)
  obtain a ctx where r: "r = (a, ctx)" by (cases r)
  let ?c = "sv_heap s ! a"
  have "0 < sc_interval ?c" using Cons.prems Cons.hyps(2) r by (metis fst_conv list.set_intros(1))
  then obtain c qs where c: "Start_begin ?c = Done (c, qs)" "sc_interval c = sc_interval ?c"
    by (simp add: Start_begin_def Let_def setRunning_def)
  let ?s1 = "pushes a qs (on_client a (\<lambda>_. c) (s\<lparr>sv_spawned := rs, sv_loops := sv_loops s @ [r]\<rparr>))"
  have x: "exec env (BeginLoop 0) s = Some (Done ?s1)"
    using c(1) Cons.hyps(2) [symmetric] r by (simp add: begin_loop_def)
  have i: "sc_interval (sv_heap ?s1 ! b) = sc_interval (sv_heap s ! b)" for b
    using c(2) by (cases "b = a \<and> a < length (sv_heap s)") (auto simp: nth_list_update list_update_beyond)
  have "\<forall>r \<in> set (sv_spawned ?s1). 0 < sc_interval (sv_heap ?s1 ! fst r)"
    using Cons.prems Cons.hyps(2) [symmetric] unfolding i by simp
  then obtain s' where "run env (replicate (length rs) (BeginLoop 0)) ?s1 = Some (Done s')"
    "sv_spawned s' = []" "sv_loops s' = sv_loops s @ [r] @ rs" "sv_ctxs s' = sv_ctxs s"
    using Cons.hyps(1) [of ?s1] by (auto simp: on_client_def)
  then show ?case using x Cons.hyps(2) [symmetric] by auto
qed simp

lemma exit_all:
  assumes "\<forall>r \<in> set (sv_loops s). sv_ctxs s ! snd r"
  shows "\<exists>s'. run env (replicate (length (sv_loops s)) (CtxDone 0)) s = Some (Done s')
    \<and> sv_loops s' = [] \<and> sv_spawned s' = sv_spawned s"
  using assms
proof (induction "sv_loops s" arbitrary: s)
  case (Cons r rs)
  obtain a ctx where r: "r = (a, ctx)" by (cases r)
  let ?s1 = "exit_loop 0 (Start_exit (sv_heap s ! a)) s"
  have x: "exec env (CtxDone 0) s = Some (Done ?s1)"
    using Cons.prems Cons.hyps(2) [symmetric] r by simp
  have s1: "sv_loops ?s1 = rs" "sv_spawned ?s1 = sv_spawned s" "sv_ctxs ?s1 = sv_ctxs s"
    using Cons.hyps(2) [symmetric] r by (simp_all add: exit_loop_def split_def Let_def on_client_def)
  have "\<forall>r \<in> set (sv_loops ?s1). sv_ctxs ?s1 ! snd r"
    using Cons.prems Cons.hyps(2) [symmetric] s1 by simp
  then obtain s' where "run env (replicate (length rs) (CtxDone 0)) ?s1 = Some (Done s')"
    "sv_loops s' = []" "sv_spawned s' = sv_spawned s"
    using Cons.hyps(1) [of ?s1] s1 by auto
  then show ?case using x Cons.hyps(2) [symmetric] by auto
qed simp

lemma inventory_all_nth:
  assumes "w < length (sv_sw s)"
  shows "sv_sw (inventory_all s) ! w = keep_running (\<lambda>a. sc_running (sv_heap s ! a)) (sv_sw s ! w)"
    and "sv_heap (inventory_all s) = sv_heap s"
proof -
  let ?P = "\<lambda>a. sc_running (sv_heap s ! a)"
  have f: "sv_heap (fold inventory_worker ws t) = sv_heap t
      \<and> length (sv_sw (fold inventory_worker ws t)) = length (sv_sw t)
      \<and> sv_sw (fold inventory_worker ws t) ! w =
        (if w \<in> set ws then keep_running ?P (sv_sw t ! w) else sv_sw t ! w)"
    if "sv_heap t = sv_heap s" "w < length (sv_sw t)" for ws t
    using that
  proof (induction ws arbitrary: t)
    case (Cons v ws)
    have v: "inventory_worker v t = t\<lparr>sv_sw := (sv_sw t)[v := keep_running ?P (sv_sw t ! v)],
        sv_Stats := snd (inventoryClients (sv_heap t) (sv_sw t ! v) (sv_Stats t))\<rparr>"
      using Cons.prems inventoryClients_eq [of "sv_heap t" "sv_sw t ! v" "sv_Stats t"]
      by (simp add: inventory_worker_def split_def Let_def)
    have "sv_heap (inventory_worker v t) = sv_heap s" "length (sv_sw (inventory_worker v t)) = length (sv_sw t)"
      "sv_sw (inventory_worker v t) ! w = (if v = w then keep_running ?P (sv_sw t ! w) else sv_sw t ! w)"
      using Cons.prems by (simp_all add: v)
    then show ?case using Cons.IH [of "inventory_worker v t"] Cons.prems by (cases "v = w") simp_all
  qed simp
  show "sv_sw (inventory_all s) ! w = keep_running ?P (sv_sw s ! w)" "sv_heap (inventory_all s) = sv_heap s"
    using f [of s "[0..<length (sv_sw s)]"] assms by (simp_all add: inventory_all_def)
qed

text \<open>C21: draining ends every subscription: from any reachable state whose pending goroutines have a positive interval, once the context is cancelled every goroutine can begin and leave its loop, after which nothing runs, and one inventory leaves the tables of all workers empty.\<close>

theorem drain_completes:
  assumes "started env s0" and "reachable env s0 s"
    and "\<forall>r \<in> set (sv_spawned s). 0 < sc_interval (sv_heap s ! fst r)"
    and "p = length (sv_spawned s)" and "q = length (sv_loops s)"
  shows "\<exists>s'. run env ([CancelContext] @ replicate p (BeginLoop 0) @ replicate (q + p) (CtxDone 0) @ [InventoryRound]) s
      = Some (Done s')
    \<and> sv_spawned s' = [] \<and> sv_loops s' = [] \<and> (\<forall>c \<in> set (sv_heap s'). \<not> sc_running c)
    \<and> (\<forall>w < length (sv_sw s'). \<forall>k t. FindSubscription k t (sv_sw s' ! w) = None)"
proof -
  let ?s1 = "Drain_cancel s"
  have r1: "reachable env s0 ?s1" using assms(2) reachable.iteration [of env s0 s CancelContext ?s1] by simp
  have inv: "server_inv env (length (sv_sw s0)) s" "routines_inv s"
    using started_inv [OF assms(1,2)] started_routines [OF assms(1,2)] by auto
  have s1: "sv_spawned ?s1 = sv_spawned s" "sv_loops ?s1 = sv_loops s" "sv_heap ?s1 = sv_heap s"
    by (simp_all add: Drain_cancel_def)
  have ctx: "sv_ctxs ?s1 ! i" if "i < length (sv_ctxs ?s1)" for i
    using that inv by (auto simp: Drain_cancel_def ctx_Err_def routines_inv_def server_inv_def nth_list_update)
  have lt: "snd r < length (sv_ctxs ?s1)" if "r \<in> set (sv_loops s @ sv_spawned s)" for r
    using that inv(1) by (auto simp: server_inv_def routine_ok_def Drain_cancel_def)
  obtain s2 where s2: "run env (replicate p (BeginLoop 0)) ?s1 = Some (Done s2)" "sv_spawned s2 = []"
    "sv_loops s2 = sv_loops s @ sv_spawned s" "sv_ctxs s2 = sv_ctxs ?s1"
    using begin_all [of ?s1 env] assms(3,4) s1 by auto
  then have "\<forall>r \<in> set (sv_loops s2). sv_ctxs s2 ! snd r" using ctx lt by auto
  then obtain s3 where s3: "run env (replicate (q + p) (CtxDone 0)) s2 = Some (Done s3)" "sv_loops s3 = []" "sv_spawned s3 = []"
    using exit_all [of s2 env] s2 assms(4,5) by auto
  let ?s4 = "inventory_all s3"
  have "reachable env s0 s3" using run_reachable s2(1) s3(1) r1 by blast
  then have i3: "server_inv env (length (sv_sw s0)) s3" "routines_inv s3"
    using started_inv [OF assms(1)] started_routines [OF assms(1)] by auto
  then have nr: "\<not> sc_running (sv_heap s3 ! a)" if "a < length (sv_heap s3)" for a
    using that s3(2) by (simp add: routines_inv_def)
  have l: "length (sv_sw ?s4) = length (sv_sw s3)"
    using i3(1) inv_inventory_all [OF i3(1)] by (simp add: server_inv_def)
  have "FindSubscription k t (sv_sw ?s4 ! w) = None" if w: "w < length (sv_sw s3)" for w k t
  proof (rule ccontr)
    assume "FindSubscription k t (sv_sw ?s4 ! w) \<noteq> None"
    then obtain a where a: "FindSubscription k t (keep_running (\<lambda>a. sc_running (sv_heap s3 ! a)) (sv_sw s3 ! w)) = Some a"
      using inventory_all_nth(1) [OF w] by auto
    then have "(t, k, a) \<in> table_entries (sv_sw s3 ! w)" "sc_running (sv_heap s3 ! a)"
      using table.find_entry [OF a] by (auto simp: table.entries_restrict)
    moreover have "table.holds (entry_ok env (length (sv_sw s0)) (sv_heap s3) w) (sv_sw s3 ! w)"
      using i3(1) w by (simp add: server_inv_def worker_inv_def)
    ultimately show False using nr by (auto simp: table.holds_def entry_ok_def)
  qed
  moreover have "\<forall>c \<in> set (sv_heap ?s4). \<not> sc_running c"
    using nr i3(1) inventory_all_nth(2) [of 0 s3] by (auto simp: server_inv_def in_set_conv_nth)
  moreover have "sv_loops ?s4 = []" "sv_spawned ?s4 = []"
    using quiet_inventory_all [OF quiet_refl, of s3] s3 by (simp_all add: quiet_def)
  moreover have "run env ([CancelContext] @ replicate p (BeginLoop 0) @ replicate (q + p) (CtxDone 0) @ [InventoryRound]) s
      = Some (Done ?s4)"
    using s2(1) s3(1) by (simp add: run_append)
  ultimately show ?thesis using l by (intro exI [of _ ?s4]) auto
qed

theorem drain_completes_witness:
  "\<exists>s'. run sample_senv ([CancelContext] @ replicate 1 (BeginLoop 0) @ replicate 1 (CtxDone 0) @ [InventoryRound])
       (sample_state [sample_request 1 60]) = Some (Done s')
     \<and> sv_loops s' = [] \<and> FindSubscription (PortIdentity 9 1) MessageSync (sv_sw s' ! 1) = None"
proof -
  let ?s = "sample_state [sample_request 1 60]"
  have r: "run_done [sample_request 1 60]" by code_simp
  have p: "\<forall>r \<in> set (sv_spawned ?s). 0 < sc_interval (sv_heap ?s ! fst r)" by code_simp
  have l: "1 = length (sv_spawned ?s)" "0 = length (sv_loops ?s)" by code_simp+
  have n: "length (sv_sw s') = 2" if "run sample_senv evs ?s = Some (Done s')" for evs s'
    using started_inv [OF sample_started run_reachable [OF that sample_reachable [OF r]]]
    by (simp add: server_inv_def sample_sizes)
  obtain s' where s': "run sample_senv ([CancelContext] @ replicate 1 (BeginLoop 0) @ replicate (0 + 1) (CtxDone 0) @ [InventoryRound]) ?s
      = Some (Done s')" "sv_loops s' = []" "\<forall>w < length (sv_sw s'). \<forall>k t. FindSubscription k t (sv_sw s' ! w) = None"
    using drain_completes [OF sample_started sample_reachable [OF r] p l] by blast
  then have "FindSubscription (PortIdentity 9 1) MessageSync (sv_sw s' ! 1) = None" using n [OF s'(1)] by simp
  then show ?thesis using s'(1,2) by (intro exI [of _ s']) (simp only: add_0)
qed

subsection \<open>Message exchanges\<close>

text \<open>The receive time the event handler works with.\<close>

definition rx_time :: "Config \<Rightarrow> time \<Rightarrow> time" where
  "rx_time cfg rxTS = (if TimestampType (cfg_static cfg) \<noteq> HW
     then rxTS + UTCOffset (cfg_dynamic cfg) else rxTS)"

lemma event_delay_request:
  assumes "\<not> ctx_Err s" and "ProbeMsgType buf = Inr MessageDelayReq"
    and "SyncDelayReq_UnmarshalBinary (dReq\<lparr>sync_TLVs := []\<rparr>) buf = Some (d, None)"
  shows "exec env (EventPacket now dReq buf sa rxTS) s =
    Some (delay_request env now d sa (rx_time (sv_Config s) rxTS) (on_stats (IncRX MessageDelayReq) s))"
  using assms by (simp add: handleEventMessage_def rx_time_def)

lemma delay_resp_turn:
  assumes "wf_client (h ! a)" and "sc_subscriptionType (h ! a) = MessageDelayResp"
    and "length (w_buf s) = 128" and "io_general io = SendOk"
  shows "\<exists>s' h' stats'. worker_queue_step log2i cfg io a s h stats = Some (s', h', stats',
    [\<lparr>sent_sock = GeneralSock, sent_bytes = wire (PDelayResp (sc_delayRespP (h ! a))),
      sent_to = sc_gclisa (h ! a), sent_seq = None\<rparr>])"
  using general_branch_eq [of "\<lambda>c. PDelayResp (sc_delayRespP c)" h a s cfg io MessageDelayResp "[]" stats]
    assms wf_client_sendable(4) [OF assms(1)] by (auto simp: worker_queue_step_def)

lemma sptp_turn:
  assumes "wf_client (h ! a)" and "a < length h" and "sc_subscriptionType (h ! a) = MessageDelayReq"
    and "length (w_buf s) = 128"
    and "io_event io = SendOk" and "io_txts io = (t, n, False)" and "io_general io = SendOk"
  shows "\<exists>s' h' stats'. worker_queue_step log2i cfg io a s h stats = Some (s', h', stats',
    [sync_sent (w_olderKernel s) (h ! a),
     \<lparr>sent_sock = GeneralSock,
      sent_bytes = wire (PAnnounce (sc_announceP (UpdateAnnounceFollowUp (tx_time cfg (w_olderKernel s) io) (h ! a)))),
      sent_to = sc_gclisa (h ! a), sent_seq = None\<rparr>])"
proof -
  let ?f = "UpdateAnnounceFollowUp (tx_time cfg (w_olderKernel s) io) (h ! a)"
  obtain buf where b: "length buf = 128" and e: "send_timed cfg io MessageSync (h ! a) s stats =
      Some (s\<lparr>w_buf := buf\<rparr>, timed_stats io MessageSync (w_id s) stats, [sync_sent (w_olderKernel s) (h ! a)],
        Some (tx_time cfg (w_olderKernel s) io))"
    using send_timed_eq [OF wf_client_sendable(1) [OF assms(1)] assms(4), of cfg io MessageSync stats] assms(5,6) by auto
  have "sendable (PAnnounce (sc_announceP (h[a := ?f] ! a)))" using assms(1,2) by (simp add: wf_client_sendable)
  then show ?thesis
    using general_branch_eq [of "\<lambda>c. PAnnounce (sc_announceP c)" "h[a := ?f]" a "s\<lparr>w_buf := buf\<rparr>" cfg io MessageAnnounce
      "[sync_sent (w_olderKernel s) (h ! a)]" "timed_stats io MessageSync (w_id s) stats"] b assms(2,3,7) e
    by (auto simp: worker_queue_step_def Let_def UpdateAnnounceFollowUp_def)
qed

lemma push_queue [simp]:
  "sc_worker (sv_heap s ! a) = w \<Longrightarrow> w < length (sv_sw s) \<Longrightarrow>
     w_queue (sv_sw (push a ToQueue s) ! w) = w_queue (sv_sw s ! w) @ [a]"
  by (simp add: push.simps on_worker_def)

text \<open>A worker whose queue holds one client, as a turn of the server.\<close>

lemma single_turn:
  assumes "w < length (sv_sw s)" and "w_queue (sv_sw s ! w) = [a]"
    and "worker_queue_step (env_log2i env) (sv_Config s) io a ((sv_sw s ! w)\<lparr>w_queue := []\<rparr>) (sv_heap s) (sv_Stats s)
      = Some (s', h', stats', out)"
  shows "\<exists>s2. exec env (WorkerTurn w Queue io) s = Some (Done s2) \<and> sv_sent s2 = sv_sent s @ out"
  using assms by (simp add: worker_turn_def)

lemma worker_facts:
  assumes "server_inv env n s" and "w < n" and "a < length (sv_heap s)"
  shows "length (w_buf (sv_sw s ! w)) = 128" "wf_client (sv_heap s ! a)" "w < length (sv_sw s)"
  using assms by (auto simp: server_inv_def worker_inv_def heap_ok_def)

lemma findWorker_less:
  assumes "server_inv env n s" and "findWorker env k off s = Some w"
  shows "w < n"
  using assms worker_index_less by (auto simp: findWorker_eq server_inv_def split: if_splits)

lemma findWorker_on_stats [simp]: "findWorker env k off (on_stats f s) = findWorker env k off s"
  by (simp add: findWorker_def)

lemma sv_sent_ops [simp]:
  "sv_sent (on_client a f s) = sv_sent s" "sv_sent (on_stats g s) = sv_sent s" "sv_sent (on_worker w h s) = sv_sent s"
  "sv_sent (push a q s) = sv_sent s" "sv_sent (spawn a s) = sv_sent s"
  by (simp_all add: on_client_def on_stats_def on_worker_def spawn_def) (cases q; simp add: push.simps on_worker_def)

text \<open>C16: a delay request of a client with a delay response subscription is answered, when its worker is idle and the kernel accepts the packet, by exactly one Delay\_Resp to the client's general address; it decodes and carries the sequence number and correction of the request, the identity of the requester, and the time at which the request was received (with the UTC offset added unless timestamps are from hardware).\<close>

theorem delay_response_echo:
  assumes "started env s0" and "reachable env s0 s" and "\<not> ctx_Err s"
    and "ProbeMsgType buf = Inr MessageDelayReq"
    and "SyncDelayReq_UnmarshalBinary (dReq\<lparr>sync_TLVs := []\<rparr>) buf = Some (d, None)"
    and "FlagField (sync_Header d) \<noteq> FlagProfileSpecific1 OR FlagUnicast"
    and "findWorker env (SourcePortIdentity (sync_Header d)) (workerOffset_of 0 (sync_TLVs d)) s = Some w"
    and "FindSubscription (SourcePortIdentity (sync_Header d)) MessageDelayResp (sv_sw s ! w) = Some a"
    and "w_queue (sv_sw s ! w) = []" and "io_general io = SendOk"
  shows "\<exists>s1 s2 x r. exec env (EventPacket now dReq buf sa rxTS) s = Some (Done s1)
    \<and> exec env (WorkerTurn w Queue io) s1 = Some (Done s2) \<and> sv_sent s2 = sv_sent s @ [x]
    \<and> sent_sock x = GeneralSock \<and> sent_to x = sc_gclisa (sv_heap s ! a)
    \<and> DecodePacket (sent_bytes x) = Some (Inr (PDelayResp r))
    \<and> SequenceID (dresp_Header r) = SequenceID (sync_Header d)
    \<and> CorrectionField (dresp_Header r) = CorrectionField (sync_Header d)
    \<and> RequestingPortIdentity (dresp_Body r) = SourcePortIdentity (sync_Header d)
    \<and> ReceiveTimestamp (dresp_Body r) = NewTimestamp (rx_time (sv_Config s) rxTS)"
proof -
  let ?n = "length (sv_sw s0)" and ?h = "sync_Header d"
  let ?c = "UpdateDelayResp ?h (rx_time (sv_Config s) rxTS) (sv_heap s ! a)"
  let ?s1 = "push a ToQueue (on_client a (UpdateDelayResp ?h (rx_time (sv_Config s) rxTS)) (on_stats (IncRX MessageDelayReq) s))"
  have inv: "server_inv env ?n s" using assms(1,2) by (rule started_inv)
  have w: "w < ?n" using findWorker_less [OF inv assms(7)] .
  have a: "a < length (sv_heap s)" "sc_worker (sv_heap s ! a) = w" "sc_subscriptionType (sv_heap s ! a) = MessageDelayResp"
    using found_entry [OF inv w assms(8)] by (simp_all add: entry_ok_def)
  have x: "exec env (EventPacket now dReq buf sa rxTS) s = Some (Done ?s1)"
    using event_delay_request [OF assms(3-5)] assms(6-8) by (simp add: delay_request_def Let_def)
  have inv1: "server_inv env ?n ?s1" using inv_exec [OF inv x] .
  have h: "sv_heap ?s1 ! a = ?c" using a(1) by simp
  have wl: "w < length (sv_sw s)" using w inv by (simp add: server_inv_def)
  have q: "w_queue (sv_sw ?s1 ! w) = [a]" using a wl assms(9) by simp
  have wf: "length (w_buf ((sv_sw ?s1 ! w)\<lparr>w_queue := []\<rparr>)) = 128" "wf_client (sv_heap ?s1 ! a)" "w < length (sv_sw ?s1)"
    using worker_facts [OF inv1 w, of a] a(1) by simp_all
  have "sc_subscriptionType (sv_heap ?s1 ! a) = MessageDelayResp" using a h by simp
  from delay_resp_turn [OF wf(2) this wf(1) assms(10)] single_turn [OF wf(3) q]
  obtain s2 where s2: "exec env (WorkerTurn w Queue io) ?s1 = Some (Done s2)"
    "sv_sent s2 = sv_sent s @ [\<lparr>sent_sock = GeneralSock, sent_bytes = wire (PDelayResp (sc_delayRespP ?c)),
      sent_to = sc_gclisa ?c, sent_seq = None\<rparr>]"
    unfolding h by (metis (no_types, lifting) sv_sent_ops(1,2,4))
  have "DecodePacket (wire (PDelayResp (sc_delayRespP ?c))) = Some (Inr (PDelayResp (sc_delayRespP ?c)))"
    using wf(2) wf_client_sendable(4) unfolding h by (simp add: DecodePacket_eq sendable_def)
  then show ?thesis
    using x s2 by (intro exI [of _ ?s1] exI [of _ s2] exI conjI) (auto simp: UpdateDelayResp_def)
qed

definition sample_delay :: "u16 \<Rightarrow> SyncDelayReq" where
  "sample_delay flags = \<lparr>sync_Header = zero_Header\<lparr>SdoIDAndMsgType := MessageDelayReq, MessageLength := 44,
     FlagField := flags, SourcePortIdentity := PortIdentity 9 1, SequenceID := 77\<rparr>,
     sync_OriginTimestamp = zero_timestamp, sync_TLVs = []\<rparr>"

definition sample_subscribed :: "event list" where
  "sample_subscribed = [GeneralPacket 0 zero_Signaling
     (packet_bytes (PSignaling (sample_signaling [RequestUnicastTransmissionTLV (sample_tlv 0x90 1 60)])))
     (SockaddrInet4 320 [10, 0, 0, 9])]"

definition sample_io :: worker_io where
  "sample_io = \<lparr>io_event = SendOk, io_txts = (5, 1, False), io_general = SendOk\<rparr>"

theorem delay_response_echo_witness:
  "\<exists>s1 s2 x r. exec sample_senv (EventPacket 5 zero_SyncDelayReq (packet_bytes (PSyncDelayReq (sample_delay FlagUnicast)))
        (SockaddrInet4 319 [10, 0, 0, 9]) 3) (sample_state sample_subscribed) = Some (Done s1)
     \<and> exec sample_senv (WorkerTurn 1 Queue sample_io) s1 = Some (Done s2)
     \<and> sv_sent s2 = sv_sent (sample_state sample_subscribed) @ [x]
     \<and> DecodePacket (sent_bytes x) = Some (Inr (PDelayResp r)) \<and> SequenceID (dresp_Header r) = 77"
proof -
  let ?b = "packet_bytes (PSyncDelayReq (sample_delay FlagUnicast))" and ?s = "sample_state sample_subscribed"
  have r: "run_done sample_subscribed" by code_simp
  have c: "\<not> ctx_Err ?s" by code_simp
  have p: "ProbeMsgType ?b = Inr MessageDelayReq" by code_simp
  have d: "SyncDelayReq_UnmarshalBinary (zero_SyncDelayReq\<lparr>sync_TLVs := []\<rparr>) ?b = Some (sample_delay FlagUnicast, None)"
    by code_simp
  have f: "FlagField (sync_Header (sample_delay FlagUnicast)) \<noteq> FlagProfileSpecific1 OR FlagUnicast" by code_simp
  have w: "findWorker sample_senv (SourcePortIdentity (sync_Header (sample_delay FlagUnicast)))
      (workerOffset_of 0 (sync_TLVs (sample_delay FlagUnicast))) ?s = Some 1" by code_simp
  have a: "FindSubscription (SourcePortIdentity (sync_Header (sample_delay FlagUnicast))) MessageDelayResp (sv_sw ?s ! 1) = Some 0"
    by code_simp
  have q: "w_queue (sv_sw ?s ! 1) = []" by code_simp
  have i: "io_general sample_io = SendOk" by code_simp
  have s: "SequenceID (sync_Header (sample_delay FlagUnicast)) = 77" by code_simp
  show ?thesis
    using delay_response_echo [OF sample_started sample_reachable [OF r] c p d f w a q i,
      of 5 "SockaddrInet4 319 [10, 0, 0, 9]" 3] unfolding s by blast
qed

text \<open>The general address of a simple client: where its Announce goes.\<close>

definition sptp_gclisa :: "Sockaddr \<Rightarrow> SyncDelayReq \<Rightarrow> nat \<Rightarrow> Server \<Rightarrow> Sockaddr" where
  "sptp_gclisa sa d w s =
     (if PortNumber (SourcePortIdentity (sync_Header d)) > 10 then sa
      else case FindSubscription (SourcePortIdentity (sync_Header d)) MessageDelayReq (sv_sw s ! w) of
          None \<Rightarrow> NewSockaddrWithPort sa PortGeneral
        | Some a \<Rightarrow> updateSockaddrWithPort (sc_gclisa (sv_heap s ! a)) PortGeneral)"

text \<open>A client that is ready to answer a simple request.\<close>

definition sptp_ready :: "SyncDelayReq \<Rightarrow> Sockaddr \<Rightarrow> Sockaddr \<Rightarrow> time \<Rightarrow> nat \<Rightarrow> SubscriptionClient \<Rightarrow> bool" where
  "sptp_ready d e g rxt w c \<longleftrightarrow> sc_worker c = w \<and> sc_subscriptionType c = MessageDelayReq \<and> sc_eclisa c = e \<and> sc_gclisa c = g
     \<and> SequenceID (sync_Header (sc_syncP c)) = SequenceID (sync_Header d)
     \<and> sync_OriginTimestamp (sc_syncP c) = NewTimestamp rxt
     \<and> SequenceID (ann_Header (sc_announceP c)) = SequenceID (sync_Header d)
     \<and> CorrectionField (ann_Header (sc_announceP c)) = CorrectionField (sync_Header d)"

lemma sptp_ready_update:
  "sc_worker c = w \<Longrightarrow> sc_subscriptionType c = MessageDelayReq \<Longrightarrow>
    sptp_ready d (sc_eclisa c) (sc_gclisa c) rxt w (UpdateAnnounceDelayReq cfg (CorrectionField (sync_Header d))
      (SequenceID (sync_Header d)) (UpdateSyncDelayReq rxt (SequenceID (sync_Header d)) c))"
  by (simp add: sptp_ready_def UpdateAnnounceDelayReq_def UpdateSyncDelayReq_def Let_def)

lemma spawn_heap: "(spawn a s)\<lparr>sv_heap := h\<rparr> = spawn a (s\<lparr>sv_heap := h\<rparr>)"
  by (simp add: spawn_def)

lemma sptp_request_facts:
  assumes "server_inv env n s" and "w < n"
  obtains a where "a < length (sv_heap (sptp_request now d sa rxt w s))"
    and "sptp_ready d sa (sptp_gclisa sa d w s) rxt w (sv_heap (sptp_request now d sa rxt w s) ! a)"
    and "w_queue (sv_sw (sptp_request now d sa rxt w s) ! w) = w_queue (sv_sw s ! w) @ [a]"
    and "sv_sent (sptp_request now d sa rxt w s) = sv_sent s"
proof -
  let ?k = "SourcePortIdentity (sync_Header d)" and ?s' = "sptp_request now d sa rxt w s"
  have l: "w < length (sv_sw s)" using assms by (simp add: server_inv_def)
  show ?thesis
  proof (cases "FindSubscription ?k MessageDelayReq (sv_sw s ! w)")
    case None
    let ?a = "length (sv_heap s)"
    define c where "c = NewSubscriptionClient w sa (sptp_gclisa sa d w s) MessageDelayReq (sv_Config s)
      subscriptionDuration (now + subscriptionDuration) now"
    let ?u = "UpdateAnnounceDelayReq (sv_Config s) (CorrectionField (sync_Header d)) (SequenceID (sync_Header d))
      (UpdateSyncDelayReq rxt (SequenceID (sync_Header d)) c)"
    define t where "t = on_worker w (RegisterSubscription ?k MessageDelayReq ?a) (s\<lparr>sv_heap := sv_heap s @ [c]\<rparr>)"
    have e: "?s' = spawn ?a (push ?a ToQueue (on_client ?a (\<lambda>_. ?u) t))"
      by (simp add: sptp_request_def Let_def newClient_def None spawn_commute c_def sptp_gclisa_def t_def on_client_def spawn_heap)
    have h: "sv_heap ?s' ! ?a = ?u" "?a < length (sv_heap ?s')"
      unfolding e by (simp_all add: t_def)
    have ready: "sptp_ready d sa (sptp_gclisa sa d w s) rxt w ?u"
      using sptp_ready_update [of c w d rxt "sv_Config s"] by (simp add: c_def)
    then have "sc_worker ?u = w" by (simp add: sptp_ready_def)
    then have "w_queue (sv_sw ?s' ! w) = w_queue (sv_sw t ! w) @ [?a]"
      unfolding e using l by (simp add: t_def)
    also have "w_queue (sv_sw t ! w) = w_queue (sv_sw s ! w)"
      using l by (simp add: t_def on_worker_def RegisterSubscription_def Let_def split: option.split)
    finally have "w_queue (sv_sw ?s' ! w) = w_queue (sv_sw s ! w) @ [?a]" .
    moreover have "sv_sent ?s' = sv_sent s" unfolding e by (simp add: t_def)
    ultimately show ?thesis using h ready by (intro that [of ?a]) simp_all
  next
    case (Some a)
    then have a: "a < length (sv_heap s)" "sc_worker (sv_heap s ! a) = w" "sc_subscriptionType (sv_heap s ! a) = MessageDelayReq"
      using found_entry [OF assms Some] by (simp_all add: entry_ok_def)
    define c where "c = (SetExpire (now + subscriptionDuration) (sv_heap s ! a))\<lparr>sc_eclisa := sa, sc_gclisa := sptp_gclisa sa d w s\<rparr>"
    let ?u = "UpdateAnnounceDelayReq (sv_Config s) (CorrectionField (sync_Header d)) (SequenceID (sync_Header d))
      (UpdateSyncDelayReq rxt (SequenceID (sync_Header d)) c)"
    have e: "?s' = push a ToQueue (on_client a (\<lambda>_. ?u) s)"
      using a(1) by (simp add: sptp_request_def Let_def Some c_def sptp_gclisa_def on_client_def SetExpire_def)
    have ready: "sptp_ready d sa (sptp_gclisa sa d w s) rxt w ?u"
      using sptp_ready_update [of c w d rxt "sv_Config s"] a by (simp add: c_def SetExpire_def)
    then have "sc_worker ?u = w" by (simp add: sptp_ready_def)
    then show ?thesis using ready a l by (intro that [of a]) (simp_all add: e)
  qed
qed



subsection \<open>Renewals with a bad interval, duplicate requests\<close>

lemma ctx_Err_spawn [simp]: "ctx_Err (spawn a s) = ctx_Err s"
  by (simp add: ctx_Err_def spawn_def)

lemma findWorker_cong: "length (sv_sw s) = length (sv_sw s') \<Longrightarrow> findWorker env k off s = findWorker env k off s'"
  by (simp only: findWorker_def)

lemma findWorker_index:
  assumes "server_inv env n s" and "findWorker env k off s = Some w"
  shows "w = worker_index env n k off" "w < n" "w < length (sv_sw s)"
  using assms findWorker_less [OF assms] by (auto simp: findWorker_eq server_inv_def split: if_splits)

lemma request_tlv_eq:
  assumes "server_inv env n s" and "grantable (req_type v)"
    and "findWorker env (SourcePortIdentity (sig_Header sg)) 0 s = Some w"
    and "grant_client env now gclisa (SourcePortIdentity (sig_Header sg)) (req_type v) (req_interval env v)
      (now + req_duration v) w (on_stats (IncRXSignalingGrant (req_type v)) s) = (a, s1)"
  shows "handle_tlv env now gclisa sg (RequestUnicastTransmissionTLV v) s =
    (if acceptable s (req_interval env v) (req_duration v)
     then (let s2 = sendSignalingGrant sg (req_MsgTypeAndReserved v) (req_LogInterMessagePeriod v) (req_DurationField v) a s1
           in Done (if sc_running (sv_heap s2 ! a) then s2 else spawn a s2))
     else Done (sendSignalingGrant sg (req_MsgTypeAndReserved v) (req_LogInterMessagePeriod v) 0 a s1))"
proof -
  let ?s = "on_stats (IncRXSignalingGrant (req_type v)) s"
  have n: "length (sv_sw ?s) = n" "0 < n" using assms(1) by (simp_all add: server_inv_def)
  have "handle_tlv env now gclisa sg (RequestUnicastTransmissionTLV v) s = grant_request env now gclisa sg v (req_type v) ?s"
    using assms(2) by (auto simp: Let_def)
  then show ?thesis
    using grant_request_eq [OF n, of env now gclisa sg v "req_type v"] assms(4)
      findWorker_index(1) [OF assms(1,3), symmetric] by (simp add: Let_def)
qed

lemma grant_client_running:
  assumes "FindSubscription k t (sv_sw s ! w) = Some a" and "sc_running (sv_heap s ! a)" and "a < length (sv_heap s)"
  shows "grant_client env now g k t i e w s =
    (a, on_client a (\<lambda>c. c\<lparr>sc_expire := e, sc_interval := i, sc_gclisa := g\<rparr>) s)"
  using assms by (simp add: grant_client_def on_client_def SetExpire_def SetInterval_def SetGclisa_def)

text \<open>C30: a client can stop the whole server: when a running subscription is renewed with an interval that is zero or negative (a log period of -128 for instance), the next tick of its goroutine panics in \<^verbatim>\<open>Ticker.Reset\<close>, even if the renewal itself was refused.\<close>

theorem renewal_crashes:
  assumes "started env s0" and "reachable env s0 s" and "grantable (req_type v)"
    and "findWorker env (SourcePortIdentity (sig_Header sg)) 0 s = Some w"
    and "FindSubscription (SourcePortIdentity (sig_Header sg)) (req_type v) (sv_sw s ! w) = Some a"
    and "sc_running (sv_heap s ! a)" and "i < length (sv_loops s)" and "fst (sv_loops s ! i) = a"
    and "0 < sc_runningInterval (sv_heap s ! a)"
    and "req_interval env v \<le> 0" and "later \<le> now + req_duration v"
  shows "\<exists>s'. handle_tlv env now gclisa sg (RequestUnicastTransmissionTLV v) s = Done s'
    \<and> exec env (Tick later i) s' = Some Crash"
proof -
  let ?n = "length (sv_sw s0)" and ?k = "SourcePortIdentity (sig_Header sg)"
  let ?s = "on_stats (IncRXSignalingGrant (req_type v)) s"
  have inv: "server_inv env ?n s" using assms(1,2) by (rule started_inv)
  have a: "a < length (sv_heap s)"
    using found_entry [OF inv findWorker_less [OF inv assms(4)] assms(5)] by (simp add: entry_ok_def)
  let ?c = "\<lambda>c. c\<lparr>sc_expire := now + req_duration v, sc_interval := req_interval env v, sc_gclisa := gclisa\<rparr>"
  let ?s' = "\<lambda>d. sendSignalingGrant sg (req_MsgTypeAndReserved v) (req_LogInterMessagePeriod v) d a (on_client a ?c ?s)"
  have gc: "grant_client env now gclisa ?k (req_type v) (req_interval env v) (now + req_duration v) w ?s = (a, on_client a ?c ?s)"
    using assms(5,6) a by (intro grant_client_running) simp_all
  have r: "sc_running (sv_heap (?s' d) ! a)" for d using a assms(6) by simp
  have h: "handle_tlv env now gclisa sg (RequestUnicastTransmissionTLV v) s
      = Done (?s' (if acceptable s (req_interval env v) (req_duration v) then req_DurationField v else 0))"
    using request_tlv_eq [OF inv assms(3,4) gc] r by (simp add: Let_def)
  have "exec env (Tick later i) (?s' d) = Some Crash" for d
  proof -
    obtain ctx where "sv_loops s ! i = (a, ctx)" using assms(8) by (metis prod.collapse)
    moreover have "Start_tick later (sv_heap (?s' d) ! a) = Crash"
      using a assms(9-11) by (simp add: Start_tick_def Expired_def UpdateSignalingGrant_def Let_def)
    ultimately show ?thesis using assms(7) by (simp add: tick_loop_def sendSignalingGrant_def)
  qed
  then show ?thesis using h by blast
qed

theorem renewal_crashes_witness:
  "\<exists>s'. handle_tlv sample_senv 5 (SockaddrInet4 320 [10, 0, 0, 9]) (sample_signaling [])
       (RequestUnicastTransmissionTLV (sample_tlv 0 0x80 60)) (sample_state sample_running) = Done s'
     \<and> exec sample_senv (Tick 6 0) s' = Some Crash"
proof -
  let ?s = "sample_state sample_running" and ?v = "sample_tlv 0 0x80 60"
  have g: "grantable (req_type ?v)" by code_simp
  have w: "findWorker sample_senv (SourcePortIdentity (sig_Header (sample_signaling []))) 0 ?s = Some 1" by code_simp
  have a: "FindSubscription (SourcePortIdentity (sig_Header (sample_signaling []))) (req_type ?v) (sv_sw ?s ! 1) = Some 0"
    by code_simp
  have r: "sc_running (sv_heap ?s ! 0)" by code_simp
  have l: "0 < length (sv_loops ?s)" by code_simp
  have f: "fst (sv_loops ?s ! 0) = 0" by code_simp
  have p: "0 < sc_runningInterval (sv_heap ?s ! 0)" by code_simp
  have i: "req_interval sample_senv ?v \<le> 0" by code_simp
  have e: "6 \<le> 5 + req_duration ?v" by code_simp
  show ?thesis
    using renewal_crashes [OF sample_started sample_reachable [OF sample_running_done] g w a r l f p i e,
      of "SockaddrInet4 320 [10, 0, 0, 9]"] .
qed

lemma grant_client_new:
  assumes "\<And>a. FindSubscription k t (sv_sw s ! w) = Some a \<Longrightarrow> \<not> sc_running (sv_heap s ! a)"
  shows "grant_client env now g k t i e w s =
    (length (sv_heap s), on_worker w (RegisterSubscription k t (length (sv_heap s)))
       (s\<lparr>sv_heap := sv_heap s @ [NewSubscriptionClient w (IPToSockaddr (SockaddrToIP g) PortEvent)
          g t (sv_Config s) i e now]\<rparr>))"
  using assms by (auto simp: grant_client_def split: option.split)

text \<open>An accepted request for a subscription that does not run yet.\<close>

lemma request_new:
  assumes "server_inv env n s" and "grantable (req_type v)" and "acceptable s (req_interval env v) (req_duration v)"
    and "findWorker env (SourcePortIdentity (sig_Header sg)) 0 s = Some w"
    and "\<And>a. FindSubscription (SourcePortIdentity (sig_Header sg)) (req_type v) (sv_sw s ! w) = Some a \<Longrightarrow>
      \<not> sc_running (sv_heap s ! a)"
  obtains s' where "handle_tlv env now gclisa sg (RequestUnicastTransmissionTLV v) s = Done s'"
    and "sv_spawned s' = sv_spawned s @ [(length (sv_heap s), sv_ctx s)]"
    and "length (sv_heap s') = Suc (length (sv_heap s))"
    and "FindSubscription (SourcePortIdentity (sig_Header sg)) (req_type v) (sv_sw s' ! w) = Some (length (sv_heap s))"
    and "\<not> sc_running (sv_heap s' ! length (sv_heap s))"
    and "findWorker env (SourcePortIdentity (sig_Header sg)) 0 s' = Some w"
    and "acceptable s' (req_interval env v) (req_duration v)" and "sv_ctx s' = sv_ctx s"
proof -
  let ?k = "SourcePortIdentity (sig_Header sg)" and ?a = "length (sv_heap s)"
  let ?s = "on_stats (IncRXSignalingGrant (req_type v)) s"
  have w: "w < length (sv_sw s)" using findWorker_index(3) [OF assms(1,4)] .
  define c where "c = NewSubscriptionClient w (IPToSockaddr (SockaddrToIP gclisa) PortEvent) gclisa (req_type v)
    (sv_Config s) (req_interval env v) (now + req_duration v) now"
  define t where "t = on_worker w (RegisterSubscription ?k (req_type v) ?a) (?s\<lparr>sv_heap := sv_heap s @ [c]\<rparr>)"
  define s' where "s' = spawn ?a (sendSignalingGrant sg (req_MsgTypeAndReserved v) (req_LogInterMessagePeriod v) (req_DurationField v) ?a t)"
  have gc: "grant_client env now gclisa ?k (req_type v) (req_interval env v) (now + req_duration v) w ?s = (?a, t)"
    using assms(5) by (subst grant_client_new) (simp_all add: t_def c_def)
  have "\<not> sc_running (UpdateSignalingGrant sg (req_MsgTypeAndReserved v) (req_LogInterMessagePeriod v) (req_DurationField v) c)"
    by (simp add: c_def)
  then have h: "handle_tlv env now gclisa sg (RequestUnicastTransmissionTLV v) s = Done s'"
    using request_tlv_eq [OF assms(1,2,4) gc] assms(3) by (simp add: Let_def s'_def t_def)
  show ?thesis
  proof (rule that [OF h])
    show "sv_spawned s' = sv_spawned s @ [(length (sv_heap s), sv_ctx s)]" "sv_ctx s' = sv_ctx s"
      by (simp_all add: s'_def t_def spawn_def sendSignalingGrant_def)
    show "length (sv_heap s') = Suc (length (sv_heap s))" "\<not> sc_running (sv_heap s' ! length (sv_heap s))"
      by (simp_all add: s'_def t_def c_def)
    show "FindSubscription ?k (req_type v) (sv_sw s' ! w) = Some ?a"
      using w by (simp add: s'_def sendSignalingGrant_def t_def)
    show "findWorker env ?k 0 s' = Some w"
      using assms(4) findWorker_cong [of s' s] by (simp add: s'_def sendSignalingGrant_def t_def)
    show "acceptable s' (req_interval env v) (req_duration v)"
      using assms(3) by (simp add: acceptable_def s'_def sendSignalingGrant_def t_def)
  qed
qed

text \<open>C31: two requests for the same new subscription in one message create two goroutines for two clients, of which only the second is registered: the first can no longer be renewed or cancelled.\<close>

theorem double_request_duplicates:
  assumes "started env s0" and "reachable env s0 s" and "grantable (req_type v)"
    and "acceptable s (req_interval env v) (req_duration v)"
    and "findWorker env (SourcePortIdentity (sig_Header sg)) 0 s = Some w"
    and "FindSubscription (SourcePortIdentity (sig_Header sg)) (req_type v) (sv_sw s ! w) = None"
    and "Header_MessageType (sig_Header sg) = MessageSignaling"
  shows "\<exists>s' a a'. handle_tlvs env now gclisa sg [RequestUnicastTransmissionTLV v, RequestUnicastTransmissionTLV v] s = Done s'
    \<and> a \<noteq> a' \<and> sv_spawned s' = sv_spawned s @ [(a, sv_ctx s), (a', sv_ctx s)]
    \<and> FindSubscription (SourcePortIdentity (sig_Header sg)) (req_type v) (sv_sw s' ! w) = Some a'"
proof -
  have inv: "server_inv env (length (sv_sw s0)) s" using assms(1,2) by (rule started_inv)
  obtain s1 where s1: "handle_tlv env now gclisa sg (RequestUnicastTransmissionTLV v) s = Done s1"
    "sv_spawned s1 = sv_spawned s @ [(length (sv_heap s), sv_ctx s)]" "length (sv_heap s1) = Suc (length (sv_heap s))"
    "FindSubscription (SourcePortIdentity (sig_Header sg)) (req_type v) (sv_sw s1 ! w) = Some (length (sv_heap s))"
    "\<not> sc_running (sv_heap s1 ! length (sv_heap s))"
    "findWorker env (SourcePortIdentity (sig_Header sg)) 0 s1 = Some w"
    "acceptable s1 (req_interval env v) (req_duration v)" "sv_ctx s1 = sv_ctx s"
    using request_new [OF inv assms(3-5), of now gclisa] assms(6) by auto
  have inv1: "server_inv env (length (sv_sw s0)) s1" using inv_handle_tlv [OF inv s1(1) assms(7)] .
  obtain s2 where "handle_tlv env now gclisa sg (RequestUnicastTransmissionTLV v) s1 = Done s2"
    "sv_spawned s2 = sv_spawned s1 @ [(length (sv_heap s1), sv_ctx s)]"
    "FindSubscription (SourcePortIdentity (sig_Header sg)) (req_type v) (sv_sw s2 ! w) = Some (length (sv_heap s1))"
    using request_new [OF inv1 assms(3) s1(7,6), of now gclisa] s1(4,5,8) by auto
  then show ?thesis using s1(1-3) by (intro exI [of _ s2]) auto
qed

theorem double_request_duplicates_witness:
  "\<exists>s' a a'. handle_tlvs sample_senv 5 (SockaddrInet4 320 [10, 0, 0, 9]) (sample_signaling [])
       [RequestUnicastTransmissionTLV (sample_tlv 0 1 60), RequestUnicastTransmissionTLV (sample_tlv 0 1 60)] sample_server = Done s'
     \<and> a \<noteq> a' \<and> {(a, 0), (a', 0)} \<subseteq> set (sv_spawned s')"
proof -
  let ?v = "sample_tlv 0 1 60"
  have g: "grantable (req_type ?v)" by code_simp
  have ac: "acceptable sample_server (req_interval sample_senv ?v) (req_duration ?v)" by code_simp
  have w: "findWorker sample_senv (SourcePortIdentity (sig_Header (sample_signaling []))) 0 sample_server = Some 1" by code_simp
  have a: "FindSubscription (SourcePortIdentity (sig_Header (sample_signaling []))) (req_type ?v) (sv_sw sample_server ! 1) = None"
    by code_simp
  have t: "Header_MessageType (sig_Header (sample_signaling [])) = MessageSignaling" by code_simp
  have "sv_ctx sample_server = 0" by code_simp
  then show ?thesis
    using double_request_duplicates [OF sample_started reachable.start g ac w a t, of 5 "SockaddrInet4 320 [10, 0, 0, 9]"]
    by fastforce
qed

subsection \<open>The drain decision\<close>

lemma ctx_Err_inventory: "ctx_Err (inventory_all s) = ctx_Err s" "ctx_Err ((inventory_all ^^ k) s) = ctx_Err s"
proof -
  have i: "ctx_Err (inventory_all s) = ctx_Err s" for s
    using quiet_inventory_all [OF quiet_refl, of s] by (simp add: quiet_def ctx_Err_def)
  then show "ctx_Err (inventory_all s) = ctx_Err s" .
  show "ctx_Err ((inventory_all ^^ k) s) = ctx_Err s" by (induction k) (simp_all add: i)
qed

text \<open>After a drain check the server drains exactly when one of the drain files exists and the undrain file does not, and the drain metric says so.\<close>

lemma drain_check_decides:
  assumes "started env s0" and "reachable env s0 s"
  shows "(ctx_Err (drain_check env s) \<longleftrightarrow>
      (\<exists>f \<in> set (sv_Checks s). Stat_ok (env_cfg env) (FileName f))
      \<and> \<not> Stat_ok (env_cfg env) (UndrainFileName (cfg_static (sv_Config s))))
    \<and> ctr_drain (js_counters (sv_Stats (drain_check env s))) = (if ctx_Err (drain_check env s) then 1 else 0)"
proof -
  have "sv_ctx s < length (sv_ctxs s)" using started_inv [OF assms] by (simp add: server_inv_def)
  then have "ctx_Err (Drain s)" "\<not> ctx_Err (Undrain s)"
    by (simp_all add: Drain_def ctx_Err_inventory) (simp_all add: Drain_cancel_def Undrain_def ctx_Err_def)
  moreover have "shouldDrain env s \<longleftrightarrow> (\<exists>f \<in> set (sv_Checks s). Stat_ok (env_cfg env) (FileName f))
      \<and> \<not> Stat_ok (env_cfg env) (UndrainFileName (cfg_static (sv_Config s)))"
    by (auto simp: shouldDrain_def drain_Undrain_def FileDrain_Check_def list_ex_iff)
  moreover have "ctr_drain (js_counters (sv_Stats (on_stats (SetDrain k) t))) = k" for k t
    by (simp add: on_stats_def SetDrain_def)
  ultimately show ?thesis by (simp add: drain_check_def)
qed

lemma drain_check_decides_witness:
  "\<not> ctx_Err (drain_check sample_senv sample_server)
   \<and> ctr_drain (js_counters (sv_Stats (drain_check sample_senv sample_server))) = 0"
proof -
  have "sv_Checks sample_server = []" by (simp add: sample_server_def)
  then show ?thesis using drain_check_decides [OF sample_started reachable.start] by simp
qed

end
