(* ===== verification/Ptp_Kernel.thy ===== *)
theory Ptp_Kernel
  imports Ptp_Timestamp
begin

section \<open>Timestamps from the kernel (\<^verbatim>\<open>src/timestamp/timestamp_linux.go\<close>)\<close>

text \<open>
  The scans over the control messages that come with a packet or from the error queue, and the
  loops that read transmit timestamps. A reference on lists of control messages specifies the scans.
  Memory outside a buffer, panics and loops that do not end are values of the model.
\<close>

subsection \<open>The platform\<close>

text \<open>
  Sizes, layouts and constants that \<^verbatim>\<open>golang.org/x/sys/unix\<close> defines per platform: the control message
  header with its length, level and type, the length and the space of a control message, the extended
  error with its errno and data, and the native 64-bit integer. \<open>Cmsghdr_size\<close> is
  \<^verbatim>\<open>binary.Size(unix.Cmsghdr{})\<close>.
\<close>

record unix_abi =
  SizeofCmsghdr :: nat
  Cmsghdr_size :: nat
  CmsgSpace :: "int \<Rightarrow> int"
  CmsgLen :: "int \<Rightarrow> int"
  Cmsghdr_at :: "bytes \<Rightarrow> int \<times> int \<times> int"
  Cmsghdr_put :: "int \<times> int \<times> int \<Rightarrow> bytes"
  SizeofSockExtendedErr :: nat
  SockExtendedErr_at :: "bytes \<Rightarrow> u32 \<times> u32"
  int64_at :: "bytes \<Rightarrow> int"
  uint32_put :: "u32 \<Rightarrow> bytes"
  SOL_SOCKET :: int
  SO_TIMESTAMPING :: int
  SO_TIMESTAMPING_NEW :: int
  SOL_IP :: int
  SOL_IPV6 :: int
  IP_RECVERR :: int
  IPV6_RECVERR :: int
  SCM_TS_OPT_ID :: int
  ENOMSG :: u32

subsection \<open>Memory\<close>

text \<open>
  A slice with the memory from its start to the end of its capacity. A read through an unsafe
  pointer to an element panics when the index is out of range; when the value read does not fit
  into the array it reads memory that is not the program's to read.
\<close>

datatype 'a access = Val 'a | Panic | Unmapped

fun abind :: "'a access \<Rightarrow> ('a \<Rightarrow> 'b access) \<Rightarrow> 'b access" where
  "abind (Val x) f = f x"
| "abind Panic f = Panic"
| "abind Unmapped f = Unmapped"

record slice =
  sl_arr :: bytes
  sl_len :: nat

definition whole :: "bytes \<Rightarrow> slice" where
  "whole b = \<lparr>sl_arr = b, sl_len = length b\<rparr>"

definition reslice :: "int \<Rightarrow> int \<Rightarrow> slice \<Rightarrow> slice access" where
  "reslice lo hi s =
     (if 0 \<le> lo \<and> lo \<le> hi \<and> hi \<le> int (length (sl_arr s))
      then Val \<lparr>sl_arr = drop (nat lo) (sl_arr s), sl_len = nat (hi - lo)\<rparr> else Panic)"

definition load :: "nat \<Rightarrow> int \<Rightarrow> slice \<Rightarrow> bytes access" where
  "load n i s =
     (if i < 0 \<or> int (sl_len s) \<le> i then Panic
      else if length (sl_arr s) < nat i + n then Unmapped
      else Val (take n (drop (nat i) (sl_arr s))))"

subsection \<open>Decoding a control message\<close>

datatype ts_error =
    errNoTimestamp
  | errZeroTimestamp
  | errUnexpectedErrno u32
  | errNoTXTimestamp nat
  | errReadTimestamp

definition byteToTime :: "unix_abi \<Rightarrow> slice \<Rightarrow> time access" where
  "byteToTime abi data =
     abind (load 8 0 data) (\<lambda>sec.
     abind (load 8 8 data) (\<lambda>nsec.
     Val (unix_time (int64_at abi sec) (int64_at abi nsec))))"

definition scmDataToTime :: "unix_abi \<Rightarrow> slice \<Rightarrow> (time \<times> ts_error option) access" where
  "scmDataToTime abi data =
     (let size = 16 in
      abind (reslice (size * 2) (size * 3) data) (\<lambda>hw.
      abind (byteToTime abi hw) (\<lambda>ts.
      if UnixNano ts = 0 then
        abind (reslice 0 size data) (\<lambda>sw.
        abind (byteToTime abi sw) (\<lambda>ts.
        if UnixNano ts = 0 then Val (ts, Some errZeroTimestamp) else Val (ts, None)))
      else Val (ts, None))))"

definition scmDataToSeqID :: "unix_abi \<Rightarrow> slice \<Rightarrow> (u32 \<times> ts_error option) access" where
  "scmDataToSeqID abi data =
     abind (load (SizeofSockExtendedErr abi) 0 data) (\<lambda>se.
       let (err, dat) = SockExtendedErr_at abi se
       in if err \<noteq> ENOMSG abi then Val (0, Some (errUnexpectedErrno err)) else Val (dat, None))"

subsection \<open>The two scans over the control messages\<close>

definition read_header :: "unix_abi \<Rightarrow> bytes \<Rightarrow> int \<Rightarrow> (int \<times> int \<times> int) access" where
  "read_header abi b i =
     abind (load (SizeofCmsghdr abi) i (whole b)) (\<lambda>h. Val (Cmsghdr_at abi h))"

text \<open>
  Nothing makes the index grow when a length is not positive, so the loops need not end; then the
  value is \<^term>\<open>None\<close>.
\<close>

partial_function (option) scm_timestamp_loop ::
  "unix_abi \<Rightarrow> bytes \<Rightarrow> int \<Rightarrow> int \<Rightarrow> (time \<times> ts_error option) access option" where
  "scm_timestamp_loop abi b boob i =
     (if i < boob then
        (case read_header abi b i of
           Panic \<Rightarrow> Some Panic
         | Unmapped \<Rightarrow> Some Unmapped
         | Val (mlen, level, type) \<Rightarrow>
             if mlen = 0 then Some (Val (zero_time, Some errNoTimestamp))
             else if level = SOL_SOCKET abi \<and> type = SO_TIMESTAMPING_NEW abi \<or> type = SO_TIMESTAMPING abi
             then Some (abind (reslice (i + int (Cmsghdr_size abi)) (i + mlen) (whole b)) (scmDataToTime abi))
             else scm_timestamp_loop abi b boob (i + CmsgSpace abi (mlen - int (SizeofCmsghdr abi))))
      else Some (Val (zero_time, Some errNoTimestamp)))"

definition socketControlMessageTimestamp ::
  "unix_abi \<Rightarrow> bytes \<Rightarrow> int \<Rightarrow> (time \<times> ts_error option) access option" where
  "socketControlMessageTimestamp abi b boob = scm_timestamp_loop abi b boob 0"

text \<open>
  The two conditional statements of the second loop and its body; \<^term>\<open>None\<close> inside is the early
  return with an error.
\<close>

definition scm_ts_part :: "unix_abi \<Rightarrow> slice access \<Rightarrow> int \<Rightarrow> int \<Rightarrow> time \<Rightarrow> time option access" where
  "scm_ts_part abi data level type tstamp =
     (if level = SOL_SOCKET abi \<and> type = SO_TIMESTAMPING_NEW abi
      then abind data (\<lambda>d. abind (scmDataToTime abi d) (\<lambda>r.
             Val (if snd r \<noteq> None then None else Some (fst r))))
      else Val (Some tstamp))"

definition scm_seq_part :: "unix_abi \<Rightarrow> slice access \<Rightarrow> int \<Rightarrow> int \<Rightarrow> u32 \<Rightarrow> u32 option access" where
  "scm_seq_part abi data level type cseq =
     (if level = SOL_IPV6 abi \<and> type = IPV6_RECVERR abi \<or> level = SOL_IP abi \<and> type = IP_RECVERR abi
      then abind data (\<lambda>d. abind (scmDataToSeqID abi d) (\<lambda>r.
             Val (if snd r \<noteq> None then None else Some (fst r))))
      else Val (Some cseq))"

definition scm_seq_body ::
  "unix_abi \<Rightarrow> bytes \<Rightarrow> int \<Rightarrow> int \<Rightarrow> int \<Rightarrow> int \<Rightarrow> time \<Rightarrow> u32 \<Rightarrow> (time \<times> u32) option access" where
  "scm_seq_body abi b i mlen level type tstamp cseq =
     (let data = reslice (i + int (Cmsghdr_size abi)) (i + mlen) (whole b) in
      abind (scm_ts_part abi data level type tstamp) (\<lambda>r.
      case r of
        None \<Rightarrow> Val None
      | Some tstamp \<Rightarrow>
          abind (scm_seq_part abi data level type cseq) (\<lambda>r.
          case r of None \<Rightarrow> Val None | Some cseq \<Rightarrow> Val (Some (tstamp, cseq)))))"

definition scm_seq_result :: "time \<Rightarrow> u32 \<Rightarrow> u32 \<Rightarrow> time \<times> ts_error option" where
  "scm_seq_result tstamp cseq seqID =
     (if IsZero tstamp then (zero_time, Some errNoTimestamp)
      else if cseq = seqID then (tstamp, None)
      else (zero_time, Some errNoTimestamp))"

partial_function (option) scm_seq_loop ::
  "unix_abi \<Rightarrow> bytes \<Rightarrow> int \<Rightarrow> u32 \<Rightarrow> int \<Rightarrow> time \<Rightarrow> u32 \<Rightarrow> (time \<times> ts_error option) access option" where
  "scm_seq_loop abi b tboob seqID i tstamp cseq =
     (if i < tboob then
        (case read_header abi b i of
           Panic \<Rightarrow> Some Panic
         | Unmapped \<Rightarrow> Some Unmapped
         | Val (mlen, level, type) \<Rightarrow>
             if mlen = 0 then Some (Val (scm_seq_result tstamp cseq seqID))
             else (case scm_seq_body abi b i mlen level type tstamp cseq of
                 Panic \<Rightarrow> Some Panic
               | Unmapped \<Rightarrow> Some Unmapped
               | Val None \<Rightarrow> Some (Val (zero_time, Some errNoTimestamp))
               | Val (Some (tstamp, cseq)) \<Rightarrow>
                   scm_seq_loop abi b tboob seqID (i + CmsgSpace abi (mlen - int (SizeofCmsghdr abi))) tstamp cseq))
      else Some (Val (scm_seq_result tstamp cseq seqID)))"

definition socketControlMessageSeqIDTimestamp ::
  "unix_abi \<Rightarrow> bytes \<Rightarrow> int \<Rightarrow> u32 \<Rightarrow> (time \<times> ts_error option) access option" where
  "socketControlMessageSeqIDTimestamp abi b tboob seqID = scm_seq_loop abi b tboob seqID 0 zero_time 0"

subsection \<open>The sequence number of a packet to send\<close>

text \<open>
  The control message is written into a reused buffer: the header through an unsafe pointer, the
  sequence number into the slice behind it.
\<close>

abbreviation SizeofSeqID :: int where "SizeofSeqID \<equiv> 4"

definition SeqIDSocketControlMessage :: "unix_abi \<Rightarrow> u32 \<Rightarrow> bytes \<Rightarrow> bytes access" where
  "SeqIDSocketControlMessage abi seqID soob =
     abind (load (SizeofCmsghdr abi) 0 (whole soob)) (\<lambda>_.
     let h = Cmsghdr_put abi (CmsgLen abi SizeofSeqID, SOL_SOCKET abi, SCM_TS_OPT_ID abi);
         soob = h @ drop (SizeofCmsghdr abi) soob
     in abind (reslice (CmsgLen abi 0) (CmsgLen abi SizeofSeqID) (whole soob)) (\<lambda>data.
        if sl_len data < 4 then Panic
        else (let lo = nat (CmsgLen abi 0)
              in Val (take lo soob @ uint32_put abi seqID @ drop (lo + 4) soob))))"

subsection \<open>Reading from the error queue\<close>

datatype errno = EINTR | EINVAL | ETIMEDOUT | ENOTSUP | Errno string

text \<open>
  What the kernel answers: to each \<^verbatim>\<open>poll\<close> the number of ready descriptors and an error, to each
  \<^verbatim>\<open>recvmsg\<close> an error or the control bytes it writes. A call without an answer waits.
\<close>

record kernel =
  k_polls :: "(int \<times> errno option) list"
  k_recvs :: "(errno + bytes) list"

fun poll_loop :: "(int \<times> errno option) list \<Rightarrow> (errno option \<times> (int \<times> errno option) list) option" where
  "poll_loop [] = None"
| "poll_loop ((n, err) # polls) =
     (if err \<noteq> Some EINTR then Some (err, polls)
      else if n = 0 then Some (Some ETIMEDOUT, polls)
      else poll_loop polls)"

definition waitForHWTS :: "kernel \<Rightarrow> (errno option \<times> kernel) option" where
  "waitForHWTS k =
     (case poll_loop (k_polls k) of None \<Rightarrow> None | Some (err, polls) \<Rightarrow> Some (err, k\<lparr>k_polls := polls\<rparr>))"

datatype recv = RecvPanic | RecvErr errno | RecvOk nat

definition recvoob :: "bytes \<Rightarrow> kernel \<Rightarrow> (recv \<times> bytes \<times> kernel) option" where
  "recvoob oob k =
     (if oob = [] then Some (RecvPanic, oob, k)
      else case k_recvs k of
        [] \<Rightarrow> None
      | Inl e1 # rs \<Rightarrow> Some (RecvErr e1, oob, k\<lparr>k_recvs := rs\<rparr>)
      | Inr ctl # rs \<Rightarrow>
          (let ctl = take (length oob) ctl
           in Some (RecvOk (length ctl), ctl @ drop (length ctl) oob, k\<lparr>k_recvs := rs\<rparr>)))"

text \<open>\<^verbatim>\<open>copy(oob, toob)\<close>.\<close>

definition copy_all :: "bytes \<Rightarrow> bytes \<Rightarrow> bytes" where
  "copy_all dst src = take (length dst) src @ drop (length src) dst"

text \<open>
  The attempts of \<^verbatim>\<open>ReadTXtimestampBuf\<close>; the first argument is how many are left. The result holds
  the attempts made, the length of the last control message found, if any, and the buffer.
\<close>

fun read_tx_loop ::
  "nat \<Rightarrow> nat \<Rightarrow> nat option \<Rightarrow> bytes \<Rightarrow> bytes \<Rightarrow> kernel
     \<Rightarrow> ((nat \<times> nat option \<times> bytes) access \<times> kernel) option" where
  "read_tx_loop 0 attempts found oob toob k = Some (Val (attempts, found, oob), k)"
| "read_tx_loop (Suc left) attempts found oob toob k =
     (case (if found = None then map_option snd (waitForHWTS k) else Some k) of
        None \<Rightarrow> None
      | Some k \<Rightarrow>
          (case recvoob toob k of
             None \<Rightarrow> None
           | Some (RecvPanic, toob, k) \<Rightarrow> Some (Panic, k)
           | Some (RecvErr err, toob, k) \<Rightarrow>
               if found \<noteq> None then Some (Val (attempts, found, oob), k)
               else read_tx_loop left (Suc attempts) found oob toob k
           | Some (RecvOk tboob, toob, k) \<Rightarrow>
               read_tx_loop left (Suc attempts) (Some tboob) (copy_all oob toob) toob k))"

type_synonym tx_result = "(time \<times> nat \<times> ts_error option) access \<times> kernel"

definition with_attempts :: "nat \<Rightarrow> (time \<times> ts_error option) access \<Rightarrow> (time \<times> nat \<times> ts_error option) access" where
  "with_attempts n r = abind r (\<lambda>(t, err). Val (t, n, err))"

definition ReadTXtimestampBuf ::
  "unix_abi \<Rightarrow> nat \<Rightarrow> bytes \<Rightarrow> bytes \<Rightarrow> kernel \<Rightarrow> tx_result option" where
  "ReadTXtimestampBuf abi AttemptsTXTS oob toob k =
     (case read_tx_loop AttemptsTXTS 0 None oob toob k of
        None \<Rightarrow> None
      | Some (Panic, k) \<Rightarrow> Some (Panic, k)
      | Some (Unmapped, k) \<Rightarrow> Some (Unmapped, k)
      | Some (Val (attempts, found, oob), k) \<Rightarrow>
          (case found of
             None \<Rightarrow> Some (Val (zero_time, attempts, Some (errNoTXTimestamp AttemptsTXTS)), k)
           | Some boob \<Rightarrow>
               map_option (\<lambda>r. (with_attempts attempts r, k)) (socketControlMessageTimestamp abi oob (int boob))))"

fun read_seq_loop ::
  "unix_abi \<Rightarrow> nat \<Rightarrow> nat \<Rightarrow> nat \<Rightarrow> bytes \<Rightarrow> u32 \<Rightarrow> kernel \<Rightarrow> tx_result option" where
  "read_seq_loop abi AttemptsTXTS 0 attempts toob seqID k =
     Some (Val (zero_time, attempts, Some (errNoTXTimestamp AttemptsTXTS)), k)"
| "read_seq_loop abi AttemptsTXTS (Suc left) attempts toob seqID k =
     (case waitForHWTS k of
        None \<Rightarrow> None
      | Some (e1, k) \<Rightarrow>
          if e1 = Some EINVAL then read_seq_loop abi AttemptsTXTS left (Suc attempts) toob seqID k
          else (case recvoob toob k of
              None \<Rightarrow> None
            | Some (RecvPanic, toob, k) \<Rightarrow> Some (Panic, k)
            | Some (RecvErr err, toob, k) \<Rightarrow> read_seq_loop abi AttemptsTXTS left (Suc attempts) toob seqID k
            | Some (RecvOk tboob, toob, k) \<Rightarrow>
                (case socketControlMessageSeqIDTimestamp abi toob (int tboob) seqID of
                   None \<Rightarrow> None
                 | Some Panic \<Rightarrow> Some (Panic, k)
                 | Some Unmapped \<Rightarrow> Some (Unmapped, k)
                 | Some (Val (timestamp, err)) \<Rightarrow>
                     if err = None then Some (Val (timestamp, attempts, None), k)
                     else read_seq_loop abi AttemptsTXTS left (Suc attempts) toob seqID k)))"

definition ReadTimeStampSeqIDBuf ::
  "unix_abi \<Rightarrow> nat \<Rightarrow> bytes \<Rightarrow> u32 \<Rightarrow> kernel \<Rightarrow> tx_result option" where
  "ReadTimeStampSeqIDBuf abi AttemptsTXTS toob seqID k =
     read_seq_loop abi AttemptsTXTS AttemptsTXTS 0 toob seqID k"

abbreviation ControlSizeBytes :: nat where "ControlSizeBytes \<equiv> 128"

definition ReadTXtimestamp :: "unix_abi \<Rightarrow> nat \<Rightarrow> kernel \<Rightarrow> tx_result option" where
  "ReadTXtimestamp abi AttemptsTXTS k =
     ReadTXtimestampBuf abi AttemptsTXTS (replicate ControlSizeBytes 0) (replicate ControlSizeBytes 0) k"

text \<open>
  A received packet with its receive timestamp: \<open>msg\<close> is what \<^verbatim>\<open>recvmsg\<close> gave, the payload, the
  control bytes and the sender, already cut to the sizes of the two buffers.
\<close>

definition ReadPacketWithRXTimestampBuf ::
  "unix_abi \<Rightarrow> bytes \<Rightarrow> bytes \<Rightarrow> errno + bytes \<times> bytes \<times> Sockaddr
     \<Rightarrow> (bytes \<times> nat \<times> Sockaddr \<times> time \<times> ts_error option) access option" where
  "ReadPacketWithRXTimestampBuf abi buf oob msg =
     (case msg of
        Inl err \<Rightarrow> Some (Val (buf, 0, SockaddrNil, zero_time, Some errReadTimestamp))
      | Inr (payload, ctl, saddr) \<Rightarrow>
          map_option (\<lambda>r. abind r (\<lambda>(t, err).
              Val (payload @ drop (length payload) buf, length payload, saddr, t, err)))
            (socketControlMessageTimestamp abi (ctl @ drop (length ctl) oob) (int (length ctl))))"

subsection \<open>Control messages as a list\<close>

text \<open>A control message with its payload, and that a buffer holds a list of them from an index up to an end.\<close>

record cmsg =
  cm_level :: int
  cm_type :: int
  cm_data :: bytes

fun holds_msgs :: "unix_abi \<Rightarrow> bytes \<Rightarrow> int \<Rightarrow> int \<Rightarrow> cmsg list \<Rightarrow> bool" where
  "holds_msgs abi b end i [] \<longleftrightarrow> end \<le> i"
| "holds_msgs abi b end i (m # ms) \<longleftrightarrow> 0 \<le> i \<and> i < end
     \<and> nat i + SizeofCmsghdr abi + length (cm_data m) \<le> length b
     \<and> Cmsghdr_at abi (take (SizeofCmsghdr abi) (drop (nat i) b))
         = (int (SizeofCmsghdr abi + length (cm_data m)), cm_level m, cm_type m)
     \<and> take (length (cm_data m)) (drop (nat i + SizeofCmsghdr abi) b) = cm_data m
     \<and> holds_msgs abi b end (i + CmsgSpace abi (int (length (cm_data m)))) ms"

definition is_timestamp :: "unix_abi \<Rightarrow> cmsg \<Rightarrow> bool" where
  "is_timestamp abi m \<longleftrightarrow> cm_level m = SOL_SOCKET abi \<and> cm_type m = SO_TIMESTAMPING_NEW abi
     \<or> cm_type m = SO_TIMESTAMPING abi"

definition is_timestamp_new :: "unix_abi \<Rightarrow> cmsg \<Rightarrow> bool" where
  "is_timestamp_new abi m \<longleftrightarrow> cm_level m = SOL_SOCKET abi \<and> cm_type m = SO_TIMESTAMPING_NEW abi"

definition is_recverr :: "unix_abi \<Rightarrow> cmsg \<Rightarrow> bool" where
  "is_recverr abi m \<longleftrightarrow> cm_level m = SOL_IPV6 abi \<and> cm_type m = IPV6_RECVERR abi
     \<or> cm_level m = SOL_IP abi \<and> cm_type m = IP_RECVERR abi"

text \<open>The hardware timestamp of three time specifications, or the software one when it is zero.\<close>

definition timespec :: "unix_abi \<Rightarrow> nat \<Rightarrow> bytes \<Rightarrow> time" where
  "timespec abi n d = unix_time (int64_at abi (take 8 (drop (16 * n) d))) (int64_at abi (take 8 (drop (16 * n + 8) d)))"

definition timespecs_time :: "unix_abi \<Rightarrow> bytes \<Rightarrow> time \<times> ts_error option" where
  "timespecs_time abi d =
     (if UnixNano (timespec abi 2 d) \<noteq> 0 then (timespec abi 2 d, None)
      else (timespec abi 0 d, if UnixNano (timespec abi 0 d) \<noteq> 0 then None else Some errZeroTimestamp))"

definition first_timestamp :: "unix_abi \<Rightarrow> cmsg list \<Rightarrow> time \<times> ts_error option" where
  "first_timestamp abi ms =
     (case List.find (is_timestamp abi) ms of
        None \<Rightarrow> (zero_time, Some errNoTimestamp)
      | Some m \<Rightarrow> timespecs_time abi (cm_data m))"

definition seq_of :: "unix_abi \<Rightarrow> bytes \<Rightarrow> u32" where
  "seq_of abi d = snd (SockExtendedErr_at abi (take (SizeofSockExtendedErr abi) d))"

definition decodable :: "unix_abi \<Rightarrow> cmsg \<Rightarrow> bool" where
  "decodable abi m \<longleftrightarrow> (is_timestamp_new abi m \<longrightarrow> snd (timespecs_time abi (cm_data m)) = None)
     \<and> (is_recverr abi m \<longrightarrow> fst (SockExtendedErr_at abi (take (SizeofSockExtendedErr abi) (cm_data m))) = ENOMSG abi)"

text \<open>The last timestamp, when the last sequence number is the wanted one.\<close>

definition seq_timestamp :: "unix_abi \<Rightarrow> u32 \<Rightarrow> cmsg list \<Rightarrow> time \<times> ts_error option" where
  "seq_timestamp abi seqID ms =
     (let tss = map (\<lambda>m. fst (timespecs_time abi (cm_data m))) (filter (is_timestamp_new abi) ms);
          ids = map (\<lambda>m. seq_of abi (cm_data m)) (filter (is_recverr abi) ms)
      in if list_all (decodable abi) ms
         then scm_seq_result (last (zero_time # tss)) (last (0 # ids)) seqID
         else (zero_time, Some errNoTimestamp))"

text \<open>Payloads are long enough: three time specifications, one extended error.\<close>

definition sized :: "unix_abi \<Rightarrow> cmsg \<Rightarrow> bool" where
  "sized abi m \<longleftrightarrow> (is_timestamp abi m \<longrightarrow> 48 \<le> length (cm_data m))
     \<and> (is_timestamp_new abi m \<longrightarrow> 48 \<le> length (cm_data m))
     \<and> (is_recverr abi m \<longrightarrow> SizeofSockExtendedErr abi \<le> length (cm_data m))"

subsection \<open>The scans implement the list functions\<close>

text \<open>What the scans rely on: the header size the program computes is that of the header.\<close>

locale cmsg_abi =
  fixes abi :: unix_abi
  assumes header_size: "Cmsghdr_size abi = SizeofCmsghdr abi"
    and header_pos: "0 < SizeofCmsghdr abi"
    and error_pos: "0 < SizeofSockExtendedErr abi"
begin

lemma header_eq:
  assumes "holds_msgs abi b e i (m # ms)"
  shows "read_header abi b i = Val (int (SizeofCmsghdr abi + length (cm_data m)), cm_level m, cm_type m)"
proof -
  have "0 \<le> i" "nat i + SizeofCmsghdr abi + length (cm_data m) \<le> length b" using assms by simp_all
  then have "i < int (length b)" using header_pos by linarith
  then show ?thesis using assms by (simp add: read_header_def load_def whole_def)
qed

lemma data_eq:
  assumes "holds_msgs abi b e i (m # ms)"
  obtains d where "reslice (i + int (Cmsghdr_size abi)) (i + int (SizeofCmsghdr abi + length (cm_data m))) (whole b)
      = Val d" and "sl_len d = length (cm_data m)" and "take (length (cm_data m)) (sl_arr d) = cm_data m"
    and "length (cm_data m) \<le> length (sl_arr d)"
proof -
  have i: "0 \<le> i" "nat i + SizeofCmsghdr abi + length (cm_data m) \<le> length b"
    "take (length (cm_data m)) (drop (nat i + SizeofCmsghdr abi) b) = cm_data m" using assms by simp_all
  then have "nat (i + int (SizeofCmsghdr abi)) = nat i + SizeofCmsghdr abi"
    "i + int (SizeofCmsghdr abi + length (cm_data m)) \<le> int (length b)" by (simp_all add: nat_add_distrib)
  then show ?thesis
    using i by (intro that [of "\<lparr>sl_arr = drop (nat i + SizeofCmsghdr abi) b, sl_len = length (cm_data m)\<rparr>"])
      (simp_all add: reslice_def whole_def header_size)
qed

end

lemma byteToTime_eq:
  assumes "16 \<le> sl_len d" and "16 \<le> length (sl_arr d)"
  shows "byteToTime abi d = Val (timespec abi 0 (sl_arr d))"
  using assms by (simp add: byteToTime_def load_def timespec_def)

lemma timespec_drop: "timespec abi 0 (drop (16 * n) d) = timespec abi n d"
  by (simp add: timespec_def add.commute)

lemma timespec_take: "16 * n + 16 \<le> k \<Longrightarrow> timespec abi n (take k d) = timespec abi n d"
  by (simp add: timespec_def drop_take min_def)

lemma scmDataToTime_eq:
  assumes "48 \<le> k" and "k \<le> length (sl_arr d)"
  shows "scmDataToTime abi d = Val (timespecs_time abi (take k (sl_arr d)))"
proof -
  have hw: "reslice 32 48 d = Val \<lparr>sl_arr = drop 32 (sl_arr d), sl_len = 16\<rparr>"
    and sw: "reslice 0 16 d = Val \<lparr>sl_arr = sl_arr d, sl_len = 16\<rparr>"
    using assms by (simp_all add: reslice_def)
  have "byteToTime abi \<lparr>sl_arr = drop 32 (sl_arr d), sl_len = 16\<rparr> = Val (timespec abi 2 (take k (sl_arr d)))"
    "byteToTime abi \<lparr>sl_arr = sl_arr d, sl_len = 16\<rparr> = Val (timespec abi 0 (take k (sl_arr d)))"
    using assms byteToTime_eq [of "\<lparr>sl_arr = drop 32 (sl_arr d), sl_len = 16\<rparr>" abi]
      byteToTime_eq [of "\<lparr>sl_arr = sl_arr d, sl_len = 16\<rparr>" abi] timespec_drop [of abi 2 "sl_arr d"]
    by (simp_all add: timespec_take)
  then show ?thesis by (simp add: scmDataToTime_def hw sw timespecs_time_def)
qed

context cmsg_abi
begin

lemma timestamp_loop_eq:
  assumes "holds_msgs abi b e i ms" and "\<forall>m \<in> set ms. sized abi m"
  shows "scm_timestamp_loop abi b e i = Some (Val (first_timestamp abi ms))"
  using assms
proof (induction ms arbitrary: i)
  case Nil
  then show ?case by (subst scm_timestamp_loop.simps) (simp add: first_timestamp_def)
next
  case (Cons m ms)
  have h: "read_header abi b i = Val (int (SizeofCmsghdr abi + length (cm_data m)), cm_level m, cm_type m)"
    using Cons.prems(1) by (rule header_eq)
  obtain d where d: "reslice (i + int (Cmsghdr_size abi)) (i + int (SizeofCmsghdr abi + length (cm_data m))) (whole b) = Val d"
    "take (length (cm_data m)) (sl_arr d) = cm_data m" "length (cm_data m) \<le> length (sl_arr d)"
    using data_eq [OF Cons.prems(1)] by metis
  have i: "i < e" "int (SizeofCmsghdr abi + length (cm_data m)) \<noteq> 0" using Cons.prems(1) header_pos by simp_all
  show ?case
  proof (cases "is_timestamp abi m")
    case True
    then have "48 \<le> length (cm_data m)" using Cons.prems(2) by (simp add: sized_def)
    then have "scmDataToTime abi d = Val (timespecs_time abi (cm_data m))" using scmDataToTime_eq d(2,3) by metis
    then show ?thesis
      using True h d(1) i by (subst scm_timestamp_loop.simps) (simp add: is_timestamp_def first_timestamp_def)
  next
    case False
    then have "scm_timestamp_loop abi b e i = scm_timestamp_loop abi b e (i + CmsgSpace abi (int (length (cm_data m))))"
      using h i by (subst scm_timestamp_loop.simps) (auto simp: is_timestamp_def)
    moreover have "first_timestamp abi (m # ms) = first_timestamp abi ms" using False by (simp add: first_timestamp_def)
    ultimately show ?thesis using Cons by simp
  qed
qed

lemma seq_body_eq:
  assumes "holds_msgs abi b e i (m # ms)" and "sized abi m"
  shows "scm_seq_body abi b i (int (SizeofCmsghdr abi + length (cm_data m))) (cm_level m) (cm_type m) tstamp cseq =
    Val (if decodable abi m
         then Some (if is_timestamp_new abi m then fst (timespecs_time abi (cm_data m)) else tstamp,
                    if is_recverr abi m then seq_of abi (cm_data m) else cseq)
         else None)"
proof -
  obtain d where d: "reslice (i + int (Cmsghdr_size abi)) (i + int (SizeofCmsghdr abi + length (cm_data m))) (whole b) = Val d"
    "sl_len d = length (cm_data m)" "take (length (cm_data m)) (sl_arr d) = cm_data m" "length (cm_data m) \<le> length (sl_arr d)"
    using data_eq [OF assms(1)] .
  have t: "scmDataToTime abi d = Val (timespecs_time abi (cm_data m))" if "is_timestamp_new abi m"
    using that assms(2) scmDataToTime_eq [of "length (cm_data m)" d abi] d(3,4) by (simp add: sized_def)
  have s: "load (SizeofSockExtendedErr abi) 0 d = Val (take (SizeofSockExtendedErr abi) (cm_data m))" if "is_recverr abi m"
  proof -
    have "SizeofSockExtendedErr abi \<le> length (cm_data m)" using that assms(2) by (simp add: sized_def)
    then show ?thesis
      using d(2-4) error_pos by (auto simp: load_def) (metis min.absorb1 take_take)
  qed
  have "scm_ts_part abi (Val d) (cm_level m) (cm_type m) tstamp =
      Val (if is_timestamp_new abi m \<and> snd (timespecs_time abi (cm_data m)) \<noteq> None then None
           else Some (if is_timestamp_new abi m then fst (timespecs_time abi (cm_data m)) else tstamp))"
    using t by (auto simp: scm_ts_part_def is_timestamp_new_def)
  moreover have "scm_seq_part abi (Val d) (cm_level m) (cm_type m) cseq =
      Val (if is_recverr abi m \<and> fst (SockExtendedErr_at abi (take (SizeofSockExtendedErr abi) (cm_data m))) \<noteq> ENOMSG abi then None
           else Some (if is_recverr abi m then seq_of abi (cm_data m) else cseq))"
    using s by (auto simp: scm_seq_part_def is_recverr_def scmDataToSeqID_def seq_of_def split_def)
  ultimately show ?thesis
    using d(1) by (auto simp: scm_seq_body_def decodable_def)
qed

lemma seq_loop_eq:
  assumes "holds_msgs abi b e i ms" and "\<forall>m \<in> set ms. sized abi m"
  shows "scm_seq_loop abi b e seqID i tstamp cseq = Some (Val
    (if list_all (decodable abi) ms
     then scm_seq_result (last (tstamp # map (\<lambda>m. fst (timespecs_time abi (cm_data m))) (filter (is_timestamp_new abi) ms)))
       (last (cseq # map (\<lambda>m. seq_of abi (cm_data m)) (filter (is_recverr abi) ms))) seqID
     else (zero_time, Some errNoTimestamp)))"
  using assms
proof (induction ms arbitrary: i tstamp cseq)
  case Nil
  then show ?case by (subst scm_seq_loop.simps) simp
next
  case (Cons m ms)
  have h: "read_header abi b i = Val (int (SizeofCmsghdr abi + length (cm_data m)), cm_level m, cm_type m)"
    using Cons.prems(1) by (rule header_eq)
  have i: "i < e" "int (SizeofCmsghdr abi + length (cm_data m)) \<noteq> 0" using Cons.prems(1) header_pos by simp_all
  have m: "sized abi m" using Cons.prems(2) by simp
  note body = seq_body_eq [OF Cons.prems(1) m, of tstamp cseq]
  show ?case
  proof (cases "decodable abi m")
    case True
    have "scm_seq_loop abi b e seqID i tstamp cseq = scm_seq_loop abi b e seqID (i + CmsgSpace abi (int (length (cm_data m))))
        (if is_timestamp_new abi m then fst (timespecs_time abi (cm_data m)) else tstamp)
        (if is_recverr abi m then seq_of abi (cm_data m) else cseq)"
      using h i body True by (subst scm_seq_loop.simps) simp
    then show ?thesis using Cons True by simp
  next
    case False
    then show ?thesis using h i body by (subst scm_seq_loop.simps) simp
  qed
qed

lemma scans_eq:
  assumes "holds_msgs abi b e 0 ms" and "\<forall>m \<in> set ms. sized abi m"
  shows "socketControlMessageTimestamp abi b e = Some (Val (first_timestamp abi ms))"
    and "socketControlMessageSeqIDTimestamp abi b e seqID = Some (Val (seq_timestamp abi seqID ms))"
  using timestamp_loop_eq [OF assms] seq_loop_eq [OF assms, of seqID zero_time 0]
  by (simp_all add: socketControlMessageTimestamp_def socketControlMessageSeqIDTimestamp_def seq_timestamp_def Let_def)

end

text \<open>Linux on a 64-bit little-endian machine.\<close>

definition le_val :: "bytes \<Rightarrow> 'a::len word" where
  "le_val b = be_val (rev b)"

definition linux_amd64 :: unix_abi where
  "linux_amd64 = \<lparr>SizeofCmsghdr = 16, Cmsghdr_size = 16, CmsgSpace = (\<lambda>n. 16 + (n + 7) div 8 * 8),
     CmsgLen = (\<lambda>n. 16 + n),
     Cmsghdr_at = (\<lambda>b. (sint (le_val (take 8 b) :: u64), sint (le_val (take 4 (drop 8 b)) :: u32),
       sint (le_val (take 4 (drop 12 b)) :: u32))),
     Cmsghdr_put = (\<lambda>(len, level, type). le_bytes 8 (word_of_int len :: u64) @ le_bytes 4 (word_of_int level :: u32)
       @ le_bytes 4 (word_of_int type :: u32)),
     SizeofSockExtendedErr = 16, SockExtendedErr_at = (\<lambda>b. (le_val (take 4 b), le_val (take 4 (drop 12 b)))),
     int64_at = (\<lambda>b. sint (le_val b :: u64)), uint32_put = le_bytes 4, SOL_SOCKET = 1, SO_TIMESTAMPING = 37, SO_TIMESTAMPING_NEW = 65,
     SOL_IP = 0, SOL_IPV6 = 41, IP_RECVERR = 11, IPV6_RECVERR = 25, SCM_TS_OPT_ID = 81, ENOMSG = 42\<rparr>"

interpretation amd64: cmsg_abi linux_amd64
  by unfold_locales (simp_all add: linux_amd64_def)

text \<open>C25: on a buffer that holds a list of control messages with payloads of sufficient size, both scans end without a panic or a read outside the buffer, and give what is specified on the list: the first one the time of the first message of a timestamp type (of any level for the older type), the second the time of the last timestamp, provided every message decodes and the last sequence number is the wanted one.\<close>

theorem control_message_scan:
  assumes "Cmsghdr_size abi = SizeofCmsghdr abi" and "0 < SizeofCmsghdr abi" and "0 < SizeofSockExtendedErr abi"
    and "holds_msgs abi b boob 0 ms" and "\<forall>m \<in> set ms. sized abi m"
  shows "socketControlMessageTimestamp abi b boob = Some (Val (first_timestamp abi ms))
    \<and> socketControlMessageSeqIDTimestamp abi b boob seqID = Some (Val (seq_timestamp abi seqID ms))"
  using cmsg_abi.scans_eq [OF cmsg_abi.intro [OF assms(1-3)] assms(4,5)] by simp

subsection \<open>The newest timestamp\<close>

lemma holds_msgs_append: "holds_msgs abi b e i ms \<Longrightarrow> holds_msgs abi (b @ r) e i ms"
  by (induction ms arbitrary: i) auto

text \<open>The next polls end at once: none is interrupted.\<close>

definition quick :: "nat \<Rightarrow> kernel \<Rightarrow> bool" where
  "quick n k \<longleftrightarrow> n \<le> length (k_polls k) \<and> (\<forall>p \<in> set (take n (k_polls k)). snd p \<noteq> Some EINTR)"

lemma quick_wait:
  assumes "quick (Suc n) k"
  obtains err k' where "waitForHWTS k = Some (err, k')" and "k' = k\<lparr>k_polls := tl (k_polls k)\<rparr>" and "quick n k'"
    and "err = snd (hd (k_polls k))"
proof -
  obtain m err ps where p: "k_polls k = (m, err) # ps" using assms by (cases "k_polls k") (auto simp: quick_def)
  then show ?thesis using assms by (intro that [of err "k\<lparr>k_polls := ps\<rparr>"]) (auto simp: quick_def waitForHWTS_def)
qed

lemma tx_errors:
  assumes "k_recvs k = map Inl es @ rs" and "toob \<noteq> []" and "quick (length es + n) k"
  shows "\<exists>k'. read_tx_loop (length es + left) att None oob toob k = read_tx_loop left (att + length es) None oob toob k'
    \<and> k_recvs k' = rs \<and> quick n k'"
  using assms
proof (induction es arbitrary: att k)
  case (Cons e es)
  obtain err k' where k': "waitForHWTS k = Some (err, k')" "k' = k\<lparr>k_polls := tl (k_polls k)\<rparr>" "quick (length es + n) k'"
    using quick_wait [of "length es + n" k] Cons.prems(3) by (metis add_Suc length_Cons)
  have r: "recvoob toob k' = Some (RecvErr e, toob, k'\<lparr>k_recvs := map Inl es @ rs\<rparr>)"
    using Cons.prems(1,2) k'(2) by (simp add: recvoob_def)
  have "quick (length es + n) (k'\<lparr>k_recvs := map Inl es @ rs\<rparr>)" using k'(3) by (simp add: quick_def)
  then show ?case
    using Cons.IH [of "k'\<lparr>k_recvs := map Inl es @ rs\<rparr>" "Suc att"] Cons.prems(2) k'(1) r by simp
qed auto

lemma recv_buffer:
  assumes "k_recvs k = Inr b # rs" and "toob \<noteq> []" and "length b \<le> length toob" and "length oob = length toob"
  shows "recvoob toob k = Some (RecvOk (length b), b @ drop (length b) toob, k\<lparr>k_recvs := rs\<rparr>)"
    and "copy_all oob (b @ drop (length b) toob) = b @ drop (length b) toob"
  using assms by (simp_all add: recvoob_def copy_all_def)

lemma tx_found:
  assumes "k_recvs k = map Inr bs @ Inl e # rest" and "toob \<noteq> []" and "\<forall>x \<in> set bs. length x \<le> length toob"
    and "length oob = length toob" and "oob = b @ r"
  shows "\<exists>oob' k' b'. read_tx_loop (length bs + Suc left) att (Some (length b)) oob toob k
      = Some (Val (att + length bs, Some (length b'), b' @ oob'), k')
    \<and> b' = last (b # bs) \<and> k_recvs k' = rest"
  using assms
proof (induction bs arbitrary: att b r oob toob k)
  case Nil
  then show ?case by (simp add: recvoob_def)
next
  case (Cons x xs)
  let ?t = "x @ drop (length x) toob" and ?k = "k\<lparr>k_recvs := map Inr xs @ Inl e # rest\<rparr>"
  have rb: "recvoob toob k = Some (RecvOk (length x), ?t, ?k)" "copy_all oob ?t = ?t"
    using Cons.prems by (simp_all add: recv_buffer)
  have "length ?t = length toob" "?t \<noteq> []" using Cons.prems(2,3) by auto
  then show ?case
    using Cons.IH [of ?k ?t ?t x "drop (length x) toob" "Suc att"] Cons.prems rb by simp
qed

text \<open>Reading a transmit timestamp empties the error queue: after any number of failed reads and then any number of messages up to the next failure, all within the allowed attempts, the time returned is that of the newest message, with the number of reads that preceded the last, whatever the reused buffers held before.\<close>

lemma read_tx_returns:
  assumes "Cmsghdr_size abi = SizeofCmsghdr abi" and "0 < SizeofCmsghdr abi" and "0 < SizeofSockExtendedErr abi"
    and "k_recvs k = map Inl es @ map Inr bs @ Inl e # rest" and "bs \<noteq> []"
    and "length es + length bs < AttemptsTXTS" and "quick (length es + 1) k"
    and "toob \<noteq> []" and "length oob = length toob" and "\<forall>x \<in> set bs. length x \<le> length toob"
    and "holds_msgs abi (last bs) (int (length (last bs))) 0 ms" and "\<forall>m \<in> set ms. sized abi m"
  shows "\<exists>k'. ReadTXtimestampBuf abi AttemptsTXTS oob toob k
      = Some (Val (fst (first_timestamp abi ms), length es + length bs, snd (first_timestamp abi ms)), k')
    \<and> k_recvs k' = rest"
proof -
  obtain b bs' where bs: "bs = b # bs'" using assms(5) by (cases bs) auto
  obtain left where left: "AttemptsTXTS = length es + Suc (length bs' + Suc left)"
    using assms(6) bs by (metis add.assoc add_Suc_right add_Suc_shift less_imp_Suc_add length_Cons plus_1_eq_Suc add.commute)
  obtain k1 where k1: "read_tx_loop AttemptsTXTS 0 None oob toob k
      = read_tx_loop (Suc (length bs' + Suc left)) (length es) None oob toob k1"
    "k_recvs k1 = map Inr bs @ Inl e # rest" "quick 1 k1"
    using tx_errors [OF assms(4,8,7), of "Suc (length bs' + Suc left)" 0 oob] left by auto
  obtain err k2 where k2: "waitForHWTS k1 = Some (err, k2)" "k2 = k1\<lparr>k_polls := tl (k_polls k1)\<rparr>"
    using quick_wait [of 0 k1] k1(3) by (metis One_nat_def)
  let ?t = "b @ drop (length b) toob" and ?k = "k2\<lparr>k_recvs := map Inr bs' @ Inl e # rest\<rparr>"
  have rb: "recvoob toob k2 = Some (RecvOk (length b), ?t, ?k)" "copy_all oob ?t = ?t"
    using assms(8-10) k1(2) k2(2) bs by (simp_all add: recv_buffer)
  have t: "length ?t = length toob" "?t \<noteq> []" using assms(8,10) bs by auto
  then obtain oob' k' where f: "read_tx_loop (length bs' + Suc left) (Suc (length es)) (Some (length b)) ?t ?t ?k
      = Some (Val (Suc (length es) + length bs', Some (length (last bs)), last bs @ oob'), k')" "k_recvs k' = rest"
    using tx_found [of ?k bs' e rest ?t ?t b "drop (length b) toob" left "Suc (length es)"] assms(10) bs by auto
  have "read_tx_loop AttemptsTXTS 0 None oob toob k
      = Some (Val (length es + length bs, Some (length (last bs)), last bs @ oob'), k')"
    using k1(1) k2(1) rb f(1) bs by simp
  moreover have "socketControlMessageTimestamp abi (last bs @ oob') (int (length (last bs))) = Some (Val (first_timestamp abi ms))"
    using cmsg_abi.scans_eq(1) [OF cmsg_abi.intro [OF assms(1-3)] holds_msgs_append [OF assms(11)] assms(12)] .
  ultimately show ?thesis using f(2) by (simp add: ReadTXtimestampBuf_def with_attempts_def split_def)
qed

text \<open>An answer of the kernel that does not hold the wanted timestamp.\<close>

definition useless :: "unix_abi \<Rightarrow> u32 \<Rightarrow> nat \<Rightarrow> errno + bytes \<Rightarrow> bool" where
  "useless abi seqID n r \<longleftrightarrow> (case r of
     Inl err \<Rightarrow> True
   | Inr b \<Rightarrow> length b \<le> n \<and> (\<exists>ms. holds_msgs abi b (int (length b)) 0 ms
       \<and> (\<forall>m \<in> set ms. sized abi m) \<and> snd (seq_timestamp abi seqID ms) \<noteq> None))"

text \<open>The next polls end at once and are answered.\<close>

definition ready :: "nat \<Rightarrow> kernel \<Rightarrow> bool" where
  "ready n k \<longleftrightarrow> quick n k \<and> (\<forall>p \<in> set (take n (k_polls k)). snd p \<noteq> Some EINVAL)"

lemma ready_wait:
  assumes "ready (Suc n) k"
  obtains err where "waitForHWTS k = Some (err, k\<lparr>k_polls := tl (k_polls k)\<rparr>)" and "err \<noteq> Some EINVAL"
    and "ready n (k\<lparr>k_polls := tl (k_polls k)\<rparr>)"
proof -
  obtain m err ps where p: "k_polls k = (m, err) # ps" using assms by (cases "k_polls k") (auto simp: ready_def quick_def)
  then show ?thesis using assms by (intro that [of err]) (auto simp: ready_def quick_def waitForHWTS_def)
qed

lemma ready_recvs [simp]: "ready n (k\<lparr>k_recvs := rs\<rparr>) = ready n k"
  by (simp add: ready_def quick_def)

lemma recv_seq:
  assumes "k_recvs k = Inr b # rs" and "toob \<noteq> []" and "length b \<le> length toob"
  shows "recvoob toob k = Some (RecvOk (length b), b @ drop (length b) toob, k\<lparr>k_recvs := rs\<rparr>)"
  using assms by (simp add: recvoob_def)

context cmsg_abi
begin

lemma scan_seq_prefix:
  assumes "holds_msgs abi b (int (length b)) 0 ms" and "\<forall>m \<in> set ms. sized abi m"
  shows "socketControlMessageSeqIDTimestamp abi (b @ r) (int (length b)) seqID = Some (Val (seq_timestamp abi seqID ms))"
  using scans_eq(2) [OF holds_msgs_append [OF assms(1)] assms(2)] .

lemma seq_skip:
  assumes "k_recvs k = r # rs" and "toob \<noteq> []" and "useless abi seqID (length toob) r" and "ready (Suc n) k"
  shows "\<exists>toob' k'. read_seq_loop abi N (Suc left) att toob seqID k = read_seq_loop abi N left (Suc att) toob' seqID k'
    \<and> length toob' = length toob \<and> k_recvs k' = rs \<and> ready n k'"
proof -
  let ?k = "k\<lparr>k_polls := tl (k_polls k)\<rparr>"
  obtain err where w: "waitForHWTS k = Some (err, ?k)" "err \<noteq> Some EINVAL" "ready n ?k"
    using ready_wait [OF assms(4)] .
  show ?thesis
  proof (cases r)
    case (Inl e)
    then have "recvoob toob ?k = Some (RecvErr e, toob, ?k\<lparr>k_recvs := rs\<rparr>)" using assms(1,2) by (simp add: recvoob_def)
    then show ?thesis using w by (intro exI [of _ toob] exI [of _ "?k\<lparr>k_recvs := rs\<rparr>"]) simp
  next
    case (Inr b)
    then obtain ms where ms: "length b \<le> length toob" "holds_msgs abi b (int (length b)) 0 ms" "\<forall>m \<in> set ms. sized abi m"
      "snd (seq_timestamp abi seqID ms) \<noteq> None"
      using assms(3) by (auto simp: useless_def)
    let ?t = "b @ drop (length b) toob"
    have "recvoob toob ?k = Some (RecvOk (length b), ?t, ?k\<lparr>k_recvs := rs\<rparr>)"
      using assms(1,2) Inr ms(1) by (intro recv_seq) simp_all
    then show ?thesis
      using w ms(1,4) scan_seq_prefix [OF ms(2,3), of "drop (length b) toob" seqID]
      by (intro exI [of _ ?t] exI [of _ "?k\<lparr>k_recvs := rs\<rparr>"]) (cases "seq_timestamp abi seqID ms", auto)
  qed
qed

lemma seq_skips:
  assumes "k_recvs k = pre @ rs" and "toob \<noteq> []" and "\<forall>r \<in> set pre. useless abi seqID (length toob) r"
    and "ready (length pre + n) k"
  shows "\<exists>toob' k'. read_seq_loop abi N (length pre + left) att toob seqID k
      = read_seq_loop abi N left (att + length pre) toob' seqID k'
    \<and> length toob' = length toob \<and> k_recvs k' = rs \<and> ready n k'"
  using assms
proof (induction pre arbitrary: att toob k)
  case (Cons r pre)
  obtain toob1 k1 where s: "read_seq_loop abi N (Suc (length pre + left)) att toob seqID k
      = read_seq_loop abi N (length pre + left) (Suc att) toob1 seqID k1"
    "length toob1 = length toob" "k_recvs k1 = pre @ rs" "ready (length pre + n) k1"
    using seq_skip [of k r "pre @ rs" toob seqID "length pre + n" N "length pre + left" att] Cons.prems by auto
  have "toob1 \<noteq> []" using s(2) Cons.prems(2) by auto
  then show ?case using Cons.IH [of k1 toob1 "Suc att"] Cons.prems(3) s by auto
qed auto

end

text \<open>With a sequence number, the read skips failures and messages that are not for that number and returns the time of the first message that is, with the number of reads skipped.\<close>

lemma read_seq_returns:
  assumes "Cmsghdr_size abi = SizeofCmsghdr abi" and "0 < SizeofCmsghdr abi" and "0 < SizeofSockExtendedErr abi"
    and "k_recvs k = pre @ Inr b # rest" and "\<forall>r \<in> set pre. useless abi seqID (length toob) r"
    and "length pre < AttemptsTXTS" and "ready (length pre + 1) k" and "toob \<noteq> []" and "length b \<le> length toob"
    and "holds_msgs abi b (int (length b)) 0 ms" and "\<forall>m \<in> set ms. sized abi m"
    and "snd (seq_timestamp abi seqID ms) = None"
  shows "\<exists>k'. ReadTimeStampSeqIDBuf abi AttemptsTXTS toob seqID k
      = Some (Val (fst (seq_timestamp abi seqID ms), length pre, None), k')
    \<and> k_recvs k' = rest"
proof -
  have c: "cmsg_abi abi" using cmsg_abi.intro [OF assms(1-3)] .
  obtain left where left: "AttemptsTXTS = length pre + Suc left"
    using assms(6) by (metis less_iff_Suc_add add_Suc_right)
  obtain toob1 k1 where s: "read_seq_loop abi AttemptsTXTS AttemptsTXTS 0 toob seqID k
      = read_seq_loop abi AttemptsTXTS (Suc left) (length pre) toob1 seqID k1"
    "length toob1 = length toob" "k_recvs k1 = Inr b # rest" "ready (Suc 0) k1"
    using cmsg_abi.seq_skips [OF c assms(4,8,5), of 1 AttemptsTXTS "Suc left" 0] assms(7) left by auto
  let ?k = "k1\<lparr>k_polls := tl (k_polls k1)\<rparr>"
  obtain err where w: "waitForHWTS k1 = Some (err, ?k)" "err \<noteq> Some EINVAL" using ready_wait [OF s(4)] .
  have t: "toob1 \<noteq> []" using s(2) assms(8) by auto
  have "recvoob toob1 ?k = Some (RecvOk (length b), b @ drop (length b) toob1, ?k\<lparr>k_recvs := rest\<rparr>)"
    using s(2,3) t assms(9) by (intro recv_seq) simp_all
  then show ?thesis
    using s(1) w cmsg_abi.scan_seq_prefix [OF c assms(10,11), of "drop (length b) toob1" seqID] assms(12)
    by (cases "seq_timestamp abi seqID ms") (simp add: ReadTimeStampSeqIDBuf_def)
qed

subsection \<open>The number of attempts\<close>

lemma read_tx_attempts:
  assumes "read_tx_loop left att found oob toob k = Some (Val (n, found', oob'), k')"
  shows "n \<le> att + left"
  using assms
proof (induction left arbitrary: att found oob toob k)
  case (Suc left)
  obtain k1 where k1: "(if found = None then map_option snd (waitForHWTS k) else Some k) = Some k1"
    using Suc.prems by (auto split: option.splits)
  obtain r t k2 where r: "recvoob toob k1 = Some (r, t, k2)" using Suc.prems k1 by (auto split: option.splits)
  show ?case
  proof (cases r)
    case (RecvErr e)
    then show ?thesis using Suc.prems k1 r Suc.IH [of "Suc att" found oob t k2] by (auto split: if_splits)
  next
    case (RecvOk m)
    then show ?thesis using Suc.prems k1 r Suc.IH [of "Suc att" "Some m" "copy_all oob t" t k2] by auto
  qed (use Suc.prems k1 r in auto)
qed simp

lemma read_seq_attempts:
  assumes "read_seq_loop abi N left att toob seqID k = Some (Val (t, n, err), k')"
  shows "n \<le> att + left"
  using assms
proof (induction left arbitrary: att toob k)
  case (Suc left)
  obtain e1 k1 where k1: "waitForHWTS k = Some (e1, k1)" using Suc.prems by (auto split: option.splits)
  show ?case
  proof (cases "e1 = Some EINVAL")
    case True
    then show ?thesis using Suc.prems k1 Suc.IH [of "Suc att" toob k1] by auto
  next
    case False
    obtain r u k2 where r: "recvoob toob k1 = Some (r, u, k2)" using Suc.prems k1 False by (auto split: option.splits)
    show ?thesis
    proof (cases r)
      case (RecvErr e)
      then show ?thesis using Suc.prems k1 r False Suc.IH [of "Suc att" u k2] by auto
    next
      case (RecvOk m)
      then show ?thesis
        using Suc.prems k1 r False Suc.IH [of "Suc att" u k2]
        by (auto split: option.splits access.splits if_splits)
    qed (use Suc.prems k1 r False in auto)
  qed
qed simp

lemma with_attempts_Val: "with_attempts m r = Val (t, n, err) \<Longrightarrow> n = m"
  by (cases r) (auto simp: with_attempts_def)

text \<open>Neither read reports more attempts than are allowed, whatever the kernel answers.\<close>

lemma tx_attempts_bounded:
  assumes "ReadTXtimestampBuf abi AttemptsTXTS oob toob k = Some (Val (t, n, err), k')
    \<or> ReadTimeStampSeqIDBuf abi AttemptsTXTS toob seqID k = Some (Val (t, n, err), k')"
  shows "n \<le> AttemptsTXTS"
  using assms
proof
  assume "ReadTXtimestampBuf abi AttemptsTXTS oob toob k = Some (Val (t, n, err), k')"
  then obtain att found oob' k1 where "read_tx_loop AttemptsTXTS 0 None oob toob k = Some (Val (att, found, oob'), k1)" "n = att"
    by (auto simp: ReadTXtimestampBuf_def dest!: with_attempts_Val split: option.splits prod.splits access.splits)
  then show ?thesis using read_tx_attempts by fastforce
qed (use read_seq_attempts in \<open>fastforce simp: ReadTimeStampSeqIDBuf_def\<close>)

subsection \<open>Termination of the scans\<close>

definition no_negative_length :: "unix_abi \<Rightarrow> bytes \<Rightarrow> bool" where
  "no_negative_length abi b \<longleftrightarrow>
     list_all (\<lambda>j. 0 \<le> fst (Cmsghdr_at abi (take (SizeofCmsghdr abi) (drop j b)))) [0..<length b]"

lemma read_header_nonneg:
  assumes "no_negative_length abi b" and "read_header abi b i = Val (mlen, level, type)"
  shows "0 \<le> mlen"
proof -
  have "0 \<le> i" "i < int (length b)" "Cmsghdr_at abi (take (SizeofCmsghdr abi) (drop (nat i) b)) = (mlen, level, type)"
    using assms(2) by (auto simp: read_header_def load_def whole_def split: if_splits)
  then show ?thesis using assms(1) by (auto simp: no_negative_length_def list_all_iff dest!: bspec [of _ _ "nat i"])
qed

lemma timestamp_loop_returns:
  assumes "\<forall>n > 0. 0 < CmsgSpace abi (n - int (SizeofCmsghdr abi))" and "no_negative_length abi b"
  shows "\<exists>r. scm_timestamp_loop abi b e i = Some r"
proof (induction "nat (e - i)" arbitrary: i rule: less_induct)
  case less
  show ?case
  proof (cases "read_header abi b i")
    case (Val h)
    obtain mlen level type where h: "h = (mlen, level, type)" by (cases h)
    have "nat (e - (i + CmsgSpace abi (mlen - int (SizeofCmsghdr abi)))) < nat (e - i)" if "i < e" "mlen \<noteq> 0"
    proof -
      have "0 < CmsgSpace abi (mlen - int (SizeofCmsghdr abi))"
        using assms(1) [rule_format, of mlen] read_header_nonneg [OF assms(2), of i] Val h that(2) by fastforce
      then show ?thesis using that(1) by simp
    qed
    then show ?thesis using less Val h by (subst scm_timestamp_loop.simps) auto
  qed (subst scm_timestamp_loop.simps, simp)+
qed

lemma seq_loop_returns:
  assumes "\<forall>n > 0. 0 < CmsgSpace abi (n - int (SizeofCmsghdr abi))" and "no_negative_length abi b"
  shows "\<exists>r. scm_seq_loop abi b e seqID i ts cs = Some r"
proof (induction "nat (e - i)" arbitrary: i ts cs rule: less_induct)
  case less
  show ?case
  proof (cases "read_header abi b i")
    case (Val h)
    obtain mlen level type where h: "h = (mlen, level, type)" by (cases h)
    have "nat (e - (i + CmsgSpace abi (mlen - int (SizeofCmsghdr abi)))) < nat (e - i)" if "i < e" "mlen \<noteq> 0"
    proof -
      have "0 < CmsgSpace abi (mlen - int (SizeofCmsghdr abi))"
        using assms(1) [rule_format, of mlen] read_header_nonneg [OF assms(2), of i] Val h that(2) by fastforce
      then show ?thesis using that(1) by simp
    qed
    then show ?thesis
      using less Val h by (subst scm_seq_loop.simps) (auto split: access.split option.split)
  qed (subst scm_seq_loop.simps, simp)+
qed


subsection \<open>Sample control messages\<close>

definition sample_ts :: cmsg where
  "sample_ts = \<lparr>cm_level = 1, cm_type = 65,
     cm_data = replicate 32 0 @ [5, 0, 0, 0, 0, 0, 0, 0] @ [7, 0, 0, 0, 0, 0, 0, 0]\<rparr>"

definition sample_err :: cmsg where
  "sample_err = \<lparr>cm_level = 0, cm_type = 11, cm_data = [42, 0, 0, 0] @ replicate 8 0 @ [77, 0, 0, 0]\<rparr>"

definition sample_control :: bytes where
  "sample_control = [64, 0, 0, 0, 0, 0, 0, 0, 1, 0, 0, 0, 65, 0, 0, 0] @ cm_data sample_ts
     @ [32, 0, 0, 0, 0, 0, 0, 0, 0, 0, 0, 0, 11, 0, 0, 0] @ cm_data sample_err"

lemma sample_holds: "holds_msgs linux_amd64 sample_control (int (length sample_control)) 0 [sample_ts, sample_err]"
  by code_simp

lemma sample_sized: "\<forall>m \<in> set [sample_ts, sample_err]. sized linux_amd64 m"
  by code_simp

lemma sample_length: "length sample_control = 96"
  by code_simp

theorem control_message_scan_witness:
  "socketControlMessageTimestamp linux_amd64 sample_control 96 = Some (Val (5000000007, None))"
proof -
  have "first_timestamp linux_amd64 [sample_ts, sample_err] = (5000000007, None)" by code_simp
  then show ?thesis
    using control_message_scan [OF amd64.header_size amd64.header_pos amd64.error_pos sample_holds sample_sized]
    by (simp add: sample_length)
qed

definition sample_kernel :: kernel where
  "sample_kernel = \<lparr>k_polls = [(1, None), (1, None)], k_recvs = [Inl (Errno ''EAGAIN''), Inr sample_control, Inl (Errno ''EAGAIN'')]\<rparr>"

lemma read_tx_returns_example:
  "\<exists>k'. ReadTXtimestampBuf linux_amd64 100 (replicate 128 0) (replicate 128 0) sample_kernel
     = Some (Val (5000000007, 2, None), k') \<and> k_recvs k' = []"
proof -
  have r: "k_recvs sample_kernel = map Inl [Errno ''EAGAIN''] @ map Inr [sample_control] @ Inl (Errno ''EAGAIN'') # []"
    by (simp add: sample_kernel_def)
  have q: "quick (length [Errno ''EAGAIN''] + 1) sample_kernel" by (simp add: quick_def sample_kernel_def)
  have h: "holds_msgs linux_amd64 (last [sample_control]) (int (length (last [sample_control]))) 0 [sample_ts, sample_err]"
    using sample_holds by simp
  have f: "first_timestamp linux_amd64 [sample_ts, sample_err] = (5000000007, None)" by code_simp
  show ?thesis
    using read_tx_returns [OF amd64.header_size amd64.header_pos amd64.error_pos r _ _ q _ _ _ h sample_sized,
      of 100 "replicate 128 0" "replicate 128 0"] f by (simp add: sample_length numeral_2_eq_2)
qed

lemma read_seq_returns_example:
  "\<exists>k'. ReadTimeStampSeqIDBuf linux_amd64 100 (replicate 128 0) 77 sample_kernel = Some (Val (5000000007, 1, None), k')"
proof -
  have r: "k_recvs sample_kernel = [Inl (Errno ''EAGAIN'')] @ Inr sample_control # [Inl (Errno ''EAGAIN'')]"
    by (simp add: sample_kernel_def)
  have u: "\<forall>r \<in> set [Inl (Errno ''EAGAIN'')]. useless linux_amd64 77 (length (replicate 128 0 :: bytes)) r"
    by (simp add: useless_def)
  have q: "ready (length [Inl (Errno ''EAGAIN'')] + 1) sample_kernel" by (simp add: ready_def quick_def sample_kernel_def)
  have f: "seq_timestamp linux_amd64 77 [sample_ts, sample_err] = (5000000007, None)" by code_simp
  show ?thesis
    using read_seq_returns [OF amd64.header_size amd64.header_pos amd64.error_pos r u _ _ _ _ sample_holds sample_sized,
      of 100] q f by (auto simp add: sample_length)
qed

lemma tx_attempts_bounded_witness:
  "\<exists>n. ReadTimeStampSeqIDBuf linux_amd64 2 (replicate 128 0) 9
     \<lparr>k_polls = [(1, None), (1, None)], k_recvs = [Inl EINTR, Inl EINTR]\<rparr>
     = Some (Val (zero_time, n, Some (errNoTXTimestamp 2)), \<lparr>k_polls = [], k_recvs = []\<rparr>) \<and> n \<le> 2"
proof -
  have e: "ReadTimeStampSeqIDBuf linux_amd64 2 (replicate 128 0) 9
     \<lparr>k_polls = [(1, None), (1, None)], k_recvs = [Inl EINTR, Inl EINTR]\<rparr>
     = Some (Val (zero_time, 2, Some (errNoTXTimestamp 2)), \<lparr>k_polls = [], k_recvs = []\<rparr>)" by code_simp
  show ?thesis using tx_attempts_bounded [OF disjI2 [OF e]] e by blast
qed


subsection \<open>The control message with a sequence number\<close>

text \<open>The control message written for a packet to send fills its buffer without a panic and is, as the kernel reads it, one message of the level and type for packet identifiers whose payload is the sequence number.\<close>

lemma sequence_control_message:
  assumes "Cmsghdr_at abi (Cmsghdr_put abi (CmsgLen abi SizeofSeqID, SOL_SOCKET abi, SCM_TS_OPT_ID abi))
      = (CmsgLen abi SizeofSeqID, SOL_SOCKET abi, SCM_TS_OPT_ID abi)"
    and "\<And>h. length (Cmsghdr_put abi h) = SizeofCmsghdr abi" and "\<And>n. length (uint32_put abi n) = 4"
    and "\<And>n. 0 \<le> n \<Longrightarrow> CmsgLen abi n = int (SizeofCmsghdr abi) + n" and "0 < SizeofCmsghdr abi"
    and "CmsgSpace abi SizeofSeqID = int (length soob)" and "SizeofCmsghdr abi + 4 \<le> length soob"
  shows "\<exists>b. SeqIDSocketControlMessage abi seqID soob = Val b \<and> length b = length soob
    \<and> holds_msgs abi b (int (length b)) 0
        [\<lparr>cm_level = SOL_SOCKET abi, cm_type = SCM_TS_OPT_ID abi, cm_data = uint32_put abi seqID\<rparr>]"
proof -
  let ?z = "SizeofCmsghdr abi" and ?h = "Cmsghdr_put abi (CmsgLen abi SizeofSeqID, SOL_SOCKET abi, SCM_TS_OPT_ID abi)"
  let ?b = "?h @ uint32_put abi seqID @ drop (?z + 4) soob"
  have l: "CmsgLen abi 0 = int ?z" "CmsgLen abi SizeofSeqID = int ?z + 4" using assms(4) by simp_all
  have n: "soob \<noteq> []" using assms(7) by auto
  then have "SeqIDSocketControlMessage abi seqID soob = Val ?b"
    using assms(2,3,5,7) l
    by (simp add: SeqIDSocketControlMessage_def load_def whole_def reslice_def Let_def add.commute)
  moreover have "length ?b = length soob" using assms(2,3,7) by simp
  moreover have "holds_msgs abi ?b (int (length ?b)) 0
      [\<lparr>cm_level = SOL_SOCKET abi, cm_type = SCM_TS_OPT_ID abi, cm_data = uint32_put abi seqID\<rparr>]"
    using assms l n by simp
  ultimately show ?thesis by blast
qed

lemma sequence_control_message_witness:
  "\<exists>b. SeqIDSocketControlMessage linux_amd64 77 (replicate 24 0) = Val b
    \<and> holds_msgs linux_amd64 b 24 0 [\<lparr>cm_level = 1, cm_type = 81, cm_data = [77, 0, 0, 0]\<rparr>]"
proof -
  have c: "Cmsghdr_at linux_amd64 (Cmsghdr_put linux_amd64 (CmsgLen linux_amd64 SizeofSeqID, SOL_SOCKET linux_amd64, SCM_TS_OPT_ID linux_amd64))
      = (CmsgLen linux_amd64 SizeofSeqID, SOL_SOCKET linux_amd64, SCM_TS_OPT_ID linux_amd64)" by code_simp
  have "length (Cmsghdr_put linux_amd64 h) = SizeofCmsghdr linux_amd64" for h
    by (cases h) (simp add: linux_amd64_def)
  moreover have "length (uint32_put linux_amd64 n) = 4" "0 \<le> m \<Longrightarrow> CmsgLen linux_amd64 m = int (SizeofCmsghdr linux_amd64) + m" for n m
    by (simp_all add: linux_amd64_def)
  moreover have "CmsgSpace linux_amd64 SizeofSeqID = int (length (replicate 24 0 :: bytes))"
    "SizeofCmsghdr linux_amd64 + 4 \<le> length (replicate 24 0 :: bytes)" by (simp_all add: linux_amd64_def)
  moreover have "SOL_SOCKET linux_amd64 = 1" "SCM_TS_OPT_ID linux_amd64 = 81" "uint32_put linux_amd64 77 = [77, 0, 0, 0]" by code_simp+
  ultimately show ?thesis
    using sequence_control_message [OF c, of "replicate 24 0" 77] amd64.header_pos by auto
qed

end
