(* ===== verification/Ptp_Sockets.thy ===== *)
theory Ptp_Sockets
  imports Ptp_Subscription Ptp_Kernel "HOL-Library.State_Monad"
begin

section \<open>Setting up sockets (\<^verbatim>\<open>src/timestamp/timestamp_linux.go\<close>, \<^verbatim>\<open>src/dscp\<close>, \<^verbatim>\<open>src/server\<close>)\<close>

text \<open>
  Enabling timestamps and the traffic class, the sockets of a send worker and those of the two
  listeners, as sequences of system calls. The calls made so far are the state of a state monad.
\<close>

subsection \<open>System calls\<close>

datatype domain = AF_INET | AF_INET6

datatype sock_option =
    SO_REUSEPORT
  | SO_TIMESTAMPING_option int
  | SO_SELECT_ERR_QUEUE
  | IPV6_TCLASS
  | IP_TOS

datatype syscall =
    ListenUDP bytes int
  | ConnFd
  | SetNonblock int bool
  | Socket domain
  | Bind int Sockaddr
  | Getsockname int
  | SetsockoptInt int sock_option int
  | IoctlGetEthtoolTsInfo int string
  | IoctlGetHwTstamp int string
  | IoctlSetHwTstamp int string int int int

text \<open>
  The constants of \<^verbatim>\<open>unix\<close> the calls use: bit numbers of the hardware capabilities and flags of
  the timestamping option.
\<close>

record ts_abi =
  HWTSTAMP_TX_ON :: nat
  HWTSTAMP_FILTER_ALL :: nat
  HWTSTAMP_FILTER_PTP_V2_L4_EVENT :: nat
  HWTSTAMP_FILTER_PTP_V2_EVENT :: nat
  SOF_TIMESTAMPING_TX_HARDWARE :: int
  SOF_TIMESTAMPING_TX_SOFTWARE :: int
  SOF_TIMESTAMPING_RX_HARDWARE :: int
  SOF_TIMESTAMPING_RX_SOFTWARE :: int
  SOF_TIMESTAMPING_SOFTWARE :: int
  SOF_TIMESTAMPING_RAW_HARDWARE :: int
  SOF_TIMESTAMPING_OPT_ID :: int
  SOF_TIMESTAMPING_OPT_TSONLY :: int
  opt_SO_TIMESTAMPING :: int
  opt_SO_TIMESTAMPING_NEW :: int

text \<open>
  What the kernel answers. Whether a call fails, and the descriptor a call returns, may depend on
  the calls before it; an interface has capabilities (transmit types, receive filters) and a
  configuration (flags, transmit type, receive filter).
\<close>

record net_kernel =
  call_error :: "syscall list \<Rightarrow> syscall \<Rightarrow> errno option"
  new_fd :: "syscall list \<Rightarrow> int"
  ethtool_info :: "string \<Rightarrow> u32 \<times> u32"
  hwtstamp :: "string \<Rightarrow> int \<times> int \<times> int"

text \<open>The calls made so far are the state; a failed call is recorded too.\<close>

definition sys :: "net_kernel \<Rightarrow> syscall \<Rightarrow> (syscall list, errno option) state" where
  "sys k c = do {
     trace \<leftarrow> State_Monad.get;
     State_Monad.set (trace @ [c]);
     State_Monad.return (call_error k trace c)
   }"

definition fd_of :: "net_kernel \<Rightarrow> (syscall list, int) state" where
  "fd_of k = do { trace \<leftarrow> State_Monad.get; State_Monad.return (new_fd k trace) }"

datatype net_error =
    ErrCall errno
  | ErrHWNotSupported string
  | ErrUnrecognizedKind TimestampKind

text \<open>\<open>attempt k c next\<close> is the call with \<^verbatim>\<open>if err != nil { return ... }\<close> after it.\<close>

definition attempt ::
  "net_kernel \<Rightarrow> syscall \<Rightarrow> (syscall list, net_error + 'a) state \<Rightarrow> (syscall list, net_error + 'a) state" where
  "attempt k c next = do {
     err \<leftarrow> sys k c;
     case err of Some e \<Rightarrow> State_Monad.return (Inl (ErrCall e)) | None \<Rightarrow> next
   }"

definition after ::
  "(syscall list, net_error + 'a) state \<Rightarrow> ('a \<Rightarrow> (syscall list, net_error + 'b) state)
     \<Rightarrow> (syscall list, net_error + 'b) state" where
  "after m f = do {
     r \<leftarrow> m;
     case r of Inl e \<Rightarrow> State_Monad.return (Inl e) | Inr x \<Rightarrow> f x
   }"

abbreviation done_ok :: "'a \<Rightarrow> (syscall list, net_error + 'a) state" where
  "done_ok x \<equiv> State_Monad.return (Inr x)"

subsection \<open>Enabling timestamps\<close>

text \<open>The package initializer: the first character of the kernel's release, when it is known.\<close>

definition timestamping_init :: "ts_abi \<Rightarrow> char option \<Rightarrow> int" where
  "timestamping_init abi release0 =
     (case release0 of
        Some c \<Rightarrow> if (of_char c :: nat) < of_char CHR ''5'' then opt_SO_TIMESTAMPING abi else opt_SO_TIMESTAMPING_NEW abi
      | None \<Rightarrow> opt_SO_TIMESTAMPING_NEW abi)"

definition has_bit :: "u32 \<Rightarrow> nat \<Rightarrow> bool" where
  "has_bit v n \<longleftrightarrow> v AND push_bit n 1 > 0"

definition rx_filter_of :: "ts_abi \<Rightarrow> u32 \<Rightarrow> int" where
  "rx_filter_of abi rx_filters =
     (if has_bit rx_filters (HWTSTAMP_FILTER_PTP_V2_L4_EVENT abi) then int (HWTSTAMP_FILTER_PTP_V2_L4_EVENT abi)
      else if has_bit rx_filters (HWTSTAMP_FILTER_PTP_V2_EVENT abi) then int (HWTSTAMP_FILTER_PTP_V2_EVENT abi)
      else if has_bit rx_filters (HWTSTAMP_FILTER_ALL abi) then int (HWTSTAMP_FILTER_ALL abi)
      else 0)"

definition ioctlHWTimestampCaps ::
  "net_kernel \<Rightarrow> ts_abi \<Rightarrow> int \<Rightarrow> string \<Rightarrow> (syscall list, net_error + int \<times> int) state" where
  "ioctlHWTimestampCaps k abi fd ifname =
     attempt k (IoctlGetEthtoolTsInfo fd ifname) (
       let (tx_types, rx_filters) = ethtool_info k ifname;
           txFilter = (if has_bit tx_types (HWTSTAMP_TX_ON abi) then int (HWTSTAMP_TX_ON abi) else 0);
           rxFilter = rx_filter_of abi rx_filters
       in State_Monad.return (if txFilter = 0 \<or> rxFilter = 0 then Inl (ErrHWNotSupported ifname)
                              else Inr (rxFilter, txFilter)))"

definition ioctlTimestamp ::
  "net_kernel \<Rightarrow> ts_abi \<Rightarrow> int \<Rightarrow> string \<Rightarrow> int \<Rightarrow> (syscall list, net_error + unit) state" where
  "ioctlTimestamp k abi fd ifname want = do {
     err \<leftarrow> sys k (IoctlGetHwTstamp fd ifname);
     if err \<noteq> None \<and> err \<noteq> Some ENOTSUP then State_Monad.return (Inl (ErrCall (the err)))
     else let (flags, tx_type, rx_filter) = (if err = None then hwtstamp k ifname else (0, 0, 0))
       in if tx_type = int (HWTSTAMP_TX_ON abi) \<and> rx_filter = want then done_ok ()
          else attempt k (IoctlSetHwTstamp fd ifname flags (int (HWTSTAMP_TX_ON abi)) want) (done_ok ())
   }"

definition EnableSWTimestampsRx :: "net_kernel \<Rightarrow> ts_abi \<Rightarrow> int \<Rightarrow> int \<Rightarrow> (syscall list, net_error + unit) state" where
  "EnableSWTimestampsRx k abi timestamping connFd =
     (let flags = SOF_TIMESTAMPING_RX_SOFTWARE abi OR SOF_TIMESTAMPING_SOFTWARE abi
      in attempt k (SetsockoptInt connFd (SO_TIMESTAMPING_option timestamping) flags) (done_ok ()))"

definition EnableSWTimestamps :: "net_kernel \<Rightarrow> ts_abi \<Rightarrow> int \<Rightarrow> int \<Rightarrow> (syscall list, net_error + unit) state" where
  "EnableSWTimestamps k abi timestamping connFd =
     (let flags = SOF_TIMESTAMPING_TX_SOFTWARE abi OR SOF_TIMESTAMPING_RX_SOFTWARE abi OR
                  SOF_TIMESTAMPING_SOFTWARE abi OR SOF_TIMESTAMPING_OPT_TSONLY abi
      in attempt k (SetsockoptInt connFd (SO_TIMESTAMPING_option timestamping) flags)
        (attempt k (SetsockoptInt connFd SO_SELECT_ERR_QUEUE 1) (done_ok ())))"

definition EnableHWTimestamps ::
  "net_kernel \<Rightarrow> ts_abi \<Rightarrow> int \<Rightarrow> int \<Rightarrow> string \<Rightarrow> (syscall list, net_error + unit) state" where
  "EnableHWTimestamps k abi timestamping connFd iface =
     after (ioctlHWTimestampCaps k abi connFd iface) (\<lambda>(rxFilter, _).
     after (ioctlTimestamp k abi connFd iface rxFilter) (\<lambda>_.
     let flags = SOF_TIMESTAMPING_TX_HARDWARE abi OR SOF_TIMESTAMPING_RX_HARDWARE abi OR
                 SOF_TIMESTAMPING_RAW_HARDWARE abi OR SOF_TIMESTAMPING_OPT_ID abi OR SOF_TIMESTAMPING_OPT_TSONLY abi
     in attempt k (SetsockoptInt connFd (SO_TIMESTAMPING_option timestamping) flags)
        (attempt k (SetsockoptInt connFd SO_SELECT_ERR_QUEUE 1) (done_ok ()))))"

definition EnableHWTimestampsRx ::
  "net_kernel \<Rightarrow> ts_abi \<Rightarrow> int \<Rightarrow> int \<Rightarrow> string \<Rightarrow> (syscall list, net_error + unit) state" where
  "EnableHWTimestampsRx k abi timestamping connFd iface =
     after (ioctlHWTimestampCaps k abi connFd iface) (\<lambda>(rxFilter, _).
     after (ioctlTimestamp k abi connFd iface rxFilter) (\<lambda>_.
     let flags = SOF_TIMESTAMPING_RX_HARDWARE abi OR SOF_TIMESTAMPING_RAW_HARDWARE abi
     in attempt k (SetsockoptInt connFd (SO_TIMESTAMPING_option timestamping) flags)
        (attempt k (SetsockoptInt connFd SO_SELECT_ERR_QUEUE 1) (done_ok ()))))"

definition EnableTimestamps ::
  "net_kernel \<Rightarrow> ts_abi \<Rightarrow> int \<Rightarrow> TimestampKind \<Rightarrow> int \<Rightarrow> string \<Rightarrow> (syscall list, net_error + unit) state" where
  "EnableTimestamps k abi timestamping ts connFd iface =
     (if ts = HW then EnableHWTimestamps k abi timestamping connFd iface
      else if ts = HWRX then EnableHWTimestampsRx k abi timestamping connFd iface
      else if ts = SW then EnableSWTimestamps k abi timestamping connFd
      else if ts = SWRX then EnableSWTimestampsRx k abi timestamping connFd
      else State_Monad.return (Inl (ErrUnrecognizedKind ts)))"

subsection \<open>The sockets of a worker and of the listeners\<close>

definition dscp_Enable :: "net_kernel \<Rightarrow> int \<Rightarrow> bytes \<Rightarrow> int \<Rightarrow> (syscall list, net_error + unit) state" where
  "dscp_Enable k fd localAddr dscp =
     (if To4 localAddr = [] then attempt k (SetsockoptInt fd IPV6_TCLASS (push_bit 2 dscp)) (done_ok ())
      else attempt k (SetsockoptInt fd IP_TOS (push_bit 2 dscp)) (done_ok ()))"

text \<open>\<^verbatim>\<open>listen\<close>: an error comes with the descriptors -1 and -1, here left out.\<close>

definition listen ::
  "net_kernel \<Rightarrow> ts_abi \<Rightarrow> int \<Rightarrow> StaticConfig \<Rightarrow> (syscall list, net_error + int \<times> int) state" where
  "listen k abi timestamping c =
     (let dom = (if To4 (cfg_IP c) \<noteq> [] then AF_INET else AF_INET6);
          sockAddrAnyPort = IPToSockaddr (cfg_IP c) 0
      in attempt k (Socket dom) (do {
           eventFD \<leftarrow> fd_of k;
           attempt k (SetsockoptInt eventFD SO_REUSEPORT 1) (
           attempt k (Bind eventFD sockAddrAnyPort) (
           attempt k (Getsockname eventFD) (
           after (dscp_Enable k eventFD (cfg_IP c) (DSCP c)) (\<lambda>_.
           after (EnableTimestamps k abi timestamping (TimestampType c) eventFD (Interface c)) (\<lambda>_.
           attempt k (Socket dom) (do {
             generalFD \<leftarrow> fd_of k;
             attempt k (SetsockoptInt generalFD SO_REUSEPORT 1) (
             attempt k (Bind generalFD sockAddrAnyPort) (
             after (dscp_Enable k generalFD (cfg_IP c) (DSCP c)) (\<lambda>_.
             done_ok (eventFD, generalFD)))) }))))))
         }))"

text \<open>
  The listeners: an error exits the program; otherwise the descriptor and the number of handlers
  that are started on it.
\<close>

definition startEventListener ::
  "net_kernel \<Rightarrow> ts_abi \<Rightarrow> int \<Rightarrow> StaticConfig \<Rightarrow> (syscall list, net_error + int \<times> nat) state" where
  "startEventListener k abi timestamping c =
     attempt k (ListenUDP (cfg_IP c) PortEvent) (
     attempt k ConnFd (do {
       eFd \<leftarrow> fd_of k;
       after (EnableTimestamps k abi timestamping (TimestampType c) eFd (Interface c)) (\<lambda>_.
       attempt k (SetNonblock eFd False) (done_ok (eFd, nat (RecvWorkers c)))) }))"

definition startGeneralListener :: "net_kernel \<Rightarrow> StaticConfig \<Rightarrow> (syscall list, net_error + int \<times> nat) state" where
  "startGeneralListener k c =
     attempt k (ListenUDP (cfg_IP c) PortGeneral) (
     attempt k ConnFd (do {
       gFd \<leftarrow> fd_of k;
       attempt k (SetNonblock gFd False) (done_ok (gFd, nat (RecvWorkers c))) }))"

subsection \<open>Running the calls\<close>

lemma run_sys [simp]: "run_state (sys k c) tr = (call_error k tr c, tr @ [c])"
  by (simp add: sys_def)

lemma run_fd_of [simp]: "run_state (fd_of k) tr = (new_fd k tr, tr)"
  by (simp add: fd_of_def)

lemma run_attempt [simp]:
  "run_state (attempt k c next) tr =
     (case call_error k tr c of Some e \<Rightarrow> (Inl (ErrCall e), tr @ [c]) | None \<Rightarrow> run_state next (tr @ [c]))"
  by (simp add: attempt_def split: option.split)

lemma run_after [simp]:
  "run_state (after m f) tr =
     (case run_state m tr of (Inl e, tr') \<Rightarrow> (Inl e, tr') | (Inr x, tr') \<Rightarrow> run_state (f x) tr')"
  by (simp add: after_def split: prod.split sum.split)

text \<open>The error that is reported is that of the last call made.\<close>

definition stops_at_failure :: "net_kernel \<Rightarrow> (syscall list, net_error + 'a) state \<Rightarrow> bool" where
  "stops_at_failure k m \<longleftrightarrow> (\<forall>tr e tr'. run_state m tr = (Inl (ErrCall e), tr')
     \<longrightarrow> (\<exists>t c. tr' = t @ [c] \<and> call_error k t c = Some e))"

lemma stops_done [intro!, simp]: "stops_at_failure k (done_ok x)"
  by (simp add: stops_at_failure_def)

lemma stops_attempt [intro!]: "stops_at_failure k next \<Longrightarrow> stops_at_failure k (attempt k c next)"
  unfolding stops_at_failure_def
proof (intro allI impI)
  fix tr e tr'
  assume nx: "\<forall>tr e tr'. run_state next tr = (Inl (ErrCall e), tr') \<longrightarrow> (\<exists>t c. tr' = t @ [c] \<and> call_error k t c = Some e)"
    and r: "run_state (attempt k c next) tr = (Inl (ErrCall e), tr')"
  show "\<exists>t c. tr' = t @ [c] \<and> call_error k t c = Some e"
  proof (cases "call_error k tr c")
    case None
    then show ?thesis using r nx by simp
  next
    case (Some x)
    then show ?thesis using r by (intro exI [of _ tr] exI [of _ c]) simp
  qed
qed

lemma stops_after [intro!]:
  assumes "stops_at_failure k m" and "\<And>x. stops_at_failure k (f x)"
  shows "stops_at_failure k (after m f)"
  unfolding stops_at_failure_def
proof (intro allI impI)
  fix tr e tr'
  assume r: "run_state (after m f) tr = (Inl (ErrCall e), tr')"
  obtain y u where m: "run_state m tr = (y, u)" by (cases "run_state m tr")
  then show "\<exists>t c. tr' = t @ [c] \<and> call_error k t c = Some e"
    using r assms by (cases y) (auto simp: stops_at_failure_def)
qed

lemma stops_fd [intro!]: "(\<And>fd. stops_at_failure k (f fd)) \<Longrightarrow> stops_at_failure k (do { fd \<leftarrow> fd_of k; f fd })"
  by (auto simp: stops_at_failure_def)

lemma stops_ioctl: "stops_at_failure k (ioctlHWTimestampCaps k abi fd ifname)" "stops_at_failure k (ioctlTimestamp k abi fd ifname f)"
proof -
  show "stops_at_failure k (ioctlHWTimestampCaps k abi fd ifname)"
    by (auto simp: ioctlHWTimestampCaps_def Let_def stops_at_failure_def split: prod.splits option.splits if_splits)
  show "stops_at_failure k (ioctlTimestamp k abi fd ifname f)"
    unfolding stops_at_failure_def
  proof (intro allI impI)
    fix tr e tr'
    assume r: "run_state (ioctlTimestamp k abi fd ifname f) tr = (Inl (ErrCall e), tr')"
    let ?g = "IoctlGetHwTstamp fd ifname"
    show "\<exists>t c. tr' = t @ [c] \<and> call_error k t c = Some e"
    proof (cases "call_error k tr ?g \<noteq> None \<and> call_error k tr ?g \<noteq> Some ENOTSUP")
      case True
      then show ?thesis using r by (auto simp: ioctlTimestamp_def)
    next
      case False
      then show ?thesis
        using r by (auto simp: ioctlTimestamp_def Let_def split: prod.splits if_splits option.splits)
    qed
  qed
qed

lemma stops_enable: "stops_at_failure k (EnableTimestamps k abi ts kind fd iface)"
proof -
  have "stops_at_failure k (EnableHWTimestamps k abi ts fd iface)" "stops_at_failure k (EnableHWTimestampsRx k abi ts fd iface)"
    "stops_at_failure k (EnableSWTimestamps k abi ts fd)" "stops_at_failure k (EnableSWTimestampsRx k abi ts fd)"
    unfolding EnableHWTimestamps_def EnableHWTimestampsRx_def EnableSWTimestamps_def EnableSWTimestampsRx_def Let_def
    by (auto intro: stops_ioctl split: prod.split)
  then show ?thesis by (auto simp: EnableTimestamps_def) (simp add: stops_at_failure_def)
qed

lemma stops_dscp: "stops_at_failure k (dscp_Enable k fd ip dscp)"
  by (auto simp: dscp_Enable_def)

lemma stops_sockets:
  "stops_at_failure k (listen k abi ts c)" "stops_at_failure k (startEventListener k abi ts c)"
  "stops_at_failure k (startGeneralListener k c)"
  unfolding listen_def startEventListener_def startGeneralListener_def Let_def
  by (intro stops_attempt stops_fd stops_after stops_done stops_enable stops_dscp)+

text \<open>When setting up the sockets of a worker or of a listener fails in a system call, that call is the last one made and its error is the one reported.\<close>

lemma setup_failure_reported:
  assumes "run_state (listen k abi ts c) tr = (Inl (ErrCall e), tr')
    \<or> run_state (startEventListener k abi ts c) tr = (Inl (ErrCall e), tr')
    \<or> run_state (startGeneralListener k c) tr = (Inl (ErrCall e), tr')"
  shows "\<exists>calls last. tr' = calls @ [last] \<and> call_error k calls last = Some e"
  using assms stops_sockets unfolding stops_at_failure_def by metis

subsection \<open>The order of the calls\<close>

lemma rx_filter_supported:
  assumes "rx_filter_of abi v \<noteq> 0"
  shows "has_bit v (nat (rx_filter_of abi v))"
  using assms by (auto simp: rx_filter_of_def)

text \<open>When hardware timestamps have been enabled, the interface supports the chosen receive filter and transmit timestamps, it was configured for exactly these or already had that configuration, and only then were the timestamping flags and the error queue option set on the socket.\<close>

lemma hw_timestamps_enabled:
  assumes "run_state (EnableHWTimestamps k abi ts fd iface) tr = (Inr (), tr')"
  shows "\<exists>f set flags. f = rx_filter_of abi (snd (ethtool_info k iface)) \<and> has_bit (snd (ethtool_info k iface)) (nat f)
    \<and> has_bit (fst (ethtool_info k iface)) (HWTSTAMP_TX_ON abi)
    \<and> tr' = tr @ [IoctlGetEthtoolTsInfo fd iface, IoctlGetHwTstamp fd iface] @ set
        @ [SetsockoptInt fd (SO_TIMESTAMPING_option ts) (SOF_TIMESTAMPING_TX_HARDWARE abi OR SOF_TIMESTAMPING_RX_HARDWARE abi OR
             SOF_TIMESTAMPING_RAW_HARDWARE abi OR SOF_TIMESTAMPING_OPT_ID abi OR SOF_TIMESTAMPING_OPT_TSONLY abi),
           SetsockoptInt fd SO_SELECT_ERR_QUEUE 1]
    \<and> (set = [IoctlSetHwTstamp fd iface flags (int (HWTSTAMP_TX_ON abi)) f]
       \<or> set = [] \<and> snd (hwtstamp k iface) = (int (HWTSTAMP_TX_ON abi), f))"
proof -
  obtain tx rx where i: "ethtool_info k iface = (tx, rx)" by (cases "ethtool_info k iface")
  obtain fl ht hr where h: "hwtstamp k iface = (fl, ht, hr)" by (cases "hwtstamp k iface") auto
  let ?f = "rx_filter_of abi rx" and ?t = "tr @ [IoctlGetEthtoolTsInfo fd iface]"
  have caps: "run_state (ioctlHWTimestampCaps k abi fd iface) tr = (Inr (?f, int (HWTSTAMP_TX_ON abi)), ?t)"
    and b: "has_bit tx (HWTSTAMP_TX_ON abi)" "?f \<noteq> 0"
    using assms i by (auto simp: EnableHWTimestamps_def ioctlHWTimestampCaps_def Let_def split: option.splits if_splits)
  obtain u where tm: "run_state (ioctlTimestamp k abi fd iface ?f) ?t = (Inr (), u)"
    using assms caps by (auto simp: EnableHWTimestamps_def split: sum.splits prod.splits)
  have e: "\<exists>set flags. u = ?t @ [IoctlGetHwTstamp fd iface] @ set
      \<and> (set = [IoctlSetHwTstamp fd iface flags (int (HWTSTAMP_TX_ON abi)) ?f]
         \<or> set = [] \<and> snd (hwtstamp k iface) = (int (HWTSTAMP_TX_ON abi), ?f))"
  proof (cases "call_error k ?t (IoctlGetHwTstamp fd iface) = None")
    case True
    then show ?thesis using tm h by (auto simp: ioctlTimestamp_def split: if_splits option.splits)
  next
    case False
    then show ?thesis
      using tm b(2) by (auto simp: ioctlTimestamp_def Let_def split: if_splits option.splits)
  qed
  have "tr' = u @ [SetsockoptInt fd (SO_TIMESTAMPING_option ts) (SOF_TIMESTAMPING_TX_HARDWARE abi OR SOF_TIMESTAMPING_RX_HARDWARE abi OR
             SOF_TIMESTAMPING_RAW_HARDWARE abi OR SOF_TIMESTAMPING_OPT_ID abi OR SOF_TIMESTAMPING_OPT_TSONLY abi),
           SetsockoptInt fd SO_SELECT_ERR_QUEUE 1]"
    using assms caps tm by (auto simp: EnableHWTimestamps_def Let_def split: option.splits)
  then show ?thesis using e b i rx_filter_supported [OF b(2)] by auto
qed

text \<open>Calls are only ever added.\<close>

definition extends :: "(syscall list, 'a) state \<Rightarrow> bool" where
  "extends m \<longleftrightarrow> (\<forall>tr. \<exists>x. snd (run_state m tr) = tr @ x)"

lemma extends_return [intro!, simp]: "extends (State_Monad.return x)"
  by (simp add: extends_def)

lemma extends_attempt [intro!]: "extends m \<Longrightarrow> extends (attempt k c m)"
  unfolding extends_def
proof
  fix tr
  assume m: "\<forall>tr. \<exists>x. snd (run_state m tr) = tr @ x"
  obtain x where "snd (run_state m (tr @ [c])) = (tr @ [c]) @ x" using m by blast
  then show "\<exists>x. snd (run_state (attempt k c m) tr) = tr @ x" by (cases "call_error k tr c") auto
qed

lemma extends_after [intro!]:
  assumes "extends m" and "\<And>x. extends (f x)"
  shows "extends (after m f)"
  unfolding extends_def
proof
  fix tr
  obtain r t where m: "run_state m tr = (r, t)" by (cases "run_state m tr")
  then obtain x where x: "t = tr @ x" using assms(1) by (metis extends_def snd_conv)
  show "\<exists>x. snd (run_state (after m f) tr) = tr @ x"
  proof (cases r)
    case (Inr y)
    obtain z where "snd (run_state (f y) t) = t @ z" using assms(2) by (auto simp: extends_def)
    then show ?thesis using m x Inr by simp
  qed (use m x in simp)
qed

lemma extends_enable: "extends (EnableTimestamps k abi ts kind fd iface)"
proof -
  have "extends (ioctlHWTimestampCaps k abi fd iface)"
    by (auto simp: ioctlHWTimestampCaps_def Let_def split: prod.split)
  moreover have "extends (ioctlTimestamp k abi fd iface f)" for f
    by (auto simp: extends_def ioctlTimestamp_def Let_def split: prod.split option.split)
  ultimately show ?thesis
    by (auto simp: EnableTimestamps_def EnableHWTimestamps_def EnableHWTimestampsRx_def EnableSWTimestamps_def
      EnableSWTimestampsRx_def Let_def split: prod.split)
qed

text \<open>A worker whose sockets are ready made exactly these calls in this order: on the event socket the reuse of the port before the bind, the address, the traffic class, then timestamps, and after that the general socket in the same way without timestamps.\<close>

lemma listen_order:
  assumes "run_state (listen k abi ts c) tr = (Inr (e, g), tr')"
  shows "\<exists>dom opt tsc. (if To4 (cfg_IP c) = [] then (dom, opt) = (AF_INET6, IPV6_TCLASS) else (dom, opt) = (AF_INET, IP_TOS))
    \<and> tr' = tr @ [Socket dom, SetsockoptInt e SO_REUSEPORT 1, Bind e (IPToSockaddr (cfg_IP c) 0), Getsockname e,
          SetsockoptInt e opt (push_bit 2 (DSCP c))] @ tsc
        @ [Socket dom, SetsockoptInt g SO_REUSEPORT 1, Bind g (IPToSockaddr (cfg_IP c) 0),
          SetsockoptInt g opt (push_bit 2 (DSCP c))]
    \<and> (\<exists>u. run_state (EnableTimestamps k abi ts (TimestampType c) e (Interface c)) u = (Inr (), u @ tsc))"
proof -
  define dom where "dom = (if To4 (cfg_IP c) \<noteq> [] then AF_INET else AF_INET6)"
  define opt where "opt = (if To4 (cfg_IP c) = [] then IPV6_TCLASS else IP_TOS)"
  define a where "a = IPToSockaddr (cfg_IP c) 0"
  define d where "d = push_bit 2 (DSCP c)"
  have dscp: "dscp_Enable k fd (cfg_IP c) (DSCP c) = attempt k (SetsockoptInt fd opt d) (done_ok ())" for fd
    by (simp add: dscp_Enable_def opt_def d_def)
  let ?e = "new_fd k (tr @ [Socket dom])"
  let ?t5 = "tr @ [Socket dom, SetsockoptInt ?e SO_REUSEPORT 1, Bind ?e a, Getsockname ?e, SetsockoptInt ?e opt d]"
  obtain r t where en: "run_state (EnableTimestamps k abi ts (TimestampType c) ?e (Interface c)) ?t5 = (r, t)"
    by (cases "run_state (EnableTimestamps k abi ts (TimestampType c) ?e (Interface c)) ?t5")
  obtain tsc where tsc: "t = ?t5 @ tsc" using en extends_enable by (metis extends_def snd_conv)
  let ?g = "new_fd k (t @ [Socket dom])"
  have "r = Inr () \<and> e = ?e \<and> g = ?g
      \<and> tr' = t @ [Socket dom, SetsockoptInt ?g SO_REUSEPORT 1, Bind ?g a, SetsockoptInt ?g opt d]"
    using assms en by (auto simp: listen_def dom_def [symmetric] a_def [symmetric] dscp Let_def split: option.splits sum.splits)
  then have p: "r = Inr ()" "e = ?e" "g = ?g"
    "tr' = t @ [Socket dom, SetsockoptInt g SO_REUSEPORT 1, Bind g a, SetsockoptInt g opt d]" by simp_all
  have "\<exists>u. run_state (EnableTimestamps k abi ts (TimestampType c) e (Interface c)) u = (Inr (), u @ tsc)"
    using en tsc p(1,2) by blast
  moreover have "if To4 (cfg_IP c) = [] then (dom, opt) = (AF_INET6, IPV6_TCLASS) else (dom, opt) = (AF_INET, IP_TOS)"
    by (simp add: dom_def opt_def)
  moreover have "tr' = tr @ [Socket dom, SetsockoptInt e SO_REUSEPORT 1, Bind e a, Getsockname e, SetsockoptInt e opt d] @ tsc
        @ [Socket dom, SetsockoptInt g SO_REUSEPORT 1, Bind g a, SetsockoptInt g opt d]"
    using tsc p(2,4) by simp
  ultimately show ?thesis unfolding a_def d_def by blast
qed

subsection \<open>A sample kernel\<close>

definition linux_ts :: ts_abi where
  "linux_ts = \<lparr>HWTSTAMP_TX_ON = 1, HWTSTAMP_FILTER_ALL = 1, HWTSTAMP_FILTER_PTP_V2_L4_EVENT = 6,
     HWTSTAMP_FILTER_PTP_V2_EVENT = 12, SOF_TIMESTAMPING_TX_HARDWARE = 1, SOF_TIMESTAMPING_TX_SOFTWARE = 2,
     SOF_TIMESTAMPING_RX_HARDWARE = 4, SOF_TIMESTAMPING_RX_SOFTWARE = 8, SOF_TIMESTAMPING_SOFTWARE = 16,
     SOF_TIMESTAMPING_RAW_HARDWARE = 64, SOF_TIMESTAMPING_OPT_ID = 128, SOF_TIMESTAMPING_OPT_TSONLY = 2048,
     opt_SO_TIMESTAMPING = 37, opt_SO_TIMESTAMPING_NEW = 65\<rparr>"

definition sample_net :: "syscall option \<Rightarrow> net_kernel" where
  "sample_net bad = \<lparr>call_error = (\<lambda>tr c. if Some c = bad then Some EINVAL else None), new_fd = (\<lambda>tr. int (length tr)),
     ethtool_info = (\<lambda>i. (2, 4096)), hwtstamp = (\<lambda>i. (0, 0, 0))\<rparr>"

lemma setup_failure_reported_witness:
  "\<exists>calls last. run_state (listen (sample_net (Some (Getsockname 1))) linux_ts 65 sample_static) [] = (Inl (ErrCall EINVAL), calls @ [last])
     \<and> call_error (sample_net (Some (Getsockname 1))) calls last = Some EINVAL"
proof -
  let ?k = "sample_net (Some (Getsockname 1))"
  obtain r tr' where r: "run_state (listen ?k linux_ts 65 sample_static) [] = (r, tr')"
    by (cases "run_state (listen ?k linux_ts 65 sample_static) []")
  have "fst (run_state (listen ?k linux_ts 65 sample_static) []) = Inl (ErrCall EINVAL)" by code_simp
  then have l: "run_state (listen ?k linux_ts 65 sample_static) [] = (Inl (ErrCall EINVAL), tr')" using r by simp
  then show ?thesis using setup_failure_reported [OF disjI1 [OF l]] by auto
qed

lemma hw_timestamps_enabled_witness:
  "\<exists>tr'. run_state (EnableHWTimestamps (sample_net None) linux_ts 65 3 ''eth0'') [] = (Inr (), tr')
     \<and> rx_filter_of linux_ts 4096 = 12 \<and> IoctlGetEthtoolTsInfo 3 ''eth0'' \<in> set tr'"
proof -
  let ?m = "EnableHWTimestamps (sample_net None) linux_ts 65 3 ''eth0''"
  obtain r tr' where r: "run_state ?m [] = (r, tr')" by (cases "run_state ?m []")
  have "fst (run_state ?m []) = Inr ()" by code_simp
  then have l: "run_state ?m [] = (Inr (), tr')" using r by simp
  have "rx_filter_of linux_ts 4096 = 12" by code_simp
  then show ?thesis using hw_timestamps_enabled [OF l] l by auto
qed

lemma listen_order_witness:
  "\<exists>tr'. run_state (listen (sample_net None) linux_ts 65 (sample_static\<lparr>TimestampType := SW\<rparr>)) [] = (Inr (1, 8), tr')
     \<and> Getsockname 1 \<in> set tr'"
proof -
  let ?m = "listen (sample_net None) linux_ts 65 (sample_static\<lparr>TimestampType := SW\<rparr>)"
  obtain r tr' where r: "run_state ?m [] = (r, tr')" by (cases "run_state ?m []")
  have "fst (run_state ?m []) = Inr (1, 8)" by code_simp
  then have l: "run_state ?m [] = (Inr (1, 8), tr')" using r by simp
  then show ?thesis using listen_order [OF l] by auto
qed

end
