(* ===== verification/Ptp_Main.thy ===== *)
theory Ptp_Main
  imports Ptp_Flags Ptp_Liveness Ptp_Sockets
begin

section \<open>The program (\<^verbatim>\<open>src/main.go\<close>, \<^verbatim>\<open>src/server/server.go\<close>)\<close>

text \<open>
  From the command line to the exit status: \<^verbatim>\<open>main\<close> with its flags, validation and the start of the
  server, then the life of the process until it exits. A panic exits with status 2, as does a bad
  flag; every failed set-up exits with status 1; SIGTERM and SIGINT end the program in order.
\<close>

subsection \<open>Starting\<close>

datatype life = Exited int config_env | Serving Server config_env

text \<open>The addresses on which HTTP servers are started, for the profiler and for monitoring.\<close>

definition http_addrs :: "StaticConfig \<Rightarrow> string list" where
  "http_addrs c = (if DebugAddr c \<noteq> [] then [DebugAddr c] else []) @ ['':'' @ fmt_d (MonitoringPort c)]"

definition main :: "string list \<Rightarrow> config_env \<Rightarrow> life" where
  "main args env =
     (case parse_flags args flag_defaults of
        Inl err \<Rightarrow> Exited (if err = ErrHelp then 0 else 2) env
      | Inr (f, rest) \<Rightarrow>
          (case main_setup env (fl_config f) (fl_ipaddr f) of
             Inl reason \<Rightarrow> Exited 1 env
           | Inr (level, c) \<Rightarrow>
               (let checks = [\<lparr>FileName = DrainFileName (cfg_static c)\<rparr>] in
                case Server_Start env c NewJSONStats checks of
                  (Inl err, env) \<Rightarrow> Exited 1 env
                | (Inr s, env) \<Rightarrow> Serving s env)))"

subsection \<open>The life of the process\<close>

text \<open>
  What happens to a started program: an iteration of one of its goroutines, a change of the files by
  others, the socket set-up of a worker or a listener with the answers of the kernel, a failed HTTP server,
  and SIGTERM. None of the goroutines of \<^verbatim>\<open>Start\<close> returns, so its channel \<^verbatim>\<open>fail\<close> is never used.
\<close>

datatype process_event =
    Iteration event
  | FilesChange config_env
  | WorkerSetup net_kernel ts_abi int
  | EventSetup net_kernel ts_abi int
  | GeneralSetup net_kernel
  | HttpFailed string
  | SigtermReceived

definition after_setup :: "(syscall list, net_error + 'a) state \<Rightarrow> Server \<Rightarrow> config_env \<Rightarrow> life" where
  "after_setup m s f = (case fst (run_state m []) of Inl err \<Rightarrow> Exited 1 f | Inr x \<Rightarrow> Serving s f)"

fun process_step :: "server_env \<Rightarrow> process_event \<Rightarrow> life \<Rightarrow> life option" where
  "process_step env ev (Exited code f) = None"
| "process_step env (Iteration ev) (Serving s f) =
     (case exec (env\<lparr>env_cfg := f\<rparr>) ev s of
        None \<Rightarrow> None
      | Some (Done s') \<Rightarrow> Some (Serving s' f)
      | Some (Hang s') \<Rightarrow> None
      | Some Crash \<Rightarrow> Some (Exited 2 f))"
| "process_step env (FilesChange f') (Serving s f) = Some (Serving s f')"
| "process_step env (WorkerSetup k abi t) (Serving s f) =
     Some (after_setup (listen k abi t (cfg_static (sv_Config s))) s f)"
| "process_step env (EventSetup k abi t) (Serving s f) =
     Some (after_setup (startEventListener k abi t (cfg_static (sv_Config s))) s f)"
| "process_step env (GeneralSetup k) (Serving s f) =
     Some (after_setup (startGeneralListener k (cfg_static (sv_Config s))) s f)"
| "process_step env (HttpFailed addr) (Serving s f) =
     (if addr \<in> set (http_addrs (cfg_static (sv_Config s))) then Some (Exited 1 f) else None)"
| "process_step env SigtermReceived (Serving s f) =
     (let ((err, f), s) = handleSigterm f s in Some (Exited (if err = None then 0 else 1) f))"

inductive lives :: "server_env \<Rightarrow> life \<Rightarrow> life \<Rightarrow> bool" for env l0 where
  begin_life: "lives env l0 l0"
| step_life: "lives env l0 l \<Longrightarrow> process_step env ev l = Some l' \<Longrightarrow> lives env l0 l'"

subsection \<open>The configuration in use\<close>

definition config_ok :: "StaticConfig \<Rightarrow> Server \<Rightarrow> bool" where
  "config_ok c s \<longleftrightarrow> cfg_static (sv_Config s) = c \<and> DynamicConfig_Validate (cfg_dynamic (sv_Config s)) = None"

lemma sv_Config_push [simp]: "sv_Config (push a q s) = sv_Config s"
  by (cases q) simp_all

lemma sv_Config_pushes [simp]: "sv_Config (pushes a qs s) = sv_Config s"
  unfolding pushes_def by (induction qs arbitrary: s) simp_all

lemma sv_Config_inventory [simp]: "sv_Config (inventory_worker w s) = sv_Config s" "sv_Config (inventory_all s) = sv_Config s"
proof -
  show w: "sv_Config (inventory_worker w s) = sv_Config s" for w s by (simp add: inventory_worker_def split: prod.split)
  have "sv_Config (fold inventory_worker ws s) = sv_Config s" for ws by (induction ws arbitrary: s) (simp_all add: w)
  then show "sv_Config (inventory_all s) = sv_Config s" by (simp add: inventory_all_def)
qed

lemma sv_Config_sptp [simp]: "sv_Config (sptp_request now dReq sa rxTS w s) = sv_Config s"
  by (simp add: sptp_request_def Let_def newClient_def split: option.split)

lemma sv_Config_event: "handleEventMessage env now dReq buf sa rxTS s = Done s' \<Longrightarrow> sv_Config s' = sv_Config s"
  by (auto simp: handleEventMessage_def delay_request_def Let_def split: sum.splits option.splits if_splits)

lemma sv_Config_grant: "grant_request env now sa sg v t s = Done s' \<Longrightarrow> sv_Config s' = sv_Config s"
  by (auto simp: grant_request_def sendSignalingGrant_def newClient_def Let_def split: option.splits if_splits prod.splits)

lemma sv_Config_tlv: "handle_tlv env now sa sg tlv s = Done s' \<Longrightarrow> sv_Config s' = sv_Config s"
  by (cases tlv)
    (auto simp: cancel_request_def Let_def split: option.splits if_splits outcome.splits dest: sv_Config_grant)

lemma sv_Config_tlvs: "handle_tlvs env now sa sg tlvs s = Done s' \<Longrightarrow> sv_Config s' = sv_Config s"
  by (induction tlvs arbitrary: s) (auto simp: obind_Done dest: sv_Config_tlv)

lemma sv_Config_general: "handleGeneralMessage env now sg buf sa s = Done s' \<Longrightarrow> sv_Config s' = sv_Config s"
  by (auto simp: handleGeneralMessage_def split: sum.splits option.splits if_splits dest: sv_Config_tlvs)

lemma config_exec:
  assumes "exec env ev s = Some (Done s')" and "config_ok c s"
  shows "config_ok c s'"
proof (cases ev)
  case Sighup
  then show ?thesis
    using assms ReadDynamicConfig_valid by (auto simp: reload_config_def config_ok_def split: sum.splits)
next
  case (BeginLoop i)
  then have "sv_Config s' = sv_Config s"
    using assms(1) by (auto simp: begin_loop_def Let_def split: if_splits prod.splits outcome.splits)
  then show ?thesis using assms(2) by (simp add: config_ok_def)
next
  case (Tick now i)
  then have "sv_Config s' = sv_Config s"
    using assms(1) by (auto simp: tick_loop_def exit_loop_def Let_def split: if_splits prod.splits outcome.splits)
  then show ?thesis using assms(2) by (simp add: config_ok_def)
next
  case (WorkerTurn w ch io)
  then have "sv_Config s' = sv_Config s"
    using assms(1) by (auto simp: worker_turn_def split: if_splits option.splits)
  then show ?thesis using assms(2) by (simp add: config_ok_def)
qed (use assms in \<open>auto simp: config_ok_def exit_loop_def report_metrics_def Drain_cancel_def Undrain_def Let_def
    split: if_splits prod.splits dest: sv_Config_event sv_Config_general\<close>)

subsection \<open>What a life keeps\<close>

lemma ParseInt_range: "ParseInt s = Inr i \<Longrightarrow> - (2 ^ 63) \<le> i \<and> i < 2 ^ 63"
  by (auto simp: ParseInt_def Let_def split: list.splits sum.splits if_splits)

lemma setter_workers:
  assumes "map_of formal n = Some setter" and "setter v f = Some f'" and "SendWorkers (fl_config f) < 2 ^ 63"
  shows "SendWorkers (fl_config f') < 2 ^ 63"
  using assms ParseInt_range [of v]
  by (auto simp: formal_def IntVar_def UintVar_def StringVar_def TextVar_def on_config_def
      split: if_splits sum.splits prod.splits option.splits)

lemma parse_flags_workers:
  assumes "parse_flags args f = Inr (f', rest)" and "SendWorkers (fl_config f) < 2 ^ 63"
  shows "SendWorkers (fl_config f') < 2 ^ 63"
  using assms
proof (induction args f rule: parse_flags.induct)
  case (1 args f)
  have "SendWorkers (fl_config f1) < 2 ^ 63" if "parseOne args f = FlagSet args' f1" for args' f1
    using that 1(3) setter_workers
    by (cases args) (auto simp: set_flag_def Let_def split: if_splits prod.splits option.splits)
  then show ?case
    using 1 by (subst (asm) (2) parse_flags.simps) (auto split: parsed.splits)
qed

lemma main_Serving:
  assumes "main args files = Serving s f"
  obtains c stats checks where "Server_Start files c stats checks = (Inr s, f)"
    and "Config_Validate files (cfg_static c) = None" and "DynamicConfig_Validate (cfg_dynamic c) = None"
    and "SendWorkers (cfg_static c) < 2 ^ 63"
proof -
  obtain fl rest where p: "parse_flags args flag_defaults = Inr (fl, rest)"
    using assms by (auto simp: main_def split: sum.splits)
  have "SendWorkers (fl_config flag_defaults) < 2 ^ 63" by (simp add: flag_defaults_def)
  with p have w: "SendWorkers (fl_config fl) < 2 ^ 63" by (rule parse_flags_workers)
  obtain level c where m: "main_setup files (fl_config fl) (fl_ipaddr fl) = Inr (level, c)"
    using assms p by (auto simp: main_def split: sum.splits)
  have s: "Server_Start files c NewJSONStats [\<lparr>FileName = DrainFileName (cfg_static c)\<rparr>] = (Inr s, f)"
    using assms p m by (auto simp: main_def Let_def split: sum.splits prod.splits)
  have "Config_Validate files (cfg_static c) = None" "DynamicConfig_Validate (cfg_dynamic c) = None"
    "SendWorkers (cfg_static c) = SendWorkers (fl_config fl)"
    using m ReadDynamicConfig_valid default_dynamic_valid
    by (auto simp: main_setup_def Let_def split: option.splits sum.splits if_splits)
  then show ?thesis using that [OF s] w by simp
qed

lemma server_inv_files: "server_inv (env\<lparr>env_cfg := f\<rparr>) n s = server_inv env n s"
proof -
  have "entry_ok (env\<lparr>env_cfg := f\<rparr>) = entry_ok env"
    by (intro ext) (simp add: entry_ok_def assigned_def worker_index_def)
  then show ?thesis by (simp add: server_inv_def worker_inv_def)
qed

definition life_inv :: "server_env \<Rightarrow> StaticConfig \<Rightarrow> life \<Rightarrow> bool" where
  "life_inv env c l \<longleftrightarrow> (case l of
     Exited code f \<Rightarrow> True
   | Serving s f \<Rightarrow> server_inv env (nat (SendWorkers c)) s \<and> routines_inv s \<and> config_ok c s)"

lemma life_inv_step:
  assumes "process_step env ev l = Some l'" and "life_inv env c l"
  shows "life_inv env c l'"
proof (cases l)
  case (Serving s f)
  show ?thesis
  proof (cases ev)
    case (Iteration it)
    have inv: "server_inv (env\<lparr>env_cfg := f\<rparr>) (nat (SendWorkers c)) s" "routines_inv s" "config_ok c s"
      using assms(2) Serving by (simp_all add: life_inv_def server_inv_files)
    consider s' where "exec (env\<lparr>env_cfg := f\<rparr>) it s = Some (Done s')" "l' = Serving s' f"
      | "l' = Exited 2 f"
      using assms(1) Serving Iteration by (auto split: option.splits outcome.splits)
    then show ?thesis
    proof cases
      case 1
      then show ?thesis
        using inv_exec [OF inv(1) 1(1)] routines_exec [OF inv(1,2) 1(1)] config_exec [OF 1(1) inv(3)]
        by (simp add: life_inv_def server_inv_files)
    qed (simp add: life_inv_def)
  qed (use assms Serving in \<open>auto simp: life_inv_def after_setup_def Let_def split: sum.splits if_splits prod.splits\<close>)
qed (use assms in simp)

lemma life_inv_main: "main args files = Serving s f \<Longrightarrow> life_inv env (cfg_static (sv_Config s)) (Serving s f)"
proof (erule main_Serving)
  fix c stats checks
  assume s: "Server_Start files c stats checks = (Inr s, f)" and v: "Config_Validate files (cfg_static c) = None"
    and d: "DynamicConfig_Validate (cfg_dynamic c) = None" and w: "SendWorkers (cfg_static c) < 2 ^ 63"
  have i: "fst (Server_Start files c stats checks) = Inr s" using s by simp
  have "cfg_static (sv_Config s) = cfg_static c" "cfg_dynamic (sv_Config s) = cfg_dynamic c"
    using s by (auto simp: Server_Start_def split: sum.splits option.splits prod.splits)
  then show ?thesis
    using inv_start [OF i Config_Validate_None(5) [OF v] w] Server_Start_empty [OF i] d
    by (simp add: life_inv_def config_ok_def routines_inv_def)
qed

lemma lives_inv:
  assumes "main args files = Serving s0 f0" and "lives env (Serving s0 f0) l"
  shows "life_inv env (cfg_static (sv_Config s0)) l"
  using assms(2)
  by (induction rule: lives.induct) (auto intro: life_inv_main [OF assms(1)] life_inv_step)


lemma lives_from_Serving: "lives env l0 (Serving s f) \<Longrightarrow> \<exists>s0 f0. l0 = Serving s0 f0"
proof -
  have "lives env l0 l \<Longrightarrow> l0 = l \<or> (\<exists>s0 f0. l0 = Serving s0 f0)" for l
  proof (induction rule: lives.induct)
    case (step_life l ev l')
    then show ?case by (cases l) auto
  qed simp
  then show "lives env l0 (Serving s f) \<Longrightarrow> \<exists>s0 f0. l0 = Serving s0 f0" by blast
qed

lemma main_Exited:
  "main args files = Exited code f \<Longrightarrow> code = 1 \<or> code = 0 \<and> parse_flags args flag_defaults = Inl ErrHelp
     \<or> code = 2 \<and> (\<exists>err. parse_flags args flag_defaults = Inl err \<and> err \<noteq> ErrHelp)"
  by (auto simp: main_def Let_def split: sum.splits if_splits prod.splits)

text \<open>The last step of a program that served.\<close>

lemma step_Exited:
  assumes "process_step env ev (Serving s f1) = Some (Exited code f)" and "life_inv env c (Serving s f1)"
  shows "code = 1 \<or> code = 0 \<and> ReadFile f (PidFile c) = Inl ''ENOENT''
    \<or> code = 2 \<and> f = f1 \<and> (\<exists>it. ticker_panic it s)"
proof (cases ev)
  case (Iteration it)
  then have "exec (env\<lparr>env_cfg := f1\<rparr>) it s = Some Crash" "code = 2" "f = f1"
    using assms(1) by (auto split: option.splits outcome.splits)
  then show ?thesis
    using exec_Crash [of "env\<lparr>env_cfg := f1\<rparr>"] assms(2) by (auto simp: life_inv_def server_inv_files)
next
  case SigtermReceived
  have "cfg_static (sv_Config s) = c" using assms(2) by (simp add: life_inv_def config_ok_def)
  moreover have "sv_Config (Drain s) = sv_Config s"
  proof -
    have "sv_Config ((inventory_all ^^ k) t) = sv_Config t" for k t by (induction k) simp_all
    then show ?thesis by (simp add: Drain_def Drain_cancel_def)
  qed
  ultimately show ?thesis
    using assms(1) SigtermReceived
    by (auto simp: handleSigterm_def DeletePidFile_def RemoveFile_def Let_def split: option.splits if_splits)
qed (use assms(1) in \<open>auto simp: after_setup_def split: sum.splits if_splits\<close>)


definition sample_args :: "string list" where
  "sample_args = [''-ip'', ''10.0.0.1'', ''--workers=2'']"

definition sample_main :: "Server \<times> config_env" where
  "sample_main = (case main sample_args sample_env of Serving s f \<Rightarrow> (s, f))"

lemma sample_main_facts:
  "main sample_args sample_env = Serving (fst sample_main) (snd sample_main)" "Remove_error (snd sample_main) p = None"
proof -
  have "parse_flags sample_args flag_defaults = Inr (flag_defaults\<lparr>fl_config := (fl_config flag_defaults)\<lparr>SendWorkers := 2\<rparr>,
      fl_ipaddr := ''10.0.0.1''\<rparr>, [])"
    by (simp add: sample_args_def flags_eval)
  then have "\<exists>s f. main sample_args sample_env = Serving s f \<and> Remove_error f = (\<lambda>p. None)"
    by (simp add: main_def main_setup_def flag_defaults_def log_level_of_def sample_env_def Config_Validate_def
      IfaceHasIP_def ifaceIPs_def IPv6zero_def Server_Start_def CreatePidFile_def WriteFile_def NewClockIdentity_def Let_def)
  then show "main sample_args sample_env = Serving (fst sample_main) (snd sample_main)" "Remove_error (snd sample_main) p = None"
    by (auto simp: sample_main_def)
qed



end
