(* ===== verification/Ptp_Threads.thy ===== *)
theory Ptp_Threads
  imports Ptp_Liveness
begin

section \<open>Goroutines that wait (\<^verbatim>\<open>src/server\<close>)\<close>

text \<open>
  The server at the grain of the places where a goroutine can wait: a send on a bounded channel of a
  worker, a send on the stop channel of a client, the lock of a client and the lock of a worker's table. A
  goroutine is the point it has reached; a step takes it from one such place to the next. The
  functions of \<^verbatim>\<open>Ptp_Server\<close> are cut at these places and used again. The list that models a channel holds its
  buffer and then what the waiting senders send, in their order. Locks that a goroutine takes and releases one after
  the other between two such places are taken together: the step is possible when all of them are free.
\<close>

subsection \<open>Goroutines\<close>

text \<open>Why a goroutine takes stock of the workers: for the metrics, or for rounds of a drain that are left.\<close>

datatype purpose = Metrics | Drains nat | Terminates nat

text \<open>
  The handlers: reading a packet; a delay request that was decoded; the TLVs that are left; a request
  and a cancel before the table is searched; \<^verbatim>\<open>Stop\<close> before it has the lock and while it waits to send with the lock
  held; the end of a grant. The goroutine of a subscription: before it runs, before the ticker, in the
  \<^verbatim>\<open>select\<close>, after a tick, before the deferred calls, at its end. The loops that take stock: before the workers
  that are left, and holding the table of a worker with the entries that are left. The other points of the
  metric loop, the drain check and the handler of SIGTERM. Last, a send to a channel of a worker that waits for a number of
  receives.
\<close>

datatype goroutine =
    ReadEvent
  | Delayed SyncDelayReq Sockaddr time
  | ReadGeneral
  | Tlvs Sockaddr Signaling "TLV list"
  | Requests Sockaddr Signaling RequestUnicastTransmission u8 "TLV list"
  | Cancels Sockaddr Signaling u8 "TLV list"
  | Stops addr Sockaddr Signaling "TLV list"
  | StopWaits addr Sockaddr Signaling "TLV list"
  | GrantSent addr Sockaddr Signaling "TLV list"
  | StartRuns addr nat
  | ArmTicker addr nat
  | SelectLoop addr nat
  | Ticked addr nat
  | Leaves addr
  | Ended
  | MetricLoop
  | Reports
  | DrainLoop
  | DrainEnds
  | AwaitSigterm
  | Terminated
  | Inventory "nat list" purpose
  | TakesStock nat "(u8 \<times> PortIdentity \<times> addr) list" "nat list" purpose
  | Sends nat channel nat goroutine

record system =
  sy_server :: Server
  sy_go :: "goroutine list"

text \<open>What a goroutine reads, and what it chooses in a \<^verbatim>\<open>select\<close> or as the order of a map.\<close>

datatype input =
    Go time
  | EventIn SyncDelayReq bytes Sockaddr time
  | GeneralIn Signaling bytes Sockaddr
  | CtxReady
  | StopReady
  | TickReady
  | Order range_order
  | Entries "(u8 \<times> PortIdentity \<times> addr) list"

subsection \<open>Locks and channels\<close>

text \<open>
  Locks that are held between two steps: that of a client by a \<^verbatim>\<open>Stop\<close> that waits, that of a table by
  an inventory.
\<close>

fun holds_client :: "addr \<Rightarrow> goroutine \<Rightarrow> bool" where
  "holds_client a (StopWaits b sa sg tlvs) = (a = b)"
| "holds_client a g = False"

fun holds_table :: "nat \<Rightarrow> goroutine \<Rightarrow> bool" where
  "holds_table w (TakesStock v es ws p) = (w = v)"
| "holds_table w g = False"

definition client_free :: "addr \<Rightarrow> goroutine list \<Rightarrow> bool" where
  "client_free a gs \<longleftrightarrow> \<not> list_ex (holds_client a) gs"

definition table_free :: "nat \<Rightarrow> goroutine list \<Rightarrow> bool" where
  "table_free w gs \<longleftrightarrow> \<not> list_ex (holds_table w) gs"

definition found_free :: "addr option \<Rightarrow> goroutine list \<Rightarrow> bool" where
  "found_free found gs \<longleftrightarrow> (case found of None \<Rightarrow> True | Some a \<Rightarrow> client_free a gs)"

definition capacity :: "Server \<Rightarrow> nat" where
  "capacity s = nat (QueueSize (cfg_static (sv_Config s)))"

fun chan :: "channel \<Rightarrow> sendWorker \<Rightarrow> addr list" where
  "chan Queue w = w_queue w"
| "chan SignalingQueue w = w_signalingQueue w"

text \<open>A goroutine after its client was put last on a channel: it waits unless the buffer had room.\<close>

definition sends :: "addr \<Rightarrow> channel \<Rightarrow> goroutine \<Rightarrow> Server \<Rightarrow> goroutine" where
  "sends a ch g s =
     (let w = sc_worker (sv_heap s ! a); n = length (chan ch (sv_sw s ! w))
      in if n > capacity s then Sends w ch (n - capacity s) g else g)"

text \<open>A receive from a channel brings every sender that waits there one place forward.\<close>

fun release :: "nat \<Rightarrow> channel \<Rightarrow> goroutine \<Rightarrow> goroutine" where
  "release w ch (Sends v c r g) =
     (if v = w \<and> c = ch then (if r \<le> 1 then g else Sends v c (r - 1) g) else Sends v c r g)"
| "release w ch g = g"

subsection \<open>The steps\<close>

text \<open>The outcome of a step: a new state and point, with the goroutines it starts.\<close>

type_synonym moved = "Server \<times> goroutine \<times> goroutine list"

fun taken :: "(addr \<times> nat) list \<Rightarrow> goroutine list" where
  "taken rs = map (\<lambda>(a, ctx). StartRuns a ctx) rs"

definition read_event :: "SyncDelayReq \<Rightarrow> bytes \<Rightarrow> Sockaddr \<Rightarrow> time \<Rightarrow> Server \<Rightarrow> moved outcome" where
  "read_event dReq buf eclisa rxTS s =
     (let rxTS = (if TimestampType (cfg_static (sv_Config s)) \<noteq> HW
                  then rxTS + UTCOffset (cfg_dynamic (sv_Config s)) else rxTS) in
      case ProbeMsgType buf of
        Inl err \<Rightarrow> Done (s, ReadEvent, [])
      | Inr msgType \<Rightarrow>
          (let s = on_stats (IncRX msgType) s in
           if ctx_Err s then Done (s, ReadEvent, [])
           else if msgType = MessageDelayReq then
             (case SyncDelayReq_UnmarshalBinary (dReq\<lparr>sync_TLVs := []\<rparr>) buf of
                None \<Rightarrow> Crash
              | Some (dReq, Some err) \<Rightarrow> Done (s, ReadEvent, [])
              | Some (dReq, None) \<Rightarrow> Done (s, Delayed dReq eclisa rxTS, []))
           else Done (s, ReadEvent, [])))"

text \<open>
  A delay request is served when the table of its worker is free, and for a client that is bumped also the
  client. The goroutine that is started is taken from where \<^const>\<open>spawn\<close> puts it.
\<close>

definition serve_delay ::
  "server_env \<Rightarrow> time \<Rightarrow> SyncDelayReq \<Rightarrow> Sockaddr \<Rightarrow> time \<Rightarrow> goroutine list \<Rightarrow> Server \<Rightarrow> moved outcome option" where
  "serve_delay env now dReq eclisa rxTS gs s =
     (let h = sync_Header dReq; clientID = SourcePortIdentity h;
          sptp = (FlagField h = FlagProfileSpecific1 OR FlagUnicast);
          t = (if sptp then MessageDelayReq else MessageDelayResp)
      in case findWorker env clientID (workerOffset_of 0 (sync_TLVs dReq)) s of
           None \<Rightarrow> Some Crash
         | Some w \<Rightarrow>
             if \<not> table_free w gs \<or> sptp \<and> \<not> found_free (FindSubscription clientID t (sv_sw s ! w)) gs then None
             else (case delay_request env now dReq eclisa rxTS s of
                 Done s' \<Rightarrow> Some (Done (s'\<lparr>sv_spawned := []\<rparr>,
                   (case FindSubscription clientID t (sv_sw s' ! w) of
                      None \<Rightarrow> ReadEvent | Some a \<Rightarrow> sends a Queue ReadEvent s'), taken (sv_spawned s')))
               | _ \<Rightarrow> Some Crash))"

definition read_general :: "Signaling \<Rightarrow> bytes \<Rightarrow> Sockaddr \<Rightarrow> Server \<Rightarrow> moved outcome" where
  "read_general signaling buf gclisa s =
     (case ProbeMsgType buf of
        Inl err \<Rightarrow> Done (s, ReadGeneral, [])
      | Inr msgType \<Rightarrow>
          if msgType = MessageSignaling then
            (case Signaling_UnmarshalBinary (signaling\<lparr>sig_TLVs := []\<rparr>) buf of
               None \<Rightarrow> Crash
             | Some (sg, Some err) \<Rightarrow> Done (s, ReadGeneral, [])
             | Some (sg, None) \<Rightarrow> Done (s, Tlvs gclisa sg (sig_TLVs sg), []))
          else Done (s, ReadGeneral, []))"

fun next_tlv :: "Sockaddr \<Rightarrow> Signaling \<Rightarrow> TLV list \<Rightarrow> Server \<Rightarrow> moved" where
  "next_tlv sa sg [] s = (s, ReadGeneral, [])"
| "next_tlv sa sg (RequestUnicastTransmissionTLV v # tlvs) s =
     (let t = Unicast_MsgType (req_MsgTypeAndReserved v); s = on_stats (IncRXSignalingGrant t) s
      in (s, if t = MessageAnnounce \<or> t = MessageSync \<or> t = MessageDelayResp
             then Requests sa sg v t tlvs else Tlvs sa sg tlvs, []))"
| "next_tlv sa sg (CancelUnicastTransmissionTLV v # tlvs) s =
     (let t = Unicast_MsgType (cancel_MsgTypeAndFlags v)
      in (on_stats (IncRXSignalingCancel t) s, Cancels sa sg t tlvs, []))"
| "next_tlv sa sg (_ # tlvs) s = (s, Tlvs sa sg tlvs, [])"

text \<open>A request up to the send of its answer.\<close>

definition serve_request ::
  "server_env \<Rightarrow> time \<Rightarrow> Sockaddr \<Rightarrow> Signaling \<Rightarrow> RequestUnicastTransmission \<Rightarrow> u8 \<Rightarrow> TLV list
     \<Rightarrow> goroutine list \<Rightarrow> Server \<Rightarrow> moved outcome option" where
  "serve_request env now sa sg v t tlvs gs s =
     (let durationt = wrap64 (uint (req_DurationField v) * Second);
          intervalt = LogInterval_Duration (env_oor env) (req_LogInterMessagePeriod v);
          clientID = SourcePortIdentity (sig_Header sg)
      in case findWorker env clientID 0 s of
           None \<Rightarrow> Some Crash
         | Some w \<Rightarrow>
             if \<not> table_free w gs \<or> \<not> found_free (FindSubscription clientID t (sv_sw s ! w)) gs then None
             else
               (let (a, s) = grant_client env now sa clientID t intervalt (now + durationt) w s;
                    ok = acceptable s intervalt durationt;
                    s = sendSignalingGrant sg (req_MsgTypeAndReserved v) (req_LogInterMessagePeriod v)
                          (if ok then req_DurationField v else 0) a s
                in Some (Done (s, sends a SignalingQueue (if ok then GrantSent a sa sg tlvs else Tlvs sa sg tlvs) s, []))))"

definition find_cancelled ::
  "server_env \<Rightarrow> Sockaddr \<Rightarrow> Signaling \<Rightarrow> u8 \<Rightarrow> TLV list \<Rightarrow> goroutine list \<Rightarrow> Server \<Rightarrow> moved outcome option" where
  "find_cancelled env sa sg t tlvs gs s =
     (case findWorker env (SourcePortIdentity (sig_Header sg)) 0 s of
        None \<Rightarrow> Some Crash
      | Some w \<Rightarrow>
          if \<not> table_free w gs then None
          else (case FindSubscription (SourcePortIdentity (sig_Header sg)) t (sv_sw s ! w) of
              None \<Rightarrow> Some (Done (s, Tlvs sa sg tlvs, []))
            | Some a \<Rightarrow> Some (Done (s, Stops a sa sg tlvs, []))))"

text \<open>\<^const>\<open>Stop\<close> with the lock: it sets the expiry and sends, or keeps the lock and waits.\<close>

definition stop_client :: "time \<Rightarrow> addr \<Rightarrow> Sockaddr \<Rightarrow> Signaling \<Rightarrow> TLV list \<Rightarrow> Server \<Rightarrow> moved outcome" where
  "stop_client now a sa sg tlvs s =
     (case Stop now (sv_heap s ! a) of
        Done sc \<Rightarrow> Done (on_client a (\<lambda>_. sc) s, Tlvs sa sg tlvs, [])
      | Hang sc \<Rightarrow> Done (on_client a (\<lambda>_. sc) s, StopWaits a sa sg tlvs, [])
      | Crash \<Rightarrow> Crash)"

definition start_runs :: "addr \<Rightarrow> nat \<Rightarrow> Server \<Rightarrow> moved" where
  "start_runs a ctx s =
     (let s = on_client a (setRunning True) s in
      if periodic (sc_subscriptionType (sv_heap s ! a))
      then (let s = push a ToQueue s in (s, sends a Queue (ArmTicker a ctx) s, []))
      else (s, ArmTicker a ctx, []))"

definition arm_ticker :: "addr \<Rightarrow> nat \<Rightarrow> Server \<Rightarrow> moved outcome" where
  "arm_ticker a ctx s =
     (let i = sc_interval (sv_heap s ! a); s = on_client a (\<lambda>sc. sc\<lparr>sc_runningInterval := i\<rparr>) s in
      if i \<le> 0 then Crash
      else Done (on_client a (\<lambda>sc. sc\<lparr>sc_intervalTicker := Some i\<rparr>) s, SelectLoop a ctx, []))"

definition ticked :: "time \<Rightarrow> addr \<Rightarrow> nat \<Rightarrow> Server \<Rightarrow> moved outcome" where
  "ticked now a ctx s =
     (if Expired now (sv_heap s ! a) then Done (s, Leaves a, [])
      else case Start_tick now (sv_heap s ! a) of
        Done ((sc, qs), go_on) \<Rightarrow>
          (let s = pushes a qs (on_client a (\<lambda>_. sc) s)
           in Done (s, if qs = [] then SelectLoop a ctx else sends a Queue (SelectLoop a ctx) s, []))
      | _ \<Rightarrow> Crash)"

definition leave_loop :: "addr \<Rightarrow> Server \<Rightarrow> moved" where
  "leave_loop a s =
     (let (sc, qs) = Start_exit (sv_heap s ! a); s = pushes a qs (on_client a (\<lambda>_. sc) s)
      in (s, if qs = [] then Ended else sends a SignalingQueue Ended s, []))"

text \<open>The entries of a table, the removal of one, and the visit of one by the inventory.\<close>

definition entries_of :: "sendWorker \<Rightarrow> (u8 \<times> PortIdentity \<times> addr) list" where
  "entries_of w = concat (map (\<lambda>(t, subs). map (\<lambda>(k, a). (t, k, a)) subs) (w_clients w))"

definition delete_entry :: "u8 \<Rightarrow> PortIdentity \<Rightarrow> sendWorker \<Rightarrow> sendWorker" where
  "delete_entry t k w = w\<lparr>w_clients := map (\<lambda>(st, subs). (st, if st = t then AList.delete k subs else subs)) (w_clients w)\<rparr>"

definition visit_entry :: "nat \<Rightarrow> u8 \<Rightarrow> PortIdentity \<Rightarrow> addr \<Rightarrow> Server \<Rightarrow> Server" where
  "visit_entry w t k a s =
     (if \<not> sc_running (sv_heap s ! a) then on_worker w (delete_entry t k) s
      else on_stats (IncWorkerSubs (w_id (sv_sw s ! w))) (on_stats (IncSubscription t) s))"

definition all_workers :: "Server \<Rightarrow> nat list" where
  "all_workers s = [0..<length (sv_sw s)]"

fun stock_done :: "purpose \<Rightarrow> Server \<Rightarrow> goroutine" where
  "stock_done Metrics s = Reports"
| "stock_done (Drains 0) s = DrainEnds"
| "stock_done (Drains (Suc n)) s = Inventory (all_workers s) (Drains n)"
| "stock_done (Terminates 0) s = Terminated"
| "stock_done (Terminates (Suc n)) s = Inventory (all_workers s) (Terminates n)"

definition report :: "range_order \<Rightarrow> Server \<Rightarrow> Server" where
  "report ord s =
     (let s = on_stats (SetUTCOffsetSec (utc_seconds (sv_Config s))) s;
          s = on_stats (SetClockAccuracy (uint (cfg_ClockAccuracy (cfg_dynamic (sv_Config s))))) s;
          s = on_stats (SetClockClass (uint (cfg_ClockClass (cfg_dynamic (sv_Config s))))) s;
          s = on_stats (Snapshot ord) s
      in on_stats Stats_Reset s)"

text \<open>A step of one goroutine; \<^term>\<open>None\<close> when it waits or reads something else.\<close>

definition always :: "moved \<Rightarrow> moved outcome option" where
  "always m = Some (Done m)"

definition unless_held :: "bool \<Rightarrow> moved outcome \<Rightarrow> moved outcome option" where
  "unless_held free m = (if free then Some m else None)"

definition at_time :: "input \<Rightarrow> (time \<Rightarrow> moved outcome option) \<Rightarrow> moved outcome option" where
  "at_time inp m = (case inp of Go now \<Rightarrow> m now | _ \<Rightarrow> None)"

definition select_loop :: "input \<Rightarrow> addr \<Rightarrow> nat \<Rightarrow> Server \<Rightarrow> moved outcome option" where
  "select_loop inp a ctx s =
     (case inp of
        CtxReady \<Rightarrow> unless_held (sv_ctxs s ! ctx) (Done (s, Leaves a, []))
      | StopReady \<Rightarrow> unless_held (sc_stop (sv_heap s ! a) \<noteq> [])
          (Done (on_client a (\<lambda>sc. sc\<lparr>sc_stop := tl (sc_stop sc)\<rparr>) s, Leaves a, []))
      | TickReady \<Rightarrow> always (s, Ticked a ctx, [])
      | _ \<Rightarrow> None)"

definition next_worker :: "input \<Rightarrow> goroutine list \<Rightarrow> nat list \<Rightarrow> purpose \<Rightarrow> Server \<Rightarrow> moved outcome option" where
  "next_worker inp gs ws p s =
     (case ws of
        [] \<Rightarrow> at_time inp (\<lambda>now. always (s, stock_done p s, []))
      | w # ws \<Rightarrow>
          (case inp of
             Entries es \<Rightarrow> unless_held (table_free w gs \<and> distinct es \<and> set es = set (entries_of (sv_sw s ! w)))
               (Done (s, TakesStock w es ws p, []))
           | _ \<Rightarrow> None))"

definition next_entry ::
  "goroutine list \<Rightarrow> nat \<Rightarrow> (u8 \<times> PortIdentity \<times> addr) list \<Rightarrow> nat list \<Rightarrow> purpose \<Rightarrow> Server \<Rightarrow> moved outcome option" where
  "next_entry gs w es ws p s =
     (case es of
        [] \<Rightarrow> always (s, Inventory ws p, [])
      | (t, k, a) # es \<Rightarrow> unless_held (client_free a gs) (Done (visit_entry w t k a s, TakesStock w es ws p, [])))"

definition drain_loop :: "server_env \<Rightarrow> Server \<Rightarrow> moved" where
  "drain_loop env s =
     (if shouldDrain env s then (Drain_cancel s, Inventory (all_workers s) (Drains 9), [])
      else (on_stats (SetDrain 0) (Undrain s), DrainLoop, []))"

fun go_step :: "server_env \<Rightarrow> input \<Rightarrow> goroutine list \<Rightarrow> Server \<Rightarrow> goroutine \<Rightarrow> moved outcome option" where
  "go_step env inp gs s ReadEvent =
     (case inp of EventIn dReq buf sa rxTS \<Rightarrow> Some (read_event dReq buf sa rxTS s) | _ \<Rightarrow> None)"
| "go_step env inp gs s (Delayed dReq sa rxTS) = at_time inp (\<lambda>now. serve_delay env now dReq sa rxTS gs s)"
| "go_step env inp gs s ReadGeneral =
     (case inp of GeneralIn sg buf sa \<Rightarrow> Some (read_general sg buf sa s) | _ \<Rightarrow> None)"
| "go_step env inp gs s (Tlvs sa sg tlvs) = at_time inp (\<lambda>now. always (next_tlv sa sg tlvs s))"
| "go_step env inp gs s (Requests sa sg v t tlvs) = at_time inp (\<lambda>now. serve_request env now sa sg v t tlvs gs s)"
| "go_step env inp gs s (Cancels sa sg t tlvs) = at_time inp (\<lambda>now. find_cancelled env sa sg t tlvs gs s)"
| "go_step env inp gs s (Stops a sa sg tlvs) =
     at_time inp (\<lambda>now. unless_held (client_free a gs) (stop_client now a sa sg tlvs s))"
| "go_step env inp gs s (StopWaits a sa sg tlvs) =
     at_time inp (\<lambda>now. unless_held (sc_stop (sv_heap s ! a) = [])
       (Done (on_client a (\<lambda>sc. sc\<lparr>sc_stop := [True]\<rparr>) s, Tlvs sa sg tlvs, [])))"
| "go_step env inp gs s (GrantSent a sa sg tlvs) =
     at_time inp (\<lambda>now. unless_held (client_free a gs)
       (Done (s, Tlvs sa sg tlvs, if sc_running (sv_heap s ! a) then [] else [StartRuns a (sv_ctx s)])))"
| "go_step env inp gs s (StartRuns a ctx) = at_time inp (\<lambda>now. unless_held (client_free a gs) (Done (start_runs a ctx s)))"
| "go_step env inp gs s (ArmTicker a ctx) = at_time inp (\<lambda>now. Some (arm_ticker a ctx s))"
| "go_step env inp gs s (SelectLoop a ctx) = select_loop inp a ctx s"
| "go_step env inp gs s (Ticked a ctx) = at_time inp (\<lambda>now. unless_held (client_free a gs) (ticked now a ctx s))"
| "go_step env inp gs s (Leaves a) = at_time inp (\<lambda>now. unless_held (client_free a gs) (Done (leave_loop a s)))"
| "go_step env inp gs s Ended = None"
| "go_step env inp gs s MetricLoop = at_time inp (\<lambda>now. always (s, Inventory (all_workers s) Metrics, []))"
| "go_step env inp gs s Reports = (case inp of Order ord \<Rightarrow> always (report ord s, MetricLoop, []) | _ \<Rightarrow> None)"
| "go_step env inp gs s DrainLoop = at_time inp (\<lambda>now. always (drain_loop env s))"
| "go_step env inp gs s DrainEnds = at_time inp (\<lambda>now. always (on_stats (SetDrain 1) s, DrainLoop, []))"
| "go_step env inp gs s AwaitSigterm =
     at_time inp (\<lambda>now. always (Drain_cancel s, Inventory (all_workers s) (Terminates 9), []))"
| "go_step env inp gs s Terminated = None"
| "go_step env inp gs s (Inventory ws p) = next_worker inp gs ws p s"
| "go_step env inp gs s (TakesStock w es ws p) = at_time inp (\<lambda>now. next_entry gs w es ws p s)"
| "go_step env inp gs s (Sends w ch r g) = None"

subsection \<open>The system\<close>

datatype move = Step nat input | Turn nat channel worker_io | Reload

fun sys_exec :: "server_env \<Rightarrow> move \<Rightarrow> system \<Rightarrow> system outcome option" where
  "sys_exec env (Step i inp) y =
     (if i < length (sy_go y) then
        (case go_step env inp (sy_go y) (sy_server y) (sy_go y ! i) of
           None \<Rightarrow> None
         | Some (Done (s, g, new)) \<Rightarrow> Some (Done \<lparr>sy_server = s, sy_go = (sy_go y)[i := g] @ new\<rparr>)
         | Some (Hang m) \<Rightarrow> None
         | Some Crash \<Rightarrow> Some Crash)
      else None)"
| "sys_exec env (Turn w ch io) y =
     (if w < length (sv_sw (sy_server y)) then
        (case worker_turn env w ch io (sy_server y) of
           None \<Rightarrow> None
         | Some (Done s) \<Rightarrow> Some (Done \<lparr>sy_server = s, sy_go = map (release w ch) (sy_go y)\<rparr>)
         | Some (Hang s) \<Rightarrow> None
         | Some Crash \<Rightarrow> Some Crash)
      else None)"
| "sys_exec env Reload y = Some (Done (y\<lparr>sy_server := reload_config env (sy_server y)\<rparr>))"

definition sys_start :: "Server \<Rightarrow> system" where
  "sys_start s =
     (let n = nat (RecvWorkers (cfg_static (sv_Config s)))
      in \<lparr>sy_server = s, sy_go = replicate n ReadEvent @ replicate n ReadGeneral @ [DrainLoop, AwaitSigterm, MetricLoop]\<rparr>)"

inductive sys_reachable :: "server_env \<Rightarrow> system \<Rightarrow> system \<Rightarrow> bool" for env y0 where
  sys_begin: "sys_reachable env y0 y0"
| sys_move: "sys_reachable env y0 y \<Longrightarrow> sys_exec env m y = Some (Done y') \<Longrightarrow> sys_reachable env y0 y'"

subsection \<open>The invariant of the server at this grain\<close>

text \<open>What a goroutine refers to exists, and what follows a send is not itself a send and holds no lock.\<close>

fun resumable :: "goroutine \<Rightarrow> bool" where
  "resumable ReadEvent = True"
| "resumable (Tlvs sa sg tlvs) = True"
| "resumable (GrantSent a sa sg tlvs) = True"
| "resumable (ArmTicker a ctx) = True"
| "resumable (SelectLoop a ctx) = True"
| "resumable Ended = True"
| "resumable g = False"

abbreviation signaled :: "Signaling \<Rightarrow> bool" where
  "signaled sg \<equiv> Header_MessageType (sig_Header sg) = MessageSignaling"

definition owned :: "heap \<Rightarrow> addr \<Rightarrow> bool" where
  "owned h a \<longleftrightarrow> a < length h \<and> (sc_subscriptionType (h ! a) \<noteq> MessageDelayReq \<longrightarrow> granted (h ! a))"

fun go_ok :: "nat \<Rightarrow> Server \<Rightarrow> goroutine \<Rightarrow> bool" where
  "go_ok n s (Tlvs sa sg tlvs) = signaled sg"
| "go_ok n s (Requests sa sg v t tlvs) = (signaled sg \<and> served t \<and> t \<noteq> MessageDelayReq)"
| "go_ok n s (Cancels sa sg t tlvs) = signaled sg"
| "go_ok n s (Stops a sa sg tlvs) = (signaled sg \<and> a < length (sv_heap s))"
| "go_ok n s (StopWaits a sa sg tlvs) = (signaled sg \<and> a < length (sv_heap s))"
| "go_ok n s (GrantSent a sa sg tlvs) = (signaled sg \<and> a < length (sv_heap s) \<and> granted (sv_heap s ! a))"
| "go_ok n s (StartRuns a ctx) = (owned (sv_heap s) a \<and> ctx < length (sv_ctxs s))"
| "go_ok n s (ArmTicker a ctx) = (owned (sv_heap s) a \<and> ctx < length (sv_ctxs s))"
| "go_ok n s (SelectLoop a ctx) = (owned (sv_heap s) a \<and> ctx < length (sv_ctxs s))"
| "go_ok n s (Ticked a ctx) = (owned (sv_heap s) a \<and> ctx < length (sv_ctxs s))"
| "go_ok n s (Leaves a) = owned (sv_heap s) a"
| "go_ok n s (Inventory ws p) = (\<forall>w \<in> set ws. w < n)"
| "go_ok n s (TakesStock w es ws p) = (w < n \<and> (\<forall>(t, k, a) \<in> set es. a < length (sv_heap s)) \<and> (\<forall>w \<in> set ws. w < n))"
| "go_ok n s (Sends w ch r g) = (w < n \<and> 0 < r \<and> resumable g \<and> go_ok n s g)"
| "go_ok n s g = True"

text \<open>What every step does to the server.\<close>

definition advances :: "server_env \<Rightarrow> nat \<Rightarrow> Server \<Rightarrow> Server \<Rightarrow> bool" where
  "advances env n s s' \<longleftrightarrow> server_inv env n s' \<and> heap_le (sv_heap s) (sv_heap s')
     \<and> length (sv_ctxs s) \<le> length (sv_ctxs s') \<and> sv_spawned s' = sv_spawned s \<and> sv_loops s' = sv_loops s
     \<and> cfg_static (sv_Config s') = cfg_static (sv_Config s)"

lemma owned_le: "heap_le h h' \<Longrightarrow> owned h a \<Longrightarrow> owned h' a"
  using heap_le_nth [of h h' a] by (auto simp: owned_def)

lemma go_ok_advances:
  assumes "advances env n s s'" and "go_ok n s g"
  shows "go_ok n s' g"
proof -
  have h: "heap_le (sv_heap s) (sv_heap s')" "length (sv_ctxs s) \<le> length (sv_ctxs s')"
    using assms(1) by (simp_all add: advances_def)
  note le = heap_le_nth [OF h(1)] owned_le [OF h(1)]
  show ?thesis
    using assms(2) by (induction g) (use le h(2) in \<open>fastforce+\<close>)
qed

definition moves_ok :: "server_env \<Rightarrow> nat \<Rightarrow> Server \<Rightarrow> moved \<Rightarrow> bool" where
  "moves_ok env n s m \<longleftrightarrow> (case m of (s', g, new) \<Rightarrow> advances env n s s' \<and> go_ok n s' g \<and> (\<forall>g \<in> set new. go_ok n s' g))"

lemma advances_refl: "server_inv env n s \<Longrightarrow> advances env n s s"
  by (simp add: advances_def)

lemma advances_trans: "advances env n s s' \<Longrightarrow> advances env n s' s'' \<Longrightarrow> advances env n s s''"
  using heap_le_trans by (auto simp: advances_def)

lemma advances_inv: "advances env n s s' \<Longrightarrow> server_inv env n s'"
  by (simp add: advances_def)

lemma advances_stats: "advances env n s s' \<Longrightarrow> advances env n s (on_stats f s')"
  by (simp add: advances_def inv_on_stats) (simp add: on_stats_def)

lemma advances_client:
  assumes "advances env n s s'" and "steady (sv_heap s' ! a) (f (sv_heap s' ! a))"
  shows "advances env n s (on_client a f s')"
  using assms inv_on_client [of env n s' a f] heap_le_updateI
  by (auto simp: advances_def) (simp_all add: on_client_def)

lemma advances_push:
  assumes "advances env n s s'" and "a < length (sv_heap s')" and "q = ToSignalingQueue \<longrightarrow> granted (sv_heap s' ! a)"
  shows "advances env n s (push a q s')"
proof -
  have "sv_ctxs (push a q s') = sv_ctxs s'" by (cases q) (simp_all add: push.simps on_worker_def)
  then show ?thesis using assms inv_push [of env n s' a q] by (simp add: advances_def)
qed

lemma advances_pushes:
  assumes "advances env n s s'" and "a < length (sv_heap s')" and "ToSignalingQueue \<in> set qs \<longrightarrow> granted (sv_heap s' ! a)"
  shows "advances env n s (pushes a qs s')"
  using assms unfolding pushes_def
proof (induction qs arbitrary: s')
  case (Cons q qs)
  then show ?case using advances_push [of env n s s' a q] by auto
qed simp

lemma go_ok_sends:
  assumes "server_inv env n s" and "a < length (sv_heap s)" and "resumable g" and "go_ok n s g"
  shows "go_ok n s (sends a ch g s)"
proof -
  have "sc_worker (sv_heap s ! a) < n" using assms(1,2) by (auto simp: server_inv_def heap_ok_def)
  then show ?thesis using assms by (simp add: sends_def Let_def)
qed

subsection \<open>Every step keeps it\<close>

lemma heap_le_newI: "heap_le h h' \<Longrightarrow> wf_client c \<Longrightarrow> heap_le h (h' @ [c])"
  using heap_le_trans heap_le_new by blast

lemma ctxs_ops [simp]:
  "sv_ctxs (on_client a f s) = sv_ctxs s" "sv_ctxs (on_worker w k s) = sv_ctxs s" "sv_ctxs (on_stats o' s) = sv_ctxs s"
  "sv_ctxs (push a q s) = sv_ctxs s" "sv_ctxs (spawn a s) = sv_ctxs s"
  by (simp_all add: on_client_def on_worker_def on_stats_def spawn_def) (cases q; simp add: push.simps on_worker_def)

lemma loops_ops [simp]:
  "sv_loops (on_client a f s) = sv_loops s" "sv_loops (on_worker w k s) = sv_loops s" "sv_loops (on_stats o' s) = sv_loops s"
  "sv_loops (spawn a s) = sv_loops s"
  by (simp_all add: on_client_def on_worker_def on_stats_def spawn_def)

lemma heap_le_client: "heap_le h (sv_heap s) \<Longrightarrow> steady (sv_heap s ! a) (f (sv_heap s ! a)) \<Longrightarrow> heap_le h (sv_heap (on_client a f s))"
  by (simp add: heap_le_updateI)

lemma sptp_request_frame:
  "heap_le (sv_heap s) (sv_heap (sptp_request now dReq sa rxTS w s))" (is ?heap)
  "sv_ctxs (sptp_request now dReq sa rxTS w s) = sv_ctxs s" "sv_loops (sptp_request now dReq sa rxTS w s) = sv_loops s"
proof -
  show ?heap
  proof (cases "FindSubscription (SourcePortIdentity (sync_Header dReq)) MessageDelayReq (sv_sw s ! w)")
    case None
    show ?thesis
      unfolding sptp_request_def Let_def newClient_def None
      by (auto simp del: sv_heap_ops(1) simp: wf_client_new intro!: heap_le_client heap_le_newI)
  next
    case (Some a)
    show ?thesis
      unfolding sptp_request_def Let_def Some by (auto simp del: sv_heap_ops(1) intro!: heap_le_client)
  qed
qed (simp_all add: sptp_request_def Let_def newClient_def split: option.split)

lemma delay_request_frame:
  assumes "delay_request env now dReq sa rxTS s = Done s'"
  shows "heap_le (sv_heap s) (sv_heap s')" "sv_ctxs s' = sv_ctxs s" "sv_loops s' = sv_loops s" "sv_Config s' = sv_Config s"
proof -
  have "sv_Config (sptp_request now dReq sa rxTS w s) = sv_Config s" for w
    by (simp add: sptp_request_def Let_def newClient_def split: option.split)
  then show "heap_le (sv_heap s) (sv_heap s')" "sv_ctxs s' = sv_ctxs s" "sv_loops s' = sv_loops s" "sv_Config s' = sv_Config s"
    using assms sptp_request_frame
    by (auto simp: delay_request_def Let_def split: option.splits if_splits intro!: heap_le_updateI)
qed

lemma server_inv_spawned: "server_inv env n s \<Longrightarrow> server_inv env n (s\<lparr>sv_spawned := []\<rparr>)"
  by (simp add: server_inv_def)

lemma go_ok_spawned: "go_ok n (s\<lparr>sv_spawned := rs\<rparr>) g = go_ok n s g"
  by (induction g) auto

lemma delay_no_crash:
  assumes "server_inv env n s"
  shows "\<exists>s'. delay_request env now dReq sa rxTS s = Done s'"
  using assms by (auto simp: delay_request_def findWorker_eq Let_def server_inv_def split: option.split)

lemma serve_delay_ok:
  assumes "server_inv env n s" and "sv_spawned s = []" and "serve_delay env now dReq sa rxTS gs s = Some r"
  shows "\<exists>m. r = Done m \<and> moves_ok env n s m"
proof -
  let ?k = "SourcePortIdentity (sync_Header dReq)"
  obtain s' where d: "delay_request env now dReq sa rxTS s = Done s'" using delay_no_crash [OF assms(1)] by blast
  note fr = delay_request_frame [OF d]
  have inv: "server_inv env n s'" using inv_delay_request [OF assms(1) d] .
  obtain w where w: "findWorker env ?k (workerOffset_of 0 (sync_TLVs dReq)) s = Some w"
    using assms(1) by (auto simp: findWorker_eq server_inv_def)
  then have "w < n" using findWorker_less [OF assms(1)] by blast
  then have "go_ok n s' (case FindSubscription ?k t (sv_sw s' ! w) of None \<Rightarrow> ReadEvent | Some a \<Rightarrow> sends a Queue ReadEvent s')" for t
    using found_entry [OF inv, of w ?k t] go_ok_sends [OF inv] by (auto simp: entry_ok_def split: option.split)
  moreover have "\<forall>g \<in> set (taken (sv_spawned s')). go_ok n s' g"
    using inv by (auto simp: server_inv_def routine_ok_def owned_def)
  moreover have "advances env n s (s'\<lparr>sv_spawned := []\<rparr>)"
    using fr assms(2) server_inv_spawned [OF inv] by (simp add: advances_def)
  ultimately show ?thesis
    using assms(3) d w by (auto simp: serve_delay_def Let_def moves_ok_def go_ok_spawned split: if_splits)
qed

lemma read_event_ok:
  assumes "server_inv env n s"
  shows "\<exists>m. read_event dReq buf sa rxTS s = Done m \<and> moves_ok env n s m"
proof -
  have "SyncDelayReq_UnmarshalBinary (dReq\<lparr>sync_TLVs := []\<rparr>) buf \<noteq> None"
    using UnmarshalBinary_no_panic_tlvs(2) by simp
  then show ?thesis
    using advances_stats [OF advances_refl [OF assms]] advances_refl [OF assms]
    by (auto simp: read_event_def Let_def moves_ok_def split: sum.split option.split)
qed

lemma read_general_ok:
  assumes "server_inv env n s"
  shows "\<exists>m. read_general sg buf sa s = Done m \<and> moves_ok env n s m"
proof -
  have "Signaling_UnmarshalBinary (sg\<lparr>sig_TLVs := []\<rparr>) buf \<noteq> None"
    using UnmarshalBinary_no_panic_tlvs(3) by simp
  then show ?thesis
    using advances_refl [OF assms]
    by (auto simp: read_general_def moves_ok_def Signaling_Unmarshal_type split: sum.split option.split)
qed

lemma next_tlv_ok:
  assumes "server_inv env n s" and "signaled sg"
  shows "moves_ok env n s (next_tlv sa sg tlvs s)"
  using assms advances_stats [OF advances_refl [OF assms(1)]] advances_refl [OF assms(1)]
  by (cases "(sa, sg, tlvs, s)" rule: next_tlv.cases) (auto simp: moves_ok_def Let_def)

lemma grant_client_frame:
  "heap_le (sv_heap s) (sv_heap (snd (grant_client env now g k t i e w s)))"
  "sv_ctxs (snd (grant_client env now g k t i e w s)) = sv_ctxs s"
  "sv_spawned (snd (grant_client env now g k t i e w s)) = sv_spawned s"
  "sv_loops (snd (grant_client env now g k t i e w s)) = sv_loops s"
proof -
  show "heap_le (sv_heap s) (sv_heap (snd (grant_client env now g k t i e w s)))"
    unfolding grant_client_def
    by (auto simp del: sv_heap_ops(1) simp: wf_client_new split: option.split intro!: heap_le_client heap_le_newI)
qed (simp_all add: grant_client_def split: option.split)

lemma serve_request_ok:
  assumes "server_inv env n s" and "signaled sg" and "served t" and "t \<noteq> MessageDelayReq"
    and "serve_request env now sa sg v t tlvs gs s = Some r"
  shows "\<exists>m. r = Done m \<and> moves_ok env n s m"
proof -
  let ?k = "SourcePortIdentity (sig_Header sg)" and ?i = "req_interval env v"
  have n: "length (sv_sw s) = n" "0 < n" "n < 2 ^ 64" using assms(1) by (simp_all add: server_inv_def)
  let ?w = "worker_index env n ?k 0"
  obtain a s1 where gc: "grant_client env now sa ?k t ?i (now + req_duration v) ?w s = (a, s1)" by fastforce
  have "assigned env n ?w t ?k" by (auto simp: assigned_def)
  note inv = inv_grant_client [OF assms(1) worker_index_less [OF n(2,3)] assms(3) this gc]
  have adv: "advances env n s s1"
    using inv grant_client_frame(1) [of s env now sa ?k t ?i "now + req_duration v" ?w]
      grant_client_frame(2-4) [of env now sa ?k t ?i "now + req_duration v" ?w s]
      grant_client_keeps(1) [of env now sa ?k t ?i "now + req_duration v" ?w s] gc by (simp add: advances_def)
  define s2 where "s2 d = sendSignalingGrant sg (req_MsgTypeAndReserved v) (req_LogInterMessagePeriod v) d a s1" for d
  have s2: "advances env n s (s2 d)" "a < length (sv_heap (s2 d))" "granted (sv_heap (s2 d) ! a)" for d
    using adv inv assms(2) unfolding s2_def sendSignalingGrant_def
    by (auto intro!: advances_push advances_client steady_grant)
  have "go_ok n (s2 d) (sends a SignalingQueue (GrantSent a sa sg tlvs) (s2 d))" "go_ok n (s2 d) (sends a SignalingQueue (Tlvs sa sg tlvs) (s2 d))" for d
    using s2 [of d] advances_inv [OF s2(1)] assms(2) by (auto intro!: go_ok_sends)
  then show ?thesis
    using assms(5) s2 gc n
    by (auto simp: serve_request_def findWorker_eq Let_def moves_ok_def req_duration_wrap s2_def split: if_splits)
qed

lemma find_cancelled_ok:
  assumes "server_inv env n s" and "signaled sg" and "find_cancelled env sa sg t tlvs gs s = Some r"
  shows "\<exists>m. r = Done m \<and> moves_ok env n s m"
proof -
  obtain w where w: "findWorker env (SourcePortIdentity (sig_Header sg)) 0 s = Some w" "w < n"
    using assms(1) findWorker_less [OF assms(1)] by (fastforce simp: findWorker_eq server_inv_def)
  then show ?thesis
    using assms found_entry [OF assms(1) w(2)] advances_refl [OF assms(1)]
    by (auto simp: find_cancelled_def moves_ok_def entry_ok_def split: if_splits option.splits)
qed

lemma stop_client_ok:
  assumes "server_inv env n s" and "signaled sg" and "a < length (sv_heap s)"
  shows "\<exists>m. stop_client now a sa sg tlvs s = Done m \<and> moves_ok env n s m"
proof -
  have "steady (sv_heap s ! a) c" if "Stop now (sv_heap s ! a) = Done c \<or> Stop now (sv_heap s ! a) = Hang c" for c
    using that by (auto simp: Stop_def Let_def steady_def split: if_splits)
  then show ?thesis
    using assms Stop_no_crash advances_client [OF advances_refl [OF assms(1)], of a]
    by (auto simp: stop_client_def moves_ok_def split: outcome.split)
qed

lemma start_runs_ok:
  assumes "server_inv env n s" and "owned (sv_heap s) a" and "ctx < length (sv_ctxs s)"
  shows "moves_ok env n s (start_runs a ctx s)"
proof -
  let ?s = "on_client a (setRunning True) s"
  have adv: "advances env n s ?s"
    using advances_refl [OF assms(1)] by (intro advances_client) (simp_all add: steady_def setRunning_def)
  have own: "owned (sv_heap ?s) a" using adv assms(2) owned_le by (auto simp: advances_def)
  then have a: "a < length (sv_heap ?s)" by (simp add: owned_def)
  have p: "advances env n s (push a ToQueue ?s)" using adv a by (intro advances_push) simp_all
  have "go_ok n (push a ToQueue ?s) (sends a Queue (ArmTicker a ctx) (push a ToQueue ?s))"
    using advances_inv [OF p] a own assms(3) by (intro go_ok_sends) simp_all
  then show ?thesis using adv p own assms(3) by (simp add: start_runs_def moves_ok_def Let_def)
qed

lemma arm_ticker_ok:
  assumes "server_inv env n s" and "owned (sv_heap s) a" and "ctx < length (sv_ctxs s)" and "arm_ticker a ctx s = Done m"
  shows "moves_ok env n s m"
proof -
  let ?i = "sc_interval (sv_heap s ! a)"
  let ?s = "on_client a (\<lambda>sc. sc\<lparr>sc_intervalTicker := Some ?i\<rparr>) (on_client a (\<lambda>sc. sc\<lparr>sc_runningInterval := ?i\<rparr>) s)"
  have adv: "advances env n s ?s"
    using advances_refl [OF assms(1)] by (intro advances_client) (simp_all add: steady_def)
  then have "owned (sv_heap ?s) a" using assms(2) owned_le by (auto simp: advances_def)
  then show ?thesis using assms(3,4) adv by (auto simp: arm_ticker_def moves_ok_def Let_def split: if_splits)
qed

lemma ticked_ok:
  assumes "server_inv env n s" and "owned (sv_heap s) a" and "ctx < length (sv_ctxs s)" and "ticked now a ctx s = Done m"
  shows "moves_ok env n s m"
proof (cases "Expired now (sv_heap s ! a)")
  case True
  then show ?thesis using assms advances_refl [OF assms(1)] by (auto simp: ticked_def moves_ok_def)
next
  case False
  then obtain c qs b where t: "Start_tick now (sv_heap s ! a) = Done ((c, qs), b)" "qs = [] \<or> qs = [ToQueue]"
    using assms(4) by (auto simp: ticked_def Start_tick_def timer_sends_def Let_def split: outcome.splits if_splits)
  let ?s = "pushes a qs (on_client a (\<lambda>_. c) s)"
  have "steady (sv_heap s ! a) c" using Start_tick_steady [OF _ t(1)] assms(2) by (auto simp: owned_def)
  then have adv: "advances env n s (on_client a (\<lambda>_. c) s)" using advances_refl [OF assms(1)] by (intro advances_client)
  then have own: "owned (sv_heap (on_client a (\<lambda>_. c) s)) a" using assms(2) owned_le by (auto simp: advances_def)
  have p: "advances env n s ?s" using adv own t(2) by (intro advances_pushes) (auto simp: owned_def)
  have "go_ok n ?s (sends a Queue (SelectLoop a ctx) ?s)"
    using advances_inv [OF p] own assms(3) by (intro go_ok_sends) (auto simp: owned_def)
  then show ?thesis using assms(3,4) False t p own by (auto simp: ticked_def moves_ok_def Let_def)
qed

lemma leave_loop_ok:
  assumes "server_inv env n s" and "owned (sv_heap s) a"
  shows "moves_ok env n s (leave_loop a s)"
proof -
  obtain c qs where e: "Start_exit (sv_heap s ! a) = (c, qs)" by fastforce
  have c: "steady (sv_heap s ! a) c" "ToSignalingQueue \<in> set qs \<longrightarrow> granted c"
    using Start_exit_steady [OF _ e] assms(2) by (auto simp: owned_def)
  let ?s = "pushes a qs (on_client a (\<lambda>_. c) s)"
  have p: "advances env n s ?s"
    using c assms(2) advances_refl [OF assms(1)] by (intro advances_pushes advances_client) (auto simp: owned_def)
  have "go_ok n ?s (sends a SignalingQueue Ended ?s)"
    using advances_inv [OF p] assms(2) by (intro go_ok_sends) (auto simp: owned_def)
  then show ?thesis using p by (auto simp: leave_loop_def e moves_ok_def Let_def)
qed

lemma delete_entries: "table_entries (delete_entry t k w) \<subseteq> table_entries w"
  by (auto simp: table_entries_def delete_entry_def AList.delete_eq split: if_splits)

lemma delete_entry_frame [simp]:
  "w_buf (delete_entry t k w) = w_buf w" "w_queue (delete_entry t k w) = w_queue w"
  "w_signalingQueue (delete_entry t k w) = w_signalingQueue w"
  by (simp_all add: delete_entry_def)

lemma visit_entry_ok:
  assumes "server_inv env n s"
  shows "advances env n s (visit_entry w t k a s)"
proof -
  have "worker_inv env n (sv_heap s) w (delete_entry t k (sv_sw s ! w))" if "w < n"
  proof -
    have "worker_inv env n (sv_heap s) w (sv_sw s ! w)" using assms that by (simp add: server_inv_def)
    then show ?thesis using delete_entries [of t k "sv_sw s ! w"] by (auto simp: worker_inv_def table.holds_def)
  qed
  then have "server_inv env n (on_worker w (delete_entry t k) s)" using assms by (intro inv_on_worker)
  then have "advances env n s (on_worker w (delete_entry t k) s)" by (simp add: advances_def)
  then show ?thesis using advances_stats advances_refl [OF assms] by (simp add: visit_entry_def)
qed

lemma entries_of_set: "set (entries_of w) = table_entries w"
  by (fastforce simp: entries_of_def table_entries_def)

lemma advances_contexts:
  assumes "server_inv env n s"
  shows "advances env n s (Drain_cancel s)" "advances env n s (Undrain s)"
  using inv_contexts [OF assms] by (simp_all add: advances_def Drain_cancel_def Undrain_def)

lemma advances_report: "server_inv env n s \<Longrightarrow> advances env n s (report ord s)"
  by (simp add: report_def Let_def advances_stats advances_refl)

lemma all_workers_less: "server_inv env n s \<Longrightarrow> \<forall>w \<in> set (all_workers s). w < n"
  by (simp add: all_workers_def server_inv_def)

lemma stock_done_ok: "server_inv env n s \<Longrightarrow> go_ok n s (stock_done p s)"
  using all_workers_less by (cases "(p, s)" rule: stock_done.cases) auto

lemma all_workers_ops [simp]: "all_workers (Drain_cancel s) = all_workers s"
  by (simp add: all_workers_def Drain_cancel_def)

lemma at_time_Some: "at_time inp m = Some r \<longleftrightarrow> (\<exists>now. inp = Go now \<and> m now = Some r)"
  by (cases inp) (simp_all add: at_time_def)

lemma unless_held_Some: "unless_held b m = Some r \<longleftrightarrow> b \<and> m = r"
  by (simp add: unless_held_def)

lemmas step_results = at_time_Some unless_held_Some always_def

lemma select_loop_ok:
  assumes "server_inv env n s" and "owned (sv_heap s) a" and "ctx < length (sv_ctxs s)" and "select_loop inp a ctx s = Some r"
  shows "\<exists>m. r = Done m \<and> moves_ok env n s m"
proof -
  let ?s = "on_client a (\<lambda>sc. sc\<lparr>sc_stop := tl (sc_stop sc)\<rparr>) s"
  have adv: "advances env n s ?s"
    using advances_refl [OF assms(1)] by (intro advances_client) (simp_all add: steady_def)
  then have "owned (sv_heap ?s) a" using assms(2) owned_le by (auto simp: advances_def)
  then show ?thesis
    using assms adv advances_refl [OF assms(1)]
    by (auto simp: select_loop_def step_results moves_ok_def split: input.splits)
qed

lemma next_worker_ok:
  assumes "server_inv env n s" and "\<forall>w \<in> set ws. w < n" and "next_worker inp gs ws p s = Some r"
  shows "\<exists>m. r = Done m \<and> moves_ok env n s m"
proof (cases ws)
  case Nil
  then show ?thesis
    using assms stock_done_ok [OF assms(1)] advances_refl [OF assms(1)] by (auto simp: next_worker_def step_results moves_ok_def)
next
  case (Cons w ws')
  then have "worker_inv env n (sv_heap s) w (sv_sw s ! w)" using assms(1,2) by (simp add: server_inv_def)
  then have "\<forall>(t, k, a) \<in> set (entries_of (sv_sw s ! w)). a < length (sv_heap s)"
    by (auto simp: entries_of_set worker_inv_def table.holds_def entry_ok_def)
  then show ?thesis
    using assms(2,3) Cons advances_refl [OF assms(1)]
    by (auto simp: next_worker_def step_results moves_ok_def split: input.splits)
qed

lemma next_entry_ok:
  assumes "server_inv env n s" and "go_ok n s (TakesStock w es ws p)" and "next_entry gs w es ws p s = Some r"
  shows "\<exists>m. r = Done m \<and> moves_ok env n s m"
proof (cases es)
  case (Cons e es')
  then show ?thesis
    using assms visit_entry_ok [OF assms(1)] heap_le_nth(1)
    by (fastforce simp: next_entry_def step_results moves_ok_def advances_def split: prod.splits)
qed (use assms advances_refl [OF assms(1)] in \<open>auto simp: next_entry_def step_results moves_ok_def\<close>)

text \<open>A step that crashes arms or resets a ticker with an interval that is not positive.\<close>

fun bad_ticker :: "Server \<Rightarrow> goroutine \<Rightarrow> bool" where
  "bad_ticker s (ArmTicker a ctx) = (sc_interval (sv_heap s ! a) \<le> 0)"
| "bad_ticker s (Ticked a ctx) = (sc_interval (sv_heap s ! a) \<le> 0)"
| "bad_ticker s g = False"

lemma go_step_ok:
  assumes "server_inv env n s" and "sv_spawned s = []" and "go_ok n s g" and "go_step env inp gs s g = Some r"
  shows "case r of Done m \<Rightarrow> moves_ok env n s m | Hang m \<Rightarrow> False | Crash \<Rightarrow> bad_ticker s g"
proof -
  note a = advances_refl [OF assms(1)]
  note simps = step_results moves_ok_def
  show ?thesis
  proof (cases g)
    case ReadEvent
    then obtain dReq buf sa rxTS where "r = read_event dReq buf sa rxTS s" using assms(4) by (auto split: input.splits)
    then show ?thesis using read_event_ok [OF assms(1), of dReq buf sa rxTS] by auto
  next
    case (Delayed dReq sa rxTS)
    then show ?thesis using assms serve_delay_ok [OF assms(1,2)] by (fastforce simp: step_results)
  next
    case ReadGeneral
    then obtain sg buf sa where "r = read_general sg buf sa s" using assms(4) by (auto split: input.splits)
    then show ?thesis using read_general_ok [OF assms(1), of sg buf sa] by auto
  next
    case (Tlvs sa sg tlvs)
    then show ?thesis using assms next_tlv_ok by (auto simp: step_results)
  next
    case (Requests sa sg v t tlvs)
    then show ?thesis using assms serve_request_ok [OF assms(1)] by (fastforce simp: step_results)
  next
    case (Cancels sa sg t tlvs)
    then show ?thesis using assms find_cancelled_ok [OF assms(1)] by (fastforce simp: step_results)
  next
    case (Stops b sa sg tlvs)
    then obtain now where "r = stop_client now b sa sg tlvs s" using assms(4) by (auto simp: step_results)
    then show ?thesis using assms(3) Stops stop_client_ok [OF assms(1), of sg b now sa tlvs] by auto
  next
    case (StopWaits b sa sg tlvs)
    then show ?thesis
      using assms advances_client [OF a, of b "\<lambda>sc. sc\<lparr>sc_stop := [True]\<rparr>"] by (auto simp: simps steady_def)
  next
    case (GrantSent b sa sg tlvs)
    then show ?thesis using assms a by (auto simp: simps owned_def server_inv_def)
  next
    case (StartRuns b ctx)
    then show ?thesis using assms start_runs_ok by (auto simp: step_results)
  next
    case (ArmTicker b ctx)
    then show ?thesis
      using assms arm_ticker_ok [OF assms(1), of b ctx] by (cases r) (auto simp: step_results arm_ticker_def Let_def split: if_splits)
  next
    case (SelectLoop b ctx)
    then show ?thesis using assms select_loop_ok [OF assms(1)] by fastforce
  next
    case (Ticked b ctx)
    have "ticked now b ctx s \<noteq> Hang m" "ticked now b ctx s = Crash \<Longrightarrow> sc_interval (sv_heap s ! b) \<le> 0" for now m
      using Start_tick_Crash [of now "sv_heap s ! b"] by (auto simp: ticked_def Let_def split: outcome.splits if_splits)
    then show ?thesis
      using assms Ticked ticked_ok [OF assms(1), of b ctx] by (cases r) (auto simp: step_results)
  next
    case (Leaves b)
    then show ?thesis using assms leave_loop_ok by (auto simp: step_results)
  next
    case MetricLoop
    then show ?thesis using assms a all_workers_less [OF assms(1)] by (auto simp: simps)
  next
    case Reports
    then show ?thesis using assms advances_report by (auto simp: simps split: input.splits)
  next
    case DrainLoop
    then show ?thesis
      using assms advances_contexts [OF assms(1)] advances_stats all_workers_less [OF assms(1)] by (auto simp: simps drain_loop_def)
  next
    case DrainEnds
    then show ?thesis using assms advances_stats [OF a] by (auto simp: simps)
  next
    case AwaitSigterm
    then show ?thesis
      using assms advances_contexts [OF assms(1)] all_workers_less [OF assms(1)] by (auto simp: simps)
  next
    case (Inventory ws p)
    then show ?thesis using assms next_worker_ok [OF assms(1)] by fastforce
  next
    case (TakesStock w es ws p)
    then show ?thesis using assms next_entry_ok [OF assms(1), of w es ws p gs r] by (auto simp: step_results)
  qed (use assms(4) in simp_all)
qed

definition sys_inv :: "server_env \<Rightarrow> nat \<Rightarrow> system \<Rightarrow> bool" where
  "sys_inv env n y \<longleftrightarrow> server_inv env n (sy_server y) \<and> sv_spawned (sy_server y) = [] \<and> sv_loops (sy_server y) = []
     \<and> (\<forall>g \<in> set (sy_go y). go_ok n (sy_server y) g)"

lemma release_ok: "go_ok n s g \<Longrightarrow> go_ok n s (release w ch g)"
  by (cases g) auto

lemma advances_turn:
  assumes "server_inv env n s" and "w < length (sv_sw s)" and "worker_turn env w ch io s = Some r"
  obtains s' where "r = Done s'" and "advances env n s s'"
proof -
  obtain s' where s': "r = Done s'" "server_inv env n s'" using worker_turn_ok [OF assms] by blast
  have "worker_inv env n (sv_heap s) w (sv_sw s ! w)" "\<forall>c \<in> set (sv_heap s). wf_client c"
    using assms(1,2) by (auto simp: server_inv_def heap_ok_def)
  then have "heap_le (sv_heap s) (sv_heap s')"
    using assms(3) s'(1) worker_step_ok by (fastforce simp: worker_turn_def turn_ok_def split: option.splits)
  then have "advances env n s s'"
    using s' assms(3) by (auto simp: worker_turn_def advances_def split: option.splits)
  with s'(1) show ?thesis by (rule that)
qed

lemma advances_reload: "server_inv env n s \<Longrightarrow> advances env n s (reload_config env s)"
  using inv_reload_config [of env n s]
  by (auto simp: advances_def reload_config_def on_stats_def split: sum.splits)

lemma sys_inv_step:
  assumes "sys_inv env n y" and "sys_exec env m y = Some (Done y')"
  shows "sys_inv env n y'" and "advances env n (sy_server y) (sy_server y')"
proof -
  let ?s = "sy_server y"
  have inv: "server_inv env n ?s" "sv_spawned ?s = []" using assms(1) by (simp_all add: sys_inv_def)
  have "advances env n ?s (sy_server y') \<and> (\<forall>g \<in> set (sy_go y'). go_ok n (sy_server y') g)"
  proof (cases m)
    case (Step i inp)
    then obtain s g new where r: "go_step env inp (sy_go y) ?s (sy_go y ! i) = Some (Done (s, g, new))" "i < length (sy_go y)"
      "y' = \<lparr>sy_server = s, sy_go = (sy_go y)[i := g] @ new\<rparr>"
      using assms(2) by (auto split: if_splits option.splits outcome.splits)
    have "go_ok n ?s (sy_go y ! i)" using assms(1) r(2) by (simp add: sys_inv_def)
    from go_step_ok [OF inv this r(1)] have ok: "advances env n ?s s" "go_ok n s g" "\<forall>g \<in> set new. go_ok n s g"
      by (simp_all add: moves_ok_def)
    then show ?thesis
      using r(3) assms(1) go_ok_advances [OF ok(1)] set_update_subset_insert [of "sy_go y" i g] by (fastforce simp: sys_inv_def)
  next
    case (Turn w ch io)
    then obtain s where r: "worker_turn env w ch io ?s = Some (Done s)" "w < length (sv_sw ?s)"
      "y' = \<lparr>sy_server = s, sy_go = map (release w ch) (sy_go y)\<rparr>"
      using assms(2) by (auto split: if_splits option.splits outcome.splits)
    have "advances env n ?s s" using advances_turn [OF inv(1) r(2,1)] by auto
    then show ?thesis using r(3) assms(1) go_ok_advances release_ok by (auto simp: sys_inv_def)
  next
    case Reload
    then show ?thesis
      using assms advances_reload [OF inv(1)] go_ok_advances [OF advances_reload [OF inv(1)]] by (auto simp: sys_inv_def)
  qed
  then show "advances env n ?s (sy_server y')" "sys_inv env n y'"
    using assms(1) by (auto simp: sys_inv_def advances_def)
qed

lemma start_go_ok: "g \<in> set (sy_go (sys_start s)) \<Longrightarrow> go_ok n s g"
  by (auto simp: sys_start_def Let_def)

lemma started_sys_inv:
  assumes "started env s0"
  shows "sys_inv env (length (sv_sw s0)) (sys_start s0)"
  using assms started_inv [OF assms reachable.start] Server_Start_empty start_go_ok
  by (auto simp: sys_inv_def started_def) (auto simp: sys_start_def Let_def)

lemma sys_reachable_inv:
  assumes "sys_reachable env y0 y" and "sys_inv env n y0"
  shows "sys_inv env n y"
  using assms by (induction rule: sys_reachable.induct) (auto intro: sys_inv_step)

subsection \<open>Runs\<close>

lemma sys_reachable_trans: "sys_reachable env y1 y2 \<Longrightarrow> sys_reachable env y0 y1 \<Longrightarrow> sys_reachable env y0 y2"
  by (induction rule: sys_reachable.induct) (auto intro: sys_reachable.sys_move)

fun sys_run :: "server_env \<Rightarrow> move list \<Rightarrow> system \<Rightarrow> system option" where
  "sys_run env [] y = Some y"
| "sys_run env (m # ms) y = (case sys_exec env m y of Some (Done y') \<Rightarrow> sys_run env ms y' | _ \<Rightarrow> None)"

lemma sys_run_reachable: "sys_run env ms y = Some y' \<Longrightarrow> sys_reachable env y y'"
proof (induction ms arbitrary: y)
  case (Cons m ms)
  then obtain y1 where "sys_exec env m y = Some (Done y1)" "sys_run env ms y1 = Some y'"
    by (auto split: option.splits outcome.splits)
  then show ?case
    using Cons.IH sys_reachable_trans sys_reachable.sys_move [OF sys_reachable.sys_begin] by blast
qed (simp add: sys_reachable.sys_begin)

text \<open>
  The sample server, with channels without a buffer: a client asks for Sync messages; then its goroutine is in
  its loop. The handlers of signaling messages have the numbers 10 to 19, the first subscription 23.
\<close>

abbreviation sample_sender :: Sockaddr where
  "sample_sender \<equiv> SockaddrInet4 320 [10, 0, 0, 9]"

definition sample_sg :: "TLV list \<Rightarrow> Signaling" where
  "sample_sg tlvs = (sample_signaling tlvs)\<lparr>sig_Header := (sig_Header (sample_signaling tlvs))
     \<lparr>MessageLength := 44 + word_of_nat (length (concat (map tlv_bytes tlvs)))\<rparr>\<rparr>"

definition sample_message :: "TLV list \<Rightarrow> input" where
  "sample_message tlvs = GeneralIn zero_Signaling (packet_bytes (PSignaling (sample_sg tlvs))) sample_sender"

definition sample_asks :: "nat \<Rightarrow> move list" where
  "sample_asks i = [Step i (sample_message [RequestUnicastTransmissionTLV (sample_tlv 0 1 60)]), Step i (Go 0), Step i (Go 0)]"

definition sample_looping :: "move list" where
  "sample_looping = sample_asks 10 @ [Turn 1 SignalingQueue sample_io, Step 10 (Go 0), Step 10 (Go 0), Step 23 (Go 0),
     Turn 1 Queue sample_io, Step 23 (Go 0)]"


lemma sample_loops:
  "case sys_run sample_senv sample_looping (sys_start sample_server) of None \<Rightarrow> False
   | Some y \<Rightarrow> sy_go y ! 23 = SelectLoop 0 0 \<and> length (sy_go y) = 24"
  by code_simp


end
