(* ===== verification/Ptp_Channels.thy ===== *)
theory Ptp_Channels
  imports Ptp_Threads "HOL-Library.Multiset"
begin

section \<open>Channels of the workers (\<^verbatim>\<open>src/server/worker.go\<close>)\<close>

text \<open>
  A send on a channel of a worker waits when the buffer is full. The list of the model holds the buffer and
  then the waiting sends in their order, so a sender knows how many receives it has to wait for: these numbers are the
  places of a queue without gaps. A worker waits for nothing but work, so every sender gets its turn.
\<close>

subsection \<open>Lengths and places\<close>

definition clen :: "nat \<Rightarrow> channel \<Rightarrow> Server \<Rightarrow> nat" where
  "clen w ch s = length (chan ch (sv_sw s ! w))"

fun channel_of :: "enqueue \<Rightarrow> channel" where
  "channel_of ToQueue = Queue"
| "channel_of ToSignalingQueue = SignalingQueue"

lemma chan_frame [simp]:
  "chan ch (RegisterSubscription k t a w) = chan ch w" "chan ch (delete_entry t k w) = chan ch w"
  by (cases ch; simp add: RegisterSubscription_def Let_def)+

lemma clen_worker:
  assumes "\<And>v. chan ch (f v) = chan ch v"
  shows "clen w ch (on_worker v f s) = clen w ch s"
  using assms by (cases "v < length (sv_sw s)"; cases "w = v") (simp_all add: clen_def on_worker_def list_update_beyond)

lemma clen_ops [simp]:
  "clen w ch (on_client a g s) = clen w ch s" "clen w ch (on_stats o' s) = clen w ch s" "clen w ch (spawn a s) = clen w ch s"
  "clen w ch (s\<lparr>sv_heap := h\<rparr>) = clen w ch s" "clen w ch (s\<lparr>sv_spawned := rs\<rparr>) = clen w ch s"
  "clen w ch (on_worker v (RegisterSubscription k t a) s) = clen w ch s"
  "clen w ch (on_worker v (delete_entry t k) s) = clen w ch s"
  by (simp_all add: clen_worker) (simp_all add: clen_def on_stats_def)

lemma clen_push:
  assumes "sc_worker (sv_heap s ! a) < length (sv_sw s)"
  shows "clen w ch (push a q s) = clen w ch s + (if w = sc_worker (sv_heap s ! a) \<and> ch = channel_of q then 1 else 0)"
  using assms by (cases q; cases ch; cases "w = sc_worker (sv_heap s ! a)") (simp_all add: clen_def push.simps on_worker_def)

text \<open>A step leaves all channels alone, or it puts a client on one channel and waits there if it has to.\<close>

fun place :: "nat \<Rightarrow> channel \<Rightarrow> goroutine \<Rightarrow> nat list" where
  "place w ch (Sends v c r g) = (if v = w \<and> c = ch then [r] else [])"
| "place w ch g = []"

definition sends_once :: "Server \<Rightarrow> Server \<Rightarrow> goroutine \<Rightarrow> bool" where
  "sends_once s s' g \<longleftrightarrow> (\<exists>a ch k. resumable k \<and> g = sends a ch k s'
     \<and> (\<forall>w c. clen w c s' = clen w c s + (if w = sc_worker (sv_heap s' ! a) \<and> c = ch then 1 else 0)))"

definition chan_step :: "Server \<Rightarrow> moved \<Rightarrow> bool" where
  "chan_step s m \<longleftrightarrow> (case m of (s', g, new) \<Rightarrow>
     ((\<forall>w ch. clen w ch s' = clen w ch s \<and> place w ch g = []) \<or> sends_once s s' g)
     \<and> (\<forall>g \<in> set new. \<forall>w ch. place w ch g = []))"

lemma place_resumable: "resumable g \<Longrightarrow> place w ch g = []"
  by (cases g) simp_all

lemma sends_onceI:
  assumes "s' = push a q s1" and "sc_worker (sv_heap s1 ! a) < length (sv_sw s1)"
    and "\<And>w ch. clen w ch s1 = clen w ch s" and "resumable k"
  shows "sends_once s s' (sends a (channel_of q) k s')"
  using assms unfolding sends_once_def by (intro exI conjI) (auto simp: clen_push)

lemma worker_less: "server_inv env n s \<Longrightarrow> a < length (sv_heap s) \<Longrightarrow> sc_worker (sv_heap s ! a) < length (sv_sw s)"
  by (auto simp: server_inv_def heap_ok_def)

lemma serve_request_chan:
  assumes "server_inv env n s" and "signaled sg" and "served t"
    and "serve_request env now sa sg v t tlvs gs s = Some (Done m)"
  shows "chan_step s m"
proof -
  let ?k = "SourcePortIdentity (sig_Header sg)"
  have n: "length (sv_sw s) = n" "0 < n" "n < 2 ^ 64" using assms(1) by (simp_all add: server_inv_def)
  let ?w = "worker_index env n ?k 0"
  obtain a s1 where gc: "grant_client env now sa ?k t (req_interval env v) (now + req_duration v) ?w s = (a, s1)" by fastforce
  have "assigned env n ?w t ?k" by (auto simp: assigned_def)
  note inv = inv_grant_client [OF assms(1) worker_index_less [OF n(2,3)] assms(3) this gc]
  have c: "clen w ch s1 = clen w ch s" for w ch
    using gc by (auto simp: grant_client_def split: option.splits if_splits)
  define s2 where "s2 d = on_client a (UpdateSignalingGrant sg (req_MsgTypeAndReserved v) (req_LogInterMessagePeriod v) d) s1" for d
  have s2: "server_inv env n (s2 d)" "a < length (sv_heap (s2 d))" for d
    using inv assms(2) steady_grant unfolding s2_def by (auto intro!: inv_on_client)
  have "sends_once s (push a ToSignalingQueue (s2 d)) (sends a SignalingQueue k (push a ToSignalingQueue (s2 d)))" if "resumable k" for d k
    using sends_onceI [of _ a ToSignalingQueue "s2 d" s k] worker_less [OF s2] that c by (simp add: s2_def)
  then show ?thesis
    using assms(4) gc n
    by (auto simp: serve_request_def findWorker_eq Let_def chan_step_def req_duration_wrap s2_def sendSignalingGrant_def
        split: if_splits)
qed

lemma sptp_request_chan:
  assumes "server_inv env n s" and "w < n"
  shows "clen v ch (sptp_request now d sa rxt w s) = clen v ch s + (if v = w \<and> ch = Queue then 1 else 0)"
    and "\<exists>a. FindSubscription (SourcePortIdentity (sync_Header d)) MessageDelayReq (sv_sw (sptp_request now d sa rxt w s) ! w) = Some a"
proof -
  let ?k = "SourcePortIdentity (sync_Header d)" and ?s' = "sptp_request now d sa rxt w s"
  have l: "w < length (sv_sw s)" using assms by (simp add: server_inv_def)
  have "clen v ch ?s' = clen v ch s + (if v = w \<and> ch = Queue then 1 else 0) \<and>
    (\<exists>a. FindSubscription ?k MessageDelayReq (sv_sw ?s' ! w) = Some a)"
  proof (cases "FindSubscription ?k MessageDelayReq (sv_sw s ! w)")
    case None
    show ?thesis
      using l by (simp add: sptp_request_def Let_def newClient_def None clen_push UpdateAnnounceDelayReq_def UpdateSyncDelayReq_def)
  next
    case (Some a)
    then have a: "a < length (sv_heap s)" "sc_worker (sv_heap s ! a) = w"
      using found_entry [OF assms Some] by (simp_all add: entry_ok_def)
    then show ?thesis
      using l by (simp add: sptp_request_def Let_def Some clen_push UpdateAnnounceDelayReq_def UpdateSyncDelayReq_def SetExpire_def)
  qed
  then show "clen v ch ?s' = clen v ch s + (if v = w \<and> ch = Queue then 1 else 0)"
    "\<exists>a. FindSubscription ?k MessageDelayReq (sv_sw ?s' ! w) = Some a" by blast+
qed

lemma serve_delay_chan:
  assumes "server_inv env n s" and "sv_spawned s = []" and "serve_delay env now dReq sa rxTS gs s = Some (Done m)"
  shows "chan_step s m"
proof -
  let ?k = "SourcePortIdentity (sync_Header dReq)"
  obtain s' where d: "delay_request env now dReq sa rxTS s = Done s'" using delay_no_crash [OF assms(1)] by blast
  have inv: "server_inv env n s'" using inv_delay_request [OF assms(1) d] .
  obtain w where w: "findWorker env ?k (workerOffset_of 0 (sync_TLVs dReq)) s = Some w"
    using assms(1) by (auto simp: findWorker_eq server_inv_def)
  then have wn: "w < n" using findWorker_less [OF assms(1)] by blast
  show ?thesis
  proof (cases "FlagField (sync_Header dReq) = FlagProfileSpecific1 OR FlagUnicast")
    case True
    then have s': "s' = sptp_request now dReq sa rxTS w s" using d w by (simp add: delay_request_def Let_def)
    then obtain a where f: "FindSubscription ?k MessageDelayReq (sv_sw s' ! w) = Some a"
      using sptp_request_chan(2) [OF assms(1) wn] by blast
    then have "sc_worker (sv_heap s' ! a) = w" using found_entry [OF inv wn f] by (simp add: entry_ok_def)
    then have "sends_once s (s'\<lparr>sv_spawned := []\<rparr>) (sends a Queue ReadEvent (s'\<lparr>sv_spawned := []\<rparr>))"
      unfolding sends_once_def using sptp_request_chan(1) [OF assms(1) wn] s'
      by (intro exI [of _ a] exI [of _ Queue] exI [of _ ReadEvent]) auto
    then show ?thesis
      using assms(3) d w f True by (auto simp: serve_delay_def Let_def chan_step_def sends_def capacity_def split: if_splits)
  next
    case False
    show ?thesis
    proof (cases "FindSubscription ?k MessageDelayResp (sv_sw s ! w)")
      case None
      then have "s' = s" using d w False by (simp add: delay_request_def Let_def)
      then show ?thesis
        using assms(2,3) d w False None by (auto simp: serve_delay_def Let_def chan_step_def split: if_splits)
    next
      case (Some a)
      let ?s1 = "on_client a (UpdateDelayResp (sync_Header dReq) rxTS) s"
      have s': "s' = push a ToQueue ?s1" using d w False Some by (simp add: delay_request_def Let_def)
      have "a < length (sv_heap s)" using found_entry [OF assms(1) wn Some] by (simp add: entry_ok_def)
      then have "sends_once s s' (sends a Queue ReadEvent s')"
        using sends_onceI [OF s', of s ReadEvent] worker_less [OF assms(1)] by (simp add: UpdateDelayResp_def)
      moreover have f: "sv_spawned s' = []" "FindSubscription ?k MessageDelayResp (sv_sw s' ! w) = Some a"
        using assms(2) Some by (simp_all add: s')
      moreover from f(1) have "s' = s'\<lparr>sv_spawned := []\<rparr>" by simp
      ultimately have "sends_once s (s'\<lparr>sv_spawned := []\<rparr>) (sends a Queue ReadEvent s')" by metis
      with f show ?thesis
        using assms(3) d w False Some by (auto simp: serve_delay_def Let_def chan_step_def split: if_splits)
    qed
  qed
qed

lemma pushes_once:
  assumes "server_inv env n s" and "a < length (sv_heap s)" and "steady (sv_heap s ! a) c" and "resumable k"
  shows "sends_once s (pushes a [q] (on_client a (\<lambda>_. c) s)) (sends a (channel_of q) k (pushes a [q] (on_client a (\<lambda>_. c) s)))"
proof -
  let ?s1 = "on_client a (\<lambda>_. c) s"
  have "sc_worker (sv_heap ?s1 ! a) < length (sv_sw ?s1)"
    using worker_less [OF assms(1,2)] assms(2,3) by (simp add: steady_def)
  then show ?thesis using assms(4) by (intro sends_onceI [of _ a q ?s1]) (simp_all add: pushes_def)
qed

lemma ticked_chan:
  assumes "server_inv env n s" and "owned (sv_heap s) a" and "ticked now a ctx s = Done m"
  shows "chan_step s m"
proof (cases "Expired now (sv_heap s ! a)")
  case False
  then obtain c qs b where t: "Start_tick now (sv_heap s ! a) = Done ((c, qs), b)" "qs = [] \<or> qs = [ToQueue]"
    using assms(3) by (auto simp: ticked_def Start_tick_def timer_sends_def Let_def split: outcome.splits if_splits)
  have "steady (sv_heap s ! a) c" using Start_tick_steady [OF _ t(1)] assms(2) by (auto simp: owned_def)
  then show ?thesis
    using t assms(2,3) False pushes_once [OF assms(1), of a c "SelectLoop a ctx" ToQueue]
    by (auto simp: ticked_def chan_step_def Let_def owned_def pushes_def)
qed (use assms(3) in \<open>auto simp: ticked_def chan_step_def\<close>)

lemma leave_loop_chan:
  assumes "server_inv env n s" and "owned (sv_heap s) a"
  shows "chan_step s (leave_loop a s)"
proof -
  obtain c qs where e: "Start_exit (sv_heap s ! a) = (c, qs)" by fastforce
  moreover from e have "qs = [] \<or> qs = [ToSignalingQueue]" by (auto simp: Start_exit_def Let_def split: if_splits)
  moreover have "steady (sv_heap s ! a) c" using Start_exit_steady [OF _ e] assms(2) by (auto simp: owned_def)
  ultimately show ?thesis
    using assms(2) pushes_once [OF assms(1), of a c Ended ToSignalingQueue]
    by (auto simp: leave_loop_def chan_step_def Let_def owned_def pushes_def)
qed

lemma start_runs_chan:
  assumes "server_inv env n s" and "owned (sv_heap s) a"
  shows "chan_step s (start_runs a ctx s)"
proof -
  have "on_client a (setRunning True) s = on_client a (\<lambda>_. setRunning True (sv_heap s ! a)) s" by (simp add: on_client_def)
  moreover have "steady (sv_heap s ! a) (setRunning True (sv_heap s ! a))" by (simp add: steady_def setRunning_def)
  ultimately show ?thesis
    using assms(2) pushes_once [OF assms(1), of a "setRunning True (sv_heap s ! a)" "ArmTicker a ctx" ToQueue]
    by (auto simp: start_runs_def chan_step_def Let_def owned_def pushes_def)
qed

lemma clen_contexts [simp]:
  "clen w ch (Drain_cancel s) = clen w ch s" "clen w ch (Undrain s) = clen w ch s" "clen w ch (report ord s) = clen w ch s"
  "clen w ch (visit_entry v t k a s) = clen w ch s"
  by (simp_all add: Drain_cancel_def Undrain_def report_def visit_entry_def Let_def) (simp_all add: clen_def)

lemma go_step_chan:
  assumes "server_inv env n s" and "sv_spawned s = []" and "go_ok n s g" and "go_step env inp gs s g = Some (Done m)"
  shows "chan_step s m"
proof (cases g)
  case (Delayed dReq sa rxTS)
  then obtain now where "serve_delay env now dReq sa rxTS gs s = Some (Done m)" using assms(4) by (auto simp: step_results)
  then show ?thesis by (rule serve_delay_chan [OF assms(1,2)])
next
  case (Tlvs sa sg tlvs)
  have "chan_step s (next_tlv sa sg tlvs s)"
    by (cases "(sa, sg, tlvs, s)" rule: next_tlv.cases) (auto simp: chan_step_def Let_def)
  then show ?thesis using Tlvs assms(4) by (auto simp: step_results)
next
  case (Requests sa sg v t tlvs)
  then obtain now where r: "serve_request env now sa sg v t tlvs gs s = Some (Done m)" using assms(4) by (auto simp: step_results)
  show ?thesis using serve_request_chan [OF assms(1) _ _ r] assms(3) Requests by auto
next
  case (StartRuns a ctx)
  then show ?thesis using assms start_runs_chan [OF assms(1)] by (auto simp: step_results)
next
  case (Ticked a ctx)
  then obtain now where r: "ticked now a ctx s = Done m" using assms(4) by (auto simp: step_results)
  show ?thesis using ticked_chan [OF assms(1) _ r] assms(3) Ticked by simp
next
  case (Leaves a)
  then show ?thesis using assms leave_loop_chan [OF assms(1)] by (auto simp: step_results)
next
  case (Stops a sa sg tlvs)
  then obtain now where "stop_client now a sa sg tlvs s = Done m" using assms(4) by (auto simp: step_results)
  then show ?thesis by (cases "Stop now (sv_heap s ! a)") (auto simp: stop_client_def chan_step_def)
next
  case (Inventory ws p)
  have "place w ch (stock_done p s) = []" for w ch by (cases "(p, s)" rule: stock_done.cases) simp_all
  then show ?thesis
    using assms(4) Inventory by (auto simp: next_worker_def step_results chan_step_def split: list.splits input.splits)
qed (use assms(4) in \<open>auto simp: step_results read_event_def read_general_def find_cancelled_def arm_ticker_def
  select_loop_def drain_loop_def next_entry_def chan_step_def Let_def
  split: input.splits sum.splits option.splits if_splits outcome.splits list.splits prod.splits\<close>)

text \<open>
  The senders that wait at a channel have the places from one to the number of sends that do not fit the
  buffer, each place once.
\<close>

definition waiting :: "nat \<Rightarrow> channel \<Rightarrow> goroutine list \<Rightarrow> nat list" where
  "waiting w ch gs = concat (map (place w ch) gs)"

definition places :: "nat \<Rightarrow> nat multiset" where
  "places k = mset [1..<Suc k]"

lemma places_Suc [simp]: "places (Suc k) = add_mset (Suc k) (places k)"
  by (simp add: places_def)

lemma places_facts [simp]: "places 0 = {#}" "set_mset (places k) = {1..k}" "size (places k) = k"
  by (auto simp: places_def)

definition chans_inv :: "nat \<Rightarrow> system \<Rightarrow> bool" where
  "chans_inv n y \<longleftrightarrow> (\<forall>w < n. \<forall>ch. mset (waiting w ch (sy_go y)) = places (clen w ch (sy_server y) - capacity (sy_server y)))"

lemma waiting_update:
  assumes "i < length gs" and "place w ch (gs ! i) = []"
  shows "mset (waiting w ch (gs[i := g] @ new)) = mset (waiting w ch gs) + mset (place w ch g) + mset (waiting w ch new)"
proof -
  have "waiting w ch gs = waiting w ch (take i gs) @ waiting w ch (drop (Suc i) gs)"
    using assms by (subst id_take_nth_drop [OF assms(1)]) (simp add: waiting_def)
  moreover have "waiting w ch (gs[i := g]) = waiting w ch (take i gs) @ place w ch g @ waiting w ch (drop (Suc i) gs)"
    using assms(1) by (simp add: upd_conv_take_nth_drop waiting_def)
  moreover have "waiting w ch (gs[i := g] @ new) = waiting w ch (gs[i := g]) @ waiting w ch new" by (simp add: waiting_def)
  ultimately show ?thesis by simp
qed

lemma place_release:
  assumes "go_ok n s g"
  shows "place v c (release w ch g) = (if v = w \<and> c = ch then map (\<lambda>r. r - 1) (filter (\<lambda>r. 1 < r) (place v c g)) else place v c g)"
  using assms by (cases g) (auto simp: place_resumable)

lemma waiting_release:
  assumes "\<forall>g \<in> set gs. go_ok n s g"
  shows "waiting v c (map (release w ch) gs) =
    (if v = w \<and> c = ch then map (\<lambda>r. r - 1) (filter (\<lambda>r. 1 < r) (waiting v c gs)) else waiting v c gs)"
  using assms by (induction gs) (auto simp: waiting_def place_release filter_concat map_concat)

lemma places_release: "image_mset (\<lambda>r. r - 1) (filter_mset (\<lambda>r. 1 < r) (places k)) = places (k - 1)"
proof (induction k)
  case (Suc k)
  then show ?case by (cases k) simp_all
qed simp

lemma place_sends:
  assumes "resumable k" and "\<forall>w c. clen w c s' = clen w c s + (if w = sc_worker (sv_heap s' ! a) \<and> c = ch' then 1 else 0)"
    and "capacity s' = capacity s"
  shows "places (clen w ch s - capacity s) + mset (place w ch (sends a ch' k s')) = places (clen w ch s' - capacity s')"
proof (cases "w = sc_worker (sv_heap s' ! a) \<and> ch = ch'")
  case True
  then have "clen w ch s' = Suc (clen w ch s)" using assms(2) by simp
  moreover from this have "place w ch (sends a ch' k s') = (if capacity s \<le> clen w ch s then [Suc (clen w ch s) - capacity s] else [])"
    using True assms(1,3) by (simp add: sends_def Let_def place_resumable flip: clen_def)
  ultimately show ?thesis using assms(3) by (simp add: Suc_diff_le)
next
  case False
  then have "clen w ch s' = clen w ch s" using assms(2) by auto
  moreover have "place w ch (sends a ch' k s') = []" using False assms(1) by (auto simp: sends_def Let_def place_resumable)
  ultimately show ?thesis using assms(3) by simp
qed

lemma worker_turn_chan:
  assumes "server_inv env n s" and "w < length (sv_sw s)" and "worker_turn env w ch io s = Some (Done s')"
  shows "clen v c s' = clen v c s - (if v = w \<and> c = ch then 1 else 0)" and "0 < clen w ch s" and "sv_Config s' = sv_Config s"
    and "w_clients (sv_sw s' ! v) = w_clients (sv_sw s ! v)" and "map sc_running (sv_heap s') = map sc_running (sv_heap s)"
proof -
  have wi: "worker_inv env n (sv_heap s) w (sv_sw s ! w)" "\<forall>c \<in> set (sv_heap s). wf_client c"
    using assms(1,2) by (auto simp: server_inv_def heap_ok_def)
  obtain wk h stats out where t: "worker_step (env_log2i env) (sv_Config s) io ch (sv_sw s ! w) (sv_heap s) (sv_Stats s)
      = Some (Some (wk, h, stats, out))" "s' = s\<lparr>sv_sw := (sv_sw s)[w := wk], sv_heap := h, sv_Stats := stats, sv_sent := sv_sent s @ out\<rparr>"
    using assms(3) by (auto simp: worker_turn_def split: option.splits)
  have f: "chan c wk = (if c = ch then tl (chan c (sv_sw s ! w)) else chan c (sv_sw s ! w)) \<and> chan ch (sv_sw s ! w) \<noteq> []
      \<and> w_clients wk = w_clients (sv_sw s ! w) \<and> map sc_running h = map sc_running (sv_heap s)" for c
  proof (cases ch)
    case Queue
    then obtain a q where q: "w_queue (sv_sw s ! w) = a # q"
      "worker_queue_step (env_log2i env) (sv_Config s) io a ((sv_sw s ! w)\<lparr>w_queue := q\<rparr>) (sv_heap s) (sv_Stats s) = Some (wk, h, stats, out)"
      using t(1) by (auto split: list.splits)
    moreover have "a < length (sv_heap s)" "length (w_buf (sv_sw s ! w)) = 128" using wi(1) q(1) by (auto simp: worker_inv_def)
    ultimately have "worker_frame ((sv_sw s ! w)\<lparr>w_queue := q\<rparr>) wk" "map sc_running h = map sc_running (sv_heap s)"
      using wi(2) worker_queue_step_ok [of "sv_heap s" a "(sv_sw s ! w)\<lparr>w_queue := q\<rparr>" "env_log2i env" "sv_Config s" io "sv_Stats s"]
      by (auto simp: turn_ok_def)
    then show ?thesis using q(1) Queue by (cases c) (auto simp: worker_frame_def)
  next
    case SignalingQueue
    then obtain a q where q: "w_signalingQueue (sv_sw s ! w) = a # q"
      "worker_signaling_step io a ((sv_sw s ! w)\<lparr>w_signalingQueue := q\<rparr>) (sv_heap s) (sv_Stats s) = Some (wk, h, stats, out)"
      using t(1) by (auto split: list.splits)
    moreover have "a < length (sv_heap s)" "granted (sv_heap s ! a)" "length (w_buf (sv_sw s ! w)) = 128"
      using wi(1) q(1) by (auto simp: worker_inv_def)
    ultimately have "worker_frame ((sv_sw s ! w)\<lparr>w_signalingQueue := q\<rparr>) wk" "map sc_running h = map sc_running (sv_heap s)"
      using wi(2) worker_signaling_step_ok [of "sv_heap s" a "(sv_sw s ! w)\<lparr>w_signalingQueue := q\<rparr>" io "sv_Stats s"]
      by (auto simp: turn_ok_def)
    then show ?thesis using q(1) SignalingQueue by (cases c) (auto simp: worker_frame_def)
  qed
  then show "clen v c s' = clen v c s - (if v = w \<and> c = ch then 1 else 0)" "0 < clen w ch s" "sv_Config s' = sv_Config s"
    using t(2) assms(2) by (auto simp: clen_def nth_list_update)
  show "w_clients (sv_sw s' ! v) = w_clients (sv_sw s ! v)" "map sc_running (sv_heap s') = map sc_running (sv_heap s)"
    using t(2) f by (cases "v = w"; simp add: assms(2))+
qed

lemma capacity_eq: "advances env n s s' \<Longrightarrow> capacity s' = capacity s"
  by (simp add: advances_def capacity_def)

lemma chans_inv_step:
  assumes "sys_inv env n y" and "chans_inv n y" and "sys_exec env m y = Some (Done y')"
  shows "chans_inv n y'"
proof -
  let ?s = "sy_server y" and ?s' = "sy_server y'"
  have inv: "server_inv env n ?s" "sv_spawned ?s = []" using assms(1) by (simp_all add: sys_inv_def)
  have cap: "capacity ?s' = capacity ?s" using sys_inv_step(2) [OF assms(1,3)] by (rule capacity_eq)
  show ?thesis
  proof (cases m)
    case (Step i inp)
    then obtain g new where r: "go_step env inp (sy_go y) ?s (sy_go y ! i) = Some (Done (?s', g, new))" "i < length (sy_go y)"
      "sy_go y' = (sy_go y)[i := g] @ new"
      using assms(3) by (auto split: if_splits option.splits outcome.splits)
    have "go_ok n ?s (sy_go y ! i)" using assms(1) r(2) by (simp add: sys_inv_def)
    from go_step_chan [OF inv this r(1)] have cs: "chan_step ?s (?s', g, new)" .
    have p: "place w ch (sy_go y ! i) = []" for w ch using r(1) by (cases "sy_go y ! i") simp_all
    have nw: "waiting w ch new = []" for w ch using cs by (simp add: chan_step_def waiting_def)
    have "mset (waiting w ch (sy_go y')) = places (clen w ch ?s' - capacity ?s')" if "w < n" for w ch
    proof -
      have m: "mset (waiting w ch (sy_go y')) = places (clen w ch ?s - capacity ?s) + mset (place w ch g)"
        using waiting_update [OF r(2) p] r(3) nw assms(2) that by (simp add: chans_inv_def)
      consider "clen w ch ?s' = clen w ch ?s" "place w ch g = []" | "sends_once ?s ?s' g"
        using cs by (auto simp: chan_step_def)
      then show ?thesis
      proof cases
        case 2
        then obtain a ch' k where k: "resumable k" "g = sends a ch' k ?s'"
          "\<forall>w c. clen w c ?s' = clen w c ?s + (if w = sc_worker (sv_heap ?s' ! a) \<and> c = ch' then 1 else 0)"
          unfolding sends_once_def by blast
        show ?thesis using place_sends [OF k(1,3) cap, of w ch] unfolding m k(2) .
      qed (use m cap in simp)
    qed
    then show ?thesis by (simp add: chans_inv_def)
  next
    case (Turn w ch io)
    then have r: "worker_turn env w ch io ?s = Some (Done ?s')" "w < length (sv_sw ?s)"
      "sy_go y' = map (release w ch) (sy_go y)"
      using assms(3) by (auto split: if_splits option.splits outcome.splits)
    note c = worker_turn_chan [OF inv(1) r(2,1)]
    have "\<forall>g \<in> set (sy_go y). go_ok n ?s g" using assms(1) by (simp add: sys_inv_def)
    note wr = waiting_release [OF this, of _ _ w ch]
    have "mset (waiting v d (sy_go y')) = places (clen v d ?s' - capacity ?s')" if "v < n" for v d
    proof (cases "v = w \<and> d = ch")
      case True
      then have "clen v d ?s' - capacity ?s' = clen v d ?s - capacity ?s - 1" using c(1) cap by simp
      then show ?thesis
        using True r(3) wr places_release [of "clen v d ?s - capacity ?s"] assms(2) that by (simp add: chans_inv_def)
    next
      case False
      then show ?thesis using r(3) wr c(1) cap assms(2) that by (auto simp: chans_inv_def)
    qed
    then show ?thesis by (simp add: chans_inv_def)
  next
    case Reload
    then have "?s' = reload_config env ?s" "sy_go y' = sy_go y" using assms(3) by auto
    moreover have "clen w ch (reload_config env ?s) = clen w ch ?s" for w ch
      by (simp add: reload_config_def clen_def on_stats_def split: sum.split)
    ultimately show ?thesis using assms(2) cap by (simp add: chans_inv_def)
  qed
qed


lemma chans_start:
  assumes "started env s"
  shows "chans_inv (length (sv_sw s)) (sys_start s)"
proof -
  have "waiting w ch (sy_go (sys_start s)) = []" for w ch by (simp add: waiting_def sys_start_def Let_def)
  moreover have "clen w ch s = 0" if "w < length (sv_sw s)" for w ch
  proof -
    have "sv_heap s = []" using assms Server_Start_empty by (auto simp: started_def)
    moreover have "worker_inv env (length (sv_sw s)) (sv_heap s) w (sv_sw s ! w)"
      using started_inv [OF assms reachable.start] that by (simp add: server_inv_def)
    ultimately show ?thesis by (cases ch) (auto simp: worker_inv_def clen_def)
  qed
  ultimately show ?thesis by (auto simp: chans_inv_def) (simp_all add: sys_start_def Let_def)
qed

lemma sys_reachable_chans:
  assumes "sys_reachable env y0 y" and "sys_inv env n y0" and "chans_inv n y0"
  shows "chans_inv n y"
  using assms
  by (induction rule: sys_reachable.induct) (auto intro: chans_inv_step [OF sys_reachable_inv])

lemma started_sys:
  assumes "started env s0" and "sys_reachable env (sys_start s0) y"
  shows "sys_inv env (length (sv_sw s0)) y" and "chans_inv (length (sv_sw s0)) y"
  using sys_reachable_inv [OF assms(2) started_sys_inv [OF assms(1)]]
    sys_reachable_chans [OF assms(2) started_sys_inv [OF assms(1)] chans_start [OF assms(1)]] by simp_all

subsection \<open>Waiting senders are served in order\<close>

fun turns :: "server_env \<Rightarrow> nat \<Rightarrow> channel \<Rightarrow> worker_io list \<Rightarrow> system \<Rightarrow> system option" where
  "turns env w ch [] y = Some y"
| "turns env w ch (io # ios) y =
     (case sys_exec env (Turn w ch io) y of Some (Done y') \<Rightarrow> turns env w ch ios y' | _ \<Rightarrow> None)"

lemma turn_possible:
  assumes "sys_inv env n y" and "w < n" and "0 < clen w ch (sy_server y)"
  obtains y' where "sys_exec env (Turn w ch io) y = Some (Done y')" and "sy_go y' = map (release w ch) (sy_go y)"
proof -
  let ?s = "sy_server y"
  have inv: "server_inv env n ?s" "w < length (sv_sw ?s)" using assms(1,2) by (auto simp: sys_inv_def server_inv_def)
  have "worker_turn env w ch io ?s \<noteq> None"
    using assms(3) by (cases ch) (auto simp: worker_turn_def clen_def split: list.splits option.splits)
  then obtain s' where "worker_turn env w ch io ?s = Some (Done s')" using worker_turn_ok [OF inv] by blast
  then show ?thesis using inv(2) by (intro that) auto
qed

lemma sender_queued:
  assumes "sys_inv env n y" and "chans_inv n y" and "i < length (sy_go y)" and "sy_go y ! i = Sends w ch r g"
  shows "w < n" "0 < r" "0 < clen w ch (sy_server y)"
proof -
  have "go_ok n (sy_server y) (sy_go y ! i)" using assms(1,3) by (simp add: sys_inv_def)
  then show ok: "w < n" "0 < r" using assms(4) by simp_all
  have "r \<in> set (waiting w ch (sy_go y))"
    using assms(3,4) nth_mem [OF assms(3)] by (force simp: waiting_def)
  moreover have "set (waiting w ch (sy_go y)) = {1..clen w ch (sy_server y) - capacity (sy_server y)}"
    using assms(2) ok(1) places_facts(2) unfolding chans_inv_def by (metis set_mset_mset)
  ultimately show "0 < clen w ch (sy_server y)" by auto
qed

lemma served_in_turn:
  assumes "sys_inv env n y" and "chans_inv n y" and "i < length (sy_go y)" and "sy_go y ! i = Sends w ch r g" and "length ios = r"
  shows "\<exists>y'. turns env w ch ios y = Some y' \<and> sy_go y' ! i = g"
  using assms
proof (induction ios arbitrary: y r)
  case Nil
  have "go_ok n (sy_server y) (sy_go y ! i)" using Nil(1,3) by (simp add: sys_inv_def)
  then show ?case using Nil by simp
next
  case (Cons io ios)
  note ok = sender_queued [OF Cons.prems(1-4)]
  from turn_possible [OF Cons.prems(1) ok(1,3)] obtain y' where
    y': "sys_exec env (Turn w ch io) y = Some (Done y')" "sy_go y' = map (release w ch) (sy_go y)" .
  show ?case
  proof (cases "r = 1")
    case True
    then show ?thesis using y' Cons.prems(3-5) by auto
  next
    case False
    then have "sy_go y' ! i = Sends w ch (r - 1) g" "i < length (sy_go y')" using y'(2) ok Cons.prems(3,4) by auto
    from Cons.IH [OF sys_inv_step(1) [OF Cons.prems(1) y'(1)] chans_inv_step [OF Cons.prems(1,2) y'(1)] this(2,1)]
    show ?thesis using y'(1) Cons.prems(5) by auto
  qed
qed


subsection \<open>Bounds and progress\<close>

text \<open>C7: the channels of the workers are bounded: what was sent and not received is at most the capacity plus one for every goroutine that waits there. Senders wait only when the buffer is full, and they queue without gaps: their places are the numbers from one to the number of them.\<close>

theorem channels_bounded:
  assumes "started env s0" and "sys_reachable env (sys_start s0) y" and "w < length (sv_sw s0)"
  shows "clen w ch (sy_server y) \<le> capacity (sy_server y) + length (waiting w ch (sy_go y))
    \<and> (waiting w ch (sy_go y) \<noteq> [] \<longrightarrow> clen w ch (sy_server y) = capacity (sy_server y) + length (waiting w ch (sy_go y)))
    \<and> sort (waiting w ch (sy_go y)) = [1..<Suc (length (waiting w ch (sy_go y)))]"
proof -
  let ?ws = "waiting w ch (sy_go y)" and ?k = "clen w ch (sy_server y) - capacity (sy_server y)"
  have m: "mset ?ws = mset [1..<Suc ?k]"
    using started_sys(2) [OF assms(1,2)] assms(3) by (simp add: chans_inv_def places_def)
  then have k: "length ?ws = ?k" by (metis add_diff_cancel_left' length_upt plus_1_eq_Suc size_mset)
  then have "clen w ch (sy_server y) = capacity (sy_server y) + length ?ws" if "?ws \<noteq> []"
    using that length_greater_0_conv [of ?ws] by linarith
  moreover have "sort ?ws = [1..<Suc (length ?ws)]"
    unfolding k using properties_for_sort [OF m [symmetric] sorted_upt] .
  moreover have "clen w ch (sy_server y) \<le> capacity (sy_server y) + length ?ws" using k by linarith
  ultimately show ?thesis by blast
qed

lemma sample_waits:
  "case sys_run sample_senv (sample_asks 10) (sys_start sample_server) of None \<Rightarrow> False
   | Some y \<Rightarrow> waiting 1 SignalingQueue (sy_go y) = [1] \<and> capacity (sy_server y) = 0 \<and> length (sy_go y) = 23
       \<and> sy_go y ! 10 = Sends 1 SignalingQueue 1 (GrantSent 0 sample_sender
           (sample_sg [RequestUnicastTransmissionTLV (sample_tlv 0 1 60)]) [])"
  by code_simp

theorem channels_bounded_witness:
  "\<exists>y. sys_run sample_senv (sample_asks 10) (sys_start sample_server) = Some y \<and> clen 1 SignalingQueue (sy_server y) = 1"
proof -
  obtain y where y: "sys_run sample_senv (sample_asks 10) (sys_start sample_server) = Some y"
    "waiting 1 SignalingQueue (sy_go y) = [1]" "capacity (sy_server y) = 0"
    using sample_waits by (auto split: option.splits)
  then show ?thesis
    using channels_bounded [OF sample_started sys_run_reachable [OF y(1)], of 1 SignalingQueue] sample_sizes(1) by simp
qed

text \<open>C6: no sender waits for ever: a goroutine with place r at a channel of a worker goes on after r turns of that worker on that channel, which are all possible whatever the kernel answers, even when every other goroutine stands still.\<close>

theorem senders_served:
  assumes "started env s0" and "sys_reachable env (sys_start s0) y" and "i < length (sy_go y)"
    and "sy_go y ! i = Sends w ch r g" and "length ios = r"
  shows "\<exists>y'. turns env w ch ios y = Some y' \<and> sy_go y' ! i = g"
  using served_in_turn [OF started_sys [OF assms(1,2)] assms(3-5)] .

theorem senders_served_witness:
  "\<exists>y y'. sys_run sample_senv (sample_asks 10) (sys_start sample_server) = Some y
     \<and> turns sample_senv 1 SignalingQueue [sample_io] y = Some y'
     \<and> sy_go y' ! 10 = GrantSent 0 sample_sender (sample_sg [RequestUnicastTransmissionTLV (sample_tlv 0 1 60)]) []"
proof -
  obtain y where y: "sys_run sample_senv (sample_asks 10) (sys_start sample_server) = Some y" "length (sy_go y) = 23"
    "sy_go y ! 10 = Sends 1 SignalingQueue 1 (GrantSent 0 sample_sender
       (sample_sg [RequestUnicastTransmissionTLV (sample_tlv 0 1 60)]) [])"
    using sample_waits by (auto split: option.splits)
  then show ?thesis
    using senders_served [OF sample_started sys_run_reachable [OF y(1)], of 10 1 SignalingQueue 1 _ "[sample_io]"] by auto
qed

end
