(* ===== verification/Ptp_Locks.thy ===== *)
theory Ptp_Locks
  imports Ptp_Channels
begin

section \<open>Locks (\<^verbatim>\<open>src/server/worker.go\<close>, \<^verbatim>\<open>src/server/subscription.go\<close>)\<close>

text \<open>
  The lock of a client is held across a wait by a \<^verbatim>\<open>Stop\<close> that cannot send, the lock of a table by an
  inventory that waits for a client. Both are exclusive, and what an inventory has seen of a table stays true as long as it holds it.
\<close>

subsection \<open>What a step does to the tables\<close>

text \<open>
  A table changes when a client is registered, with the table free and any client found before free and not
  running, or when the goroutine that holds the table removes a client that does not run.
\<close>

definition registers :: "goroutine list \<Rightarrow> Server \<Rightarrow> nat \<Rightarrow> sendWorker \<Rightarrow> bool" where
  "registers gs s w wk \<longleftrightarrow> table_free w gs \<and> (\<exists>k t b. w_clients wk = w_clients (RegisterSubscription k t b (sv_sw s ! w))
     \<and> (\<forall>a. FindSubscription k t (sv_sw s ! w) = Some a \<longrightarrow> client_free a gs \<and> \<not> sc_running (sv_heap s ! a)))"

definition removes :: "goroutine list \<Rightarrow> goroutine \<Rightarrow> Server \<Rightarrow> nat \<Rightarrow> sendWorker \<Rightarrow> bool" where
  "removes gs g s w wk \<longleftrightarrow> (\<exists>t k a es ws p. g = TakesStock w ((t, k, a) # es) ws p \<and> client_free a gs
     \<and> \<not> sc_running (sv_heap s ! a) \<and> w_clients wk = w_clients (delete_entry t k (sv_sw s ! w)))"

definition table_step :: "goroutine list \<Rightarrow> goroutine \<Rightarrow> Server \<Rightarrow> Server \<Rightarrow> bool" where
  "table_step gs g s s' \<longleftrightarrow> (\<forall>w. w_clients (sv_sw s' ! w) = w_clients (sv_sw s ! w)
     \<or> registers gs s w (sv_sw s' ! w) \<or> removes gs g s w (sv_sw s' ! w))"

lemma table_step_same: "(\<And>w. w_clients (sv_sw s' ! w) = w_clients (sv_sw s ! w)) \<Longrightarrow> table_step gs g s s'"
  by (simp add: table_step_def)

lemma clients_ops [simp]:
  "w_clients (sv_sw (on_client a f s) ! w) = w_clients (sv_sw s ! w)" "w_clients (sv_sw (on_stats o' s) ! w) = w_clients (sv_sw s ! w)"
  "w_clients (sv_sw (spawn a s) ! w) = w_clients (sv_sw s ! w)" "w_clients (sv_sw (pushes a qs s) ! w) = w_clients (sv_sw s ! w)"
  "w_clients (sv_sw (Drain_cancel s) ! w) = w_clients (sv_sw s ! w)" "w_clients (sv_sw (Undrain s) ! w) = w_clients (sv_sw s ! w)"
  "w_clients (sv_sw (report ord s) ! w) = w_clients (sv_sw s ! w)"
proof -
  show "w_clients (sv_sw (pushes a qs s) ! w) = w_clients (sv_sw s ! w)"
    unfolding pushes_def by (induction qs arbitrary: s) simp_all
qed (simp_all add: Drain_cancel_def Undrain_def report_def Let_def)

lemma table_step_register:
  assumes "\<And>v. w_clients (sv_sw s' ! v) = w_clients (sv_sw (on_worker w (RegisterSubscription k t b) s) ! v)"
    and "table_free w gs" and "\<And>a. FindSubscription k t (sv_sw s ! w) = Some a \<Longrightarrow> client_free a gs \<and> \<not> sc_running (sv_heap s ! a)"
  shows "table_step gs g s s'"
proof -
  have "w_clients (sv_sw s' ! v) = w_clients (sv_sw s ! v) \<or> registers gs s v (sv_sw s' ! v)" for v
  proof (cases "v = w \<and> w < length (sv_sw s)")
    case True
    then have "registers gs s v (sv_sw s' ! v)" using assms unfolding registers_def by (auto simp: on_worker_def)
    then show ?thesis ..
  next
    case False
    then have "w_clients (sv_sw s' ! v) = w_clients (sv_sw s ! v)" using assms(1) [of v] by (auto simp: on_worker_def list_update_beyond)
    then show ?thesis ..
  qed
  then show ?thesis by (auto simp: table_step_def)
qed

lemma sptp_request_table:
  assumes "FindSubscription (SourcePortIdentity (sync_Header d)) MessageDelayReq (sv_sw s ! w) = None"
  shows "w_clients (sv_sw (sptp_request now d sa rxt w s) ! v) = w_clients (sv_sw
    (on_worker w (RegisterSubscription (SourcePortIdentity (sync_Header d)) MessageDelayReq (length (sv_heap s))) s) ! v)"
  using assms by (simp add: sptp_request_def Let_def newClient_def) (simp add: on_worker_def)

lemma sptp_request_table_found:
  assumes "FindSubscription (SourcePortIdentity (sync_Header d)) MessageDelayReq (sv_sw s ! w) = Some a"
  shows "w_clients (sv_sw (sptp_request now d sa rxt w s) ! v) = w_clients (sv_sw s ! v)"
  using assms by (simp add: sptp_request_def Let_def)

lemma serve_delay_table:
  assumes "serve_delay env now dReq sa rxTS gs s = Some (Done (s', g', new))"
  shows "table_step gs g s s'"
proof -
  let ?k = "SourcePortIdentity (sync_Header dReq)"
  obtain w where w: "findWorker env ?k (workerOffset_of 0 (sync_TLVs dReq)) s = Some w"
    using assms by (auto simp: serve_delay_def Let_def split: option.splits)
  then obtain s1 where d: "delay_request env now dReq sa rxTS s = Done s1" "table_free w gs" "sv_sw s' = sv_sw s1"
    using assms by (auto simp: serve_delay_def Let_def split: option.splits if_splits outcome.splits)
  show ?thesis
  proof (cases "FlagField (sync_Header dReq) = FlagProfileSpecific1 OR FlagUnicast")
    case True
    then have s1: "s1 = sptp_request now dReq sa rxTS w s" using d(1) w by (simp add: delay_request_def Let_def)
    show ?thesis
    proof (cases "FindSubscription ?k MessageDelayReq (sv_sw s ! w)")
      case None
      then show ?thesis using d s1 sptp_request_table [OF None] by (intro table_step_register [where w = w]) auto
    qed (use d(3) s1 sptp_request_table_found in \<open>simp add: table_step_same\<close>)
  next
    case False
    then have "w_clients (sv_sw s1 ! v) = w_clients (sv_sw s ! v)" for v
      using d(1) w by (auto simp: delay_request_def Let_def split: option.splits)
    then show ?thesis using d(3) by (simp add: table_step_same)
  qed
qed

lemma serve_request_table:
  assumes "serve_request env now sa sg v t tlvs gs s = Some (Done (s', g', new))"
  shows "table_step gs g s s'"
proof -
  let ?k = "SourcePortIdentity (sig_Header sg)"
  obtain w where w: "findWorker env ?k 0 s = Some w" "table_free w gs" "found_free (FindSubscription ?k t (sv_sw s ! w)) gs"
    using assms by (auto simp: serve_request_def Let_def split: option.splits if_splits)
  obtain a s1 where gc: "grant_client env now sa ?k t (req_interval env v) (now + wrap64 (uint (req_DurationField v) * Second)) w s = (a, s1)"
    by fastforce
  have s': "w_clients (sv_sw s' ! x) = w_clients (sv_sw s1 ! x)" for x
    using assms w gc by (auto simp: serve_request_def Let_def sendSignalingGrant_def split: if_splits)
  show ?thesis
  proof (cases "\<exists>b. FindSubscription ?k t (sv_sw s ! w) = Some b \<and> sc_running (sv_heap s ! b)")
    case True
    then show ?thesis using s' gc by (auto simp: grant_client_def intro!: table_step_same)
  next
    case False
    then have "w_clients (sv_sw s' ! x) = w_clients (sv_sw (on_worker w (RegisterSubscription ?k t (length (sv_heap s))) s) ! x)" for x
      using s' [of x] gc by (auto simp: grant_client_def on_worker_def split: option.splits if_splits)
    then show ?thesis using w(2,3) False by (intro table_step_register [where w = w]) (auto simp: found_free_def)
  qed
qed

lemma visit_table:
  assumes "client_free a gs"
  shows "table_step gs (TakesStock w ((t, k, a) # es) ws p) s (visit_entry w t k a s)"
proof (cases "sc_running (sv_heap s ! a)")
  case False
  have "w_clients (sv_sw (visit_entry w t k a s) ! v) = w_clients (sv_sw s ! v)
      \<or> removes gs (TakesStock w ((t, k, a) # es) ws p) s v (sv_sw (visit_entry w t k a s) ! v)" for v
    using False assms
    by (cases "v = w \<and> w < length (sv_sw s)") (auto simp: visit_entry_def on_worker_def removes_def list_update_beyond)
  then show ?thesis by (auto simp: table_step_def)
qed (simp add: visit_entry_def table_step_same)

lemma go_step_table:
  assumes "go_step env inp gs s g = Some (Done (s', g', new))"
  shows "table_step gs g s s'"
proof (cases g)
  case (Delayed dReq sa rxTS)
  then show ?thesis using assms serve_delay_table by (auto simp: step_results)
next
  case (Tlvs sa sg tlvs)
  have "w_clients (sv_sw (fst (next_tlv sa sg tlvs s)) ! w) = w_clients (sv_sw s ! w)" for w
    by (cases "(sa, sg, tlvs, s)" rule: next_tlv.cases) (auto simp: Let_def)
  then show ?thesis using assms Tlvs by (auto simp: step_results intro!: table_step_same)
next
  case (Requests sa sg v t tlvs)
  then show ?thesis using assms serve_request_table by (auto simp: step_results)
next
  case (TakesStock w es ws p)
  then show ?thesis
    using assms visit_table by (cases es) (auto simp: next_entry_def step_results table_step_same split: prod.splits)
next
  case (Stops a sa sg tlvs)
  then obtain now where "stop_client now a sa sg tlvs s = Done (s', g', new)" using assms by (auto simp: step_results)
  then show ?thesis by (cases "Stop now (sv_heap s ! a)") (auto simp: stop_client_def intro!: table_step_same)
next
  case (Ticked a ctx)
  then obtain now where "ticked now a ctx s = Done (s', g', new)" using assms by (auto simp: step_results)
  then show ?thesis
    by (auto simp: ticked_def Let_def split: if_splits outcome.splits prod.splits intro!: table_step_same)
qed (use assms in \<open>auto simp: step_results read_event_def read_general_def find_cancelled_def arm_ticker_def leave_loop_def start_runs_def
  select_loop_def drain_loop_def next_worker_def Let_def
  split: input.splits sum.splits option.splits if_splits list.splits prod.splits intro!: table_step_same\<close>)


subsection \<open>Locks are exclusive\<close>

text \<open>Every key is in a table at most once, and an inventory has only entries of the table it holds left to visit.\<close>

definition keys_ok :: "sendWorker \<Rightarrow> bool" where
  "keys_ok w \<longleftrightarrow> distinct (map fst (w_clients w)) \<and> (\<forall>(t, subs) \<in> set (w_clients w). distinct (map fst subs))"

lemma keys_ok_entry:
  assumes "keys_ok w" and "(t, k, a) \<in> table_entries w"
  shows "FindSubscription k t w = Some a"
proof -
  obtain m where m: "(t, m) \<in> set (w_clients w)" "(k, a) \<in> set m" using assms(2) by (auto simp: table_entries_def)
  then have "map_of (w_clients w) t = Some m" "map_of m k = Some a" using assms(1) by (auto simp: keys_ok_def)
  then show ?thesis by (simp add: FindSubscription_def)
qed

lemma keys_ok_register:
  assumes "keys_ok w"
  shows "keys_ok (RegisterSubscription k t a w)"
proof -
  let ?m = "AList.update k a (case map_of (w_clients w) t of None \<Rightarrow> [] | Some m \<Rightarrow> m)"
  have "distinct (map fst ?m)"
    using assms by (intro distinct_update) (auto simp: keys_ok_def split: option.split dest: map_of_SomeD)
  then show ?thesis
    using assms set_update_subset [of t ?m "w_clients w"] distinct_update [of "w_clients w" t ?m]
    by (auto simp: keys_ok_def register_clients)
qed

lemma keys_ok_delete: "keys_ok w \<Longrightarrow> keys_ok (delete_entry t k w)"
  by (auto simp: keys_ok_def delete_entry_def comp_def split_def distinct_delete)

lemma keys_ok_cong: "w_clients w = w_clients w' \<Longrightarrow> keys_ok w = keys_ok w'"
  by (simp add: keys_ok_def)

lemma map_of_delete_entry:
  "map_of (map (\<lambda>(st, subs). (st, if st = t then AList.delete k subs else subs)) al) t'
     = map_option (\<lambda>subs. if t' = t then AList.delete k subs else subs) (map_of al t')"
  by (induction al) auto

lemma find_delete: "FindSubscription k' t' (delete_entry t k w) = (if k' = k \<and> t' = t then None else FindSubscription k' t' w)"
  by (auto simp: FindSubscription_def delete_entry_def map_of_delete_entry delete_conv' split: option.splits)

fun stock_ok :: "Server \<Rightarrow> goroutine \<Rightarrow> bool" where
  "stock_ok s (TakesStock w es ws p) = (distinct es \<and> (\<forall>(t, k, a) \<in> set es. FindSubscription k t (sv_sw s ! w) = Some a))"
| "stock_ok s g = True"

definition holders :: "(goroutine \<Rightarrow> bool) \<Rightarrow> goroutine list \<Rightarrow> nat" where
  "holders P gs = length (filter P gs)"

definition locks_inv :: "nat \<Rightarrow> system \<Rightarrow> bool" where
  "locks_inv n y \<longleftrightarrow> (\<forall>w. holders (holds_table w) (sy_go y) \<le> 1) \<and> (\<forall>a. holders (holds_client a) (sy_go y) \<le> 1)
     \<and> (\<forall>w < n. keys_ok (sv_sw (sy_server y) ! w)) \<and> (\<forall>g \<in> set (sy_go y). stock_ok (sy_server y) g)"

lemma holders_update:
  assumes "i < length gs" and "\<forall>g \<in> set new. \<not> P g" and "P g \<Longrightarrow> P (gs ! i) \<or> \<not> list_ex P gs" and "holders P gs \<le> 1"
  shows "holders P (gs[i := g] @ new) \<le> 1"
proof -
  have new: "filter P new = []" using assms(2) by (simp add: filter_empty_conv)
  have old: "filter P gs = filter P (take i gs) @ filter P [gs ! i] @ filter P (drop (Suc i) gs)"
    by (subst id_take_nth_drop [OF assms(1)]) simp
  have upd: "filter P (gs[i := g] @ new) = filter P (take i gs) @ filter P [g] @ filter P (drop (Suc i) gs)"
    using assms(1) new by (simp add: upd_conv_take_nth_drop)
  have "\<not> list_ex P gs \<Longrightarrow> filter P (take i gs) = [] \<and> filter P (drop (Suc i) gs) = []"
    by (auto simp: filter_empty_conv list_ex_iff dest: in_set_takeD in_set_dropD)
  then show ?thesis using assms(3,4) unfolding holders_def upd old by auto
qed

lemma holders_release:
  assumes "\<forall>g \<in> set gs. P (release w ch g) = P g"
  shows "holders P (map (release w ch) gs) = holders P gs"
  using assms unfolding holders_def by (induction gs) auto

lemma release_holds:
  assumes "go_ok n s g"
  shows "holds_table v (release w ch g) = holds_table v g" "holds_client a (release w ch g) = holds_client a g"
    "stock_ok s' (release w ch g) = stock_ok s' g"
proof -
  have "\<not> holds_table v k" "\<not> holds_client a k" "stock_ok s' k" if "resumable k" for k using that by (cases k; simp)+
  then show "holds_table v (release w ch g) = holds_table v g" "holds_client a (release w ch g) = holds_client a g"
    "stock_ok s' (release w ch g) = stock_ok s' g" using assms by (cases g; simp)+
qed

lemma sends_holds [simp]:
  assumes "resumable k"
  shows "\<not> holds_table v (sends a ch k s)" "\<not> holds_client b (sends a ch k s)" "stock_ok s' (sends a ch k s)"
  using assms by (cases k; simp add: sends_def Let_def)+

text \<open>Goroutines that can receive from the stop channel of a client before they need its lock.\<close>

fun receives :: "addr \<Rightarrow> goroutine \<Rightarrow> bool" where
  "receives a (ArmTicker b ctx) = (a = b)"
| "receives a (SelectLoop b ctx) = (a = b)"
| "receives a (Sends w ch r g) = receives a g"
| "receives a g = False"

text \<open>The handler of SIGTERM from the moment it has its signal.\<close>

fun terminating :: "goroutine \<Rightarrow> bool" where
  "terminating (Inventory ws (Terminates n)) = True"
| "terminating (TakesStock w es ws (Terminates n)) = True"
| "terminating Terminated = True"
| "terminating g = False"

text \<open>Which steps take a lock, come to a stop channel or begin to terminate.\<close>

definition shape :: "goroutine list \<Rightarrow> Server \<Rightarrow> goroutine \<Rightarrow> moved \<Rightarrow> bool" where
  "shape gs s g m \<longleftrightarrow> (case m of (s', g', new) \<Rightarrow>
     (\<forall>w. holds_table w g' \<longrightarrow> holds_table w g \<or> table_free w gs \<and> (\<exists>ws p. g = Inventory (w # ws) p))
     \<and> (\<forall>a. holds_client a g' \<longrightarrow> client_free a gs)
     \<and> (\<forall>a. receives a g' \<longrightarrow> receives a g \<or> client_free a gs)
     \<and> (terminating g' \<longrightarrow> terminating g \<or> g = AwaitSigterm)
     \<and> (\<forall>x \<in> set new. \<exists>a ctx. x = StartRuns a ctx))"

lemma receives_sends [simp]: "receives a (sends b ch k s) = receives a k"
  by (simp add: sends_def Let_def)

lemma terminating_sends [simp]: "resumable k \<Longrightarrow> \<not> terminating (sends b ch k s)"
  by (cases k) (simp_all add: sends_def Let_def)

lemma shape_simple:
  assumes "\<And>w. \<not> holds_table w g'" and "\<And>a. \<not> holds_client a g'" and "\<And>a. \<not> receives a g'" and "\<not> terminating g'"
    and "\<forall>x \<in> set new. \<exists>a ctx. x = StartRuns a ctx"
  shows "shape gs s g (s', g', new)"
  using assms by (simp add: shape_def)

lemma go_step_shape:
  assumes "go_step env inp gs s g = Some (Done m)"
  shows "shape gs s g m"
proof (cases g)
  case (Delayed dReq sa rxTS)
  then obtain now where "serve_delay env now dReq sa rxTS gs s = Some (Done m)" using assms by (auto simp: step_results)
  then show ?thesis
    by (auto simp: serve_delay_def Let_def split: option.splits if_splits outcome.splits intro!: shape_simple)
next
  case (Tlvs sa sg tlvs)
  have "shape gs s g (next_tlv sa sg tlvs s)"
    by (cases "(sa, sg, tlvs, s)" rule: next_tlv.cases) (auto simp: Let_def intro!: shape_simple)
  then show ?thesis using assms Tlvs by (auto simp: step_results)
next
  case (Requests sa sg v t tlvs)
  then obtain now where "serve_request env now sa sg v t tlvs gs s = Some (Done m)" using assms by (auto simp: step_results)
  then show ?thesis
    by (auto simp: serve_request_def Let_def split: option.splits if_splits prod.splits intro!: shape_simple)
next
  case (Stops a sa sg tlvs)
  then obtain now where "stop_client now a sa sg tlvs s = Done m" "client_free a gs" using assms by (auto simp: step_results)
  then show ?thesis by (cases "Stop now (sv_heap s ! a)") (auto simp: stop_client_def shape_def)
next
  case (Ticked a ctx)
  then obtain now where "ticked now a ctx s = Done m" "client_free a gs" using assms by (auto simp: step_results)
  then show ?thesis
    by (auto simp: ticked_def Let_def shape_def split: if_splits outcome.splits prod.splits)
next
  case (Inventory ws p)
  have "shape gs s (Inventory ws p) (s, stock_done p s, [])"
    by (cases "(p, s)" rule: stock_done.cases) (auto simp: shape_def)
  then show ?thesis
    using assms Inventory by (cases p) (auto simp: next_worker_def step_results shape_def split: list.splits input.splits)
next
  case (TakesStock w es ws p)
  then show ?thesis using assms by (cases es; cases p) (auto simp: next_entry_def step_results shape_def split: prod.splits)
qed (use assms in \<open>auto simp: step_results read_event_def read_general_def find_cancelled_def arm_ticker_def leave_loop_def start_runs_def
  select_loop_def drain_loop_def Let_def shape_def
  split: input.splits sum.splits option.splits if_splits list.splits prod.splits\<close>)

lemma holders_unique:
  assumes "holders P gs \<le> 1" and "i < length gs" and "j < length gs" and "P (gs ! i)" and "P (gs ! j)"
  shows "i = j"
proof -
  let ?I = "{i. i < length gs \<and> P (gs ! i)}"
  have "card ?I \<le> Suc 0" using assms(1) by (simp add: holders_def length_filter_conv_card)
  moreover have "finite ?I" by simp
  ultimately show ?thesis using assms(2-5) by (auto simp: card_le_Suc0_iff_eq)
qed

text \<open>While a goroutine holds a table, no step of another one changes it.\<close>

lemma held_table_kept:
  assumes "table_step gs (gs ! i) s s'" and "holders (holds_table w) gs \<le> 1" and "i < length gs" and "j < length gs"
    and "j \<noteq> i" and "holds_table w (gs ! j)"
  shows "w_clients (sv_sw s' ! w) = w_clients (sv_sw s ! w)"
proof -
  have "\<not> table_free w gs" using assms(4,6) by (auto simp: table_free_def list_ex_iff)
  moreover have "\<not> holds_table w (gs ! i)" using holders_unique [OF assms(2,3,4)] assms(5,6) by blast
  ultimately show ?thesis using assms(1) by (auto simp: table_step_def registers_def removes_def)
qed

lemma stock_ok_table: "holds_table w g \<Longrightarrow> w_clients (sv_sw s' ! w) = w_clients (sv_sw s ! w) \<Longrightarrow> stock_ok s g \<Longrightarrow> stock_ok s' g"
  by (cases g) (auto simp: FindSubscription_def)

lemma stock_ok_free: "(\<And>w. \<not> holds_table w g) \<Longrightarrow> stock_ok s g"
  by (cases g) auto

text \<open>The entries that are left after one was visited.\<close>

lemma stock_ok_visit:
  assumes "stock_ok s (TakesStock w ((t, k, a) # es) ws p)"
  shows "stock_ok (visit_entry w t k a s) (TakesStock w es ws p)"
proof -
  have "FindSubscription k' t' (sv_sw (visit_entry w t k a s) ! w) = Some a'" if e: "(t', k', a') \<in> set es" for t' k' a'
  proof -
    have f: "FindSubscription k' t' (sv_sw s ! w) = Some a'" "FindSubscription k t (sv_sw s ! w) = Some a" using assms e by auto
    have "(t', k') \<noteq> (t, k)" using assms e f by auto
    then show ?thesis
      using f by (cases "w < length (sv_sw s)") (auto simp: visit_entry_def on_worker_def find_delete list_update_beyond on_stats_def)
  qed
  then show ?thesis using assms by auto
qed

lemma go_step_stock:
  assumes "go_step env inp gs s g = Some (Done (s', g', new))" and "stock_ok s g" and "\<And>w. holds_table w g' \<Longrightarrow> keys_ok (sv_sw s ! w)"
  shows "stock_ok s' g'"
proof (cases g)
  case (Inventory ws p)
  have "stock_ok s (stock_done p s)" by (cases "(p, s)" rule: stock_done.cases) simp_all
  then show ?thesis
    using assms(1,3) Inventory keys_ok_entry
    by (auto simp: next_worker_def step_results entries_of_set split: list.splits input.splits)
next
  case (TakesStock w es ws p)
  show ?thesis
  proof (cases es)
    case Nil
    then show ?thesis using assms(1) TakesStock by (auto simp: next_entry_def step_results)
  next
    case (Cons e es')
    obtain t k a where e: "e = (t, k, a)" by (cases e)
    then have "s' = visit_entry w t k a s" "g' = TakesStock w es' ws p"
      using assms(1) TakesStock Cons by (auto simp: next_entry_def step_results)
    then show ?thesis using stock_ok_visit [of s w t k a es' ws p] assms(2) TakesStock Cons e by simp
  qed
qed (use go_step_shape [OF assms(1)] in \<open>auto simp: shape_def intro!: stock_ok_free\<close>)

lemma locks_inv_step:
  assumes "sys_inv env n y" and "locks_inv n y" and "sys_exec env m y = Some (Done y')"
  shows "locks_inv n y'"
proof -
  let ?s = "sy_server y" and ?s' = "sy_server y'" and ?gs = "sy_go y"
  have inv: "server_inv env n ?s" "\<forall>g \<in> set ?gs. go_ok n ?s g" using assms(1) by (simp_all add: sys_inv_def)
  have l: "\<And>w. holders (holds_table w) ?gs \<le> 1" "\<And>a. holders (holds_client a) ?gs \<le> 1" "\<And>w. w < n \<Longrightarrow> keys_ok (sv_sw ?s ! w)"
    "\<forall>g \<in> set ?gs. stock_ok ?s g"
    using assms(2) by (simp_all add: locks_inv_def)
  show ?thesis
  proof (cases m)
    case (Step i inp)
    then obtain g new where r: "go_step env inp ?gs ?s (?gs ! i) = Some (Done (?s', g, new))" "i < length ?gs"
      "sy_go y' = ?gs[i := g] @ new"
      using assms(3) by (auto split: if_splits option.splits outcome.splits)
    note tb = go_step_table [OF r(1)] and sh = go_step_shape [OF r(1), unfolded shape_def prod.case]
    have "go_ok n ?s' g"
      using go_step_ok [OF inv(1) _ _ r(1)] assms(1) r(2) by (simp add: sys_inv_def moves_ok_def)
    then have "stock_ok ?s' g" using go_step_stock [OF r(1)] l(3,4) r(2) by (cases g) auto
    moreover have "stock_ok ?s' (?gs ! j)" if "j < length ?gs" "j \<noteq> i" for j
      using held_table_kept [OF tb l(1) r(2) that] stock_ok_table stock_ok_free l(4) that nth_mem by metis
    moreover have "\<forall>x \<in> set new. stock_ok ?s' x" using sh by auto
    ultimately have "\<forall>x \<in> set (sy_go y'). stock_ok ?s' x"
      unfolding r(3) using r(2) by (auto simp: in_set_conv_nth nth_list_update)
    moreover have "keys_ok (sv_sw ?s' ! w)" if "w < n" for w
      using tb l(3) [OF that] keys_ok_register keys_ok_delete keys_ok_cong
      unfolding table_step_def registers_def removes_def by metis
    moreover have "holders (holds_table w) (sy_go y') \<le> 1" for w
      unfolding r(3) using sh by (intro holders_update [OF r(2) _ _ l(1)]) (auto simp: table_free_def)
    moreover have "holders (holds_client a) (sy_go y') \<le> 1" for a
      unfolding r(3) using sh by (intro holders_update [OF r(2) _ _ l(2)]) (auto simp: client_free_def)
    ultimately show ?thesis by (simp add: locks_inv_def)
  next
    case (Turn w ch io)
    then have r: "worker_turn env w ch io ?s = Some (Done ?s')" "w < length (sv_sw ?s)" "sy_go y' = map (release w ch) ?gs"
      using assms(3) by (auto split: if_splits option.splits outcome.splits)
    have c: "w_clients (sv_sw ?s' ! v) = w_clients (sv_sw ?s ! v)" for v using worker_turn_chan(4) [OF inv(1) r(2,1)] .
    have "stock_ok ?s' (release w ch g)" if "g \<in> set ?gs" for g
      using release_holds(3) stock_ok_table [OF _ c] stock_ok_free l(4) inv(2) that by metis
    moreover have "holders (holds_table v) (sy_go y') = holders (holds_table v) ?gs"
      "holders (holds_client a) (sy_go y') = holders (holds_client a) ?gs" for v a
      unfolding r(3) using inv(2) release_holds(1,2) by (auto intro!: holders_release)
    ultimately show ?thesis
      using l(1-3) keys_ok_cong [OF c] r(3) by (auto simp: locks_inv_def)
  next
    case Reload
    then have r: "?s' = reload_config env ?s" "sy_go y' = ?gs" using assms(3) by auto
    have c: "sv_sw ?s' = sv_sw ?s" by (simp add: r(1) reload_config_def on_stats_def split: sum.split)
    have "stock_ok ?s' g" if "g \<in> set ?gs" for g
      using stock_ok_table [of _ g ?s' ?s] stock_ok_free l(4) that c by metis
    then show ?thesis using l(1-3) by (simp add: locks_inv_def r(2) c)
  qed
qed


lemma Server_Start_workers:
  assumes "fst (Server_Start cenv c stats checks) = Inr s"
  shows "sv_sw s = map (\<lambda>i. newSendWorker (int i)) [0..<nat (SendWorkers (cfg_static c))]"
proof -
  obtain err cenv' where "CreatePidFile cenv (cfg_static c) = (err, cenv')" by (cases "CreatePidFile cenv (cfg_static c)")
  then show ?thesis using assms by (auto simp: Server_Start_def split: sum.splits option.splits)
qed

lemma locks_start:
  assumes "started env s"
  shows "locks_inv (length (sv_sw s)) (sys_start s)"
proof -
  have "filter (holds_table w) (sy_go (sys_start s)) = []" "filter (holds_client a) (sy_go (sys_start s)) = []" for w a
    by (auto simp: sys_start_def Let_def)
  moreover have "stock_ok s' g" if "g \<in> set (sy_go (sys_start s))" for g s' using that by (auto simp: sys_start_def Let_def)
  moreover have "keys_ok (sv_sw s ! w)" if "w < length (sv_sw s)" for w
    using assms that Server_Start_workers by (auto simp: started_def keys_ok_def newSendWorker_def)
  ultimately show ?thesis by (auto simp: locks_inv_def holders_def) (simp add: sys_start_def Let_def)
qed

lemma started_locks:
  assumes "started env s0" and "sys_reachable env (sys_start s0) y"
  shows "locks_inv (length (sv_sw s0)) y"
  using assms(2)
proof (induction rule: sys_reachable.induct)
  case (sys_move y m y')
  then show ?case using locks_inv_step [OF started_sys(1) [OF assms(1)]] by blast
qed (rule locks_start [OF assms(1)])


text \<open>C8: locks exclude: no two goroutines hold the lock of the same client or of the same table; every key is in a table once; and every entry that an inventory has still to visit is the one registered in the table under its key.\<close>

theorem locks_exclusive:
  assumes "started env s0" and "sys_reachable env (sys_start s0) y"
    and "i < length (sy_go y)" and "j < length (sy_go y)"
  shows "(holds_client a (sy_go y ! i) \<and> holds_client a (sy_go y ! j) \<longrightarrow> i = j)
    \<and> (holds_table w (sy_go y ! i) \<and> holds_table w (sy_go y ! j) \<longrightarrow> i = j)
    \<and> (w < length (sv_sw s0) \<and> (t, k, b) \<in> table_entries (sv_sw (sy_server y) ! w)
        \<longrightarrow> FindSubscription k t (sv_sw (sy_server y) ! w) = Some b)
    \<and> (sy_go y ! i = TakesStock w es ws p \<and> (t, k, b) \<in> set es \<longrightarrow> FindSubscription k t (sv_sw (sy_server y) ! w) = Some b)"
proof -
  have l: "locks_inv (length (sv_sw s0)) y" using started_locks [OF assms(1,2)] .
  then have "stock_ok (sy_server y) (sy_go y ! i)" using assms(3) by (simp add: locks_inv_def)
  then have "FindSubscription k t (sv_sw (sy_server y) ! w) = Some b" if "sy_go y ! i = TakesStock w es ws p" "(t, k, b) \<in> set es"
    using that by auto
  then show ?thesis
    using l assms(3,4) holders_unique [of "holds_client a" "sy_go y" i j] holders_unique [of "holds_table w" "sy_go y" i j]
      keys_ok_entry by (auto simp: locks_inv_def)
qed

lemma sample_stock:
  "case sys_run sample_senv (sample_looping @ [Step 22 (Go 0), Step 22 (Entries []), Step 22 (Go 0),
      Step 22 (Entries [(MessageSync, PortIdentity 9 1, 0)])]) (sys_start sample_server) of None \<Rightarrow> False
   | Some y \<Rightarrow> sy_go y ! 22 = TakesStock 1 [(MessageSync, PortIdentity 9 1, 0)] [] Metrics \<and> length (sy_go y) = 24"
  by code_simp

theorem locks_exclusive_witness:
  "\<exists>y. sys_reachable sample_senv (sys_start sample_server) y
     \<and> sy_go y ! 22 = TakesStock 1 [(MessageSync, PortIdentity 9 1, 0)] [] Metrics
     \<and> FindSubscription (PortIdentity 9 1) MessageSync (sv_sw (sy_server y) ! 1) = Some 0"
proof -
  obtain y where r: "sys_run sample_senv (sample_looping @ [Step 22 (Go 0), Step 22 (Entries []), Step 22 (Go 0),
      Step 22 (Entries [(MessageSync, PortIdentity 9 1, 0)])]) (sys_start sample_server) = Some y" "length (sy_go y) = 24"
    "sy_go y ! 22 = TakesStock 1 [(MessageSync, PortIdentity 9 1, 0)] [] Metrics"
    using sample_stock by (auto split: option.splits)
  note y = sys_run_reachable [OF r(1)] r(2,3)
  then show ?thesis
    using locks_exclusive [OF sample_started y(1), of 22 22 0 1 MessageSync "PortIdentity 9 1" 0
        "[(MessageSync, PortIdentity 9 1, 0)]" "[]" Metrics] by (intro exI [of _ y]) simp
qed

end
