(* ===== verification/Ptp_Deadlock.thy ===== *)
theory Ptp_Deadlock
  imports Ptp_Locks
begin

section \<open>Waiting for ever (\<^verbatim>\<open>src/server/subscription.go\<close>)\<close>

text \<open>
  \<^verbatim>\<open>Stop\<close> sends on the stop channel with the lock of the client held, and the goroutine that would receive
  takes the same lock after a tick and before it ends. Two cancels are enough for both to wait for each other. The
  inventories then wait for the client with the table of the worker held.
\<close>

subsection \<open>A client whose lock is held\<close>

definition kept :: "addr \<Rightarrow> Server \<Rightarrow> Server \<Rightarrow> bool" where
  "kept a s s' \<longleftrightarrow> a < length (sv_heap s') \<and> sc_stop (sv_heap s' ! a) = sc_stop (sv_heap s ! a)
     \<and> sc_running (sv_heap s' ! a) = sc_running (sv_heap s ! a)"

lemma kept_refl: "a < length (sv_heap s) \<Longrightarrow> kept a s s"
  by (simp add: kept_def)

lemma kept_ops [simp]:
  "kept a s (push b q s') = kept a s s'" "kept a s (pushes b qs s') = kept a s s'" "kept a s (on_worker w f s') = kept a s s'"
  "kept a s (on_stats o' s') = kept a s s'" "kept a s (spawn b s') = kept a s s'" "kept a s (s'\<lparr>sv_spawned := rs\<rparr>) = kept a s s'"
  "kept a s (Drain_cancel s') = kept a s s'" "kept a s (Undrain s') = kept a s s'"
  by (simp_all add: kept_def Drain_cancel_def Undrain_def)

lemma kept_client:
  assumes "kept a s s'"
    and "b = a \<Longrightarrow> sc_stop (f (sv_heap s' ! a)) = sc_stop (sv_heap s' ! a) \<and> sc_running (f (sv_heap s' ! a)) = sc_running (sv_heap s' ! a)"
  shows "kept a s (on_client b f s')"
  using assms by (cases "b = a") (auto simp: kept_def)

lemma kept_new: "kept a s s' \<Longrightarrow> kept a s (s'\<lparr>sv_heap := sv_heap s' @ [c]\<rparr>)"
  by (simp add: kept_def nth_append)

lemma stop_updates [simp]:
  "sc_stop (UpdateSync c) = sc_stop c" "sc_stop (UpdateFollowup l t c) = sc_stop c"
  "sc_stop (UpdateAnnounce l cf c) = sc_stop c" "sc_stop (UpdateAnnounceFollowUp t c) = sc_stop c"
  "sc_stop (UpdateSyncDelayReq t q c) = sc_stop c" "sc_stop (UpdateAnnounceDelayReq cf co q c) = sc_stop c"
  "sc_stop (UpdateDelayResp h t c) = sc_stop c" "sc_stop (IncSequenceID c) = sc_stop c"
  "sc_stop (UpdateSignalingGrant sg mt i d c) = sc_stop c" "sc_stop (SetExpire e c) = sc_stop c"
  "sc_stop (SetInterval j c) = sc_stop c" "sc_stop (SetGclisa sa c) = sc_stop c"
  by (simp_all add: UpdateSync_def UpdateFollowup_def UpdateAnnounce_def UpdateAnnounceFollowUp_def UpdateSyncDelayReq_def
    UpdateAnnounceDelayReq_def UpdateDelayResp_def IncSequenceID_def UpdateSignalingGrant_def SetExpire_def SetInterval_def SetGclisa_def Let_def)

lemma running_sets [simp]:
  "sc_running (SetExpire e c) = sc_running c" "sc_running (SetInterval i c) = sc_running c" "sc_running (SetGclisa sa c) = sc_running c"
  by (simp_all add: SetExpire_def SetInterval_def SetGclisa_def)

lemma sptp_request_kept:
  assumes "a < length (sv_heap s)"
  shows "kept a s (sptp_request now d sa rxt w s)"
  unfolding sptp_request_def Let_def newClient_def
  by (auto split: option.split intro!: kept_client kept_new kept_refl [OF assms])

lemma delay_request_kept:
  assumes "a < length (sv_heap s)" and "delay_request env now d sa rxt s = Done s'"
  shows "kept a s s'"
  using assms sptp_request_kept [OF assms(1)]
  by (auto simp: delay_request_def Let_def split: option.splits if_splits intro!: kept_client kept_refl)

lemma grant_client_kept:
  assumes "a < length (sv_heap s)"
  shows "kept a s (snd (grant_client env now g k t i e w s))"
  unfolding grant_client_def by (auto split: option.split intro!: kept_client kept_new kept_refl [OF assms])

lemma map_stop_update: "sc_stop c = sc_stop (h ! a) \<Longrightarrow> map sc_stop (h[a := c]) = map sc_stop h"
  by (cases "a < length h") (simp_all add: map_update list_update_same_conv list_update_beyond)

lemma general_branch_stop:
  "general_branch cfg io a packet txType out s h stats = Some (s', h', stats', out') \<Longrightarrow> map sc_stop h' = map sc_stop h"
  by (auto simp: general_branch_def finish_send_def map_stop_update split: option.splits if_splits prod.splits)

lemma worker_turn_kept:
  assumes "server_inv env n s" and "w < length (sv_sw s)" and "worker_turn env w ch io s = Some (Done s')" and "a < length (sv_heap s)"
  shows "kept a s s'"
proof -
  obtain wk h stats out where t: "worker_step (env_log2i env) (sv_Config s) io ch (sv_sw s ! w) (sv_heap s) (sv_Stats s)
      = Some (Some (wk, h, stats, out))" "sv_heap s' = h"
    using assms(3) by (auto simp: worker_turn_def split: option.splits)
  have "map sc_stop h = map sc_stop (sv_heap s)"
  proof (cases ch)
    case Queue
    have "\<forall>x \<in> set (w_queue (sv_sw s ! w)). x < length (sv_heap s)"
      using assms(1,2) by (simp add: server_inv_def worker_inv_def)
    then show ?thesis
      using Queue t(1)
      by (auto simp: worker_queue_step_def Let_def map_stop_update split: list.splits if_splits option.splits prod.splits
          dest!: general_branch_stop)
  next
    case SignalingQueue
    then show ?thesis
      using t(1) by (auto simp: worker_signaling_step_def split: list.splits if_splits option.splits prod.splits)
  qed
  moreover have "map sc_running h = map sc_running (sv_heap s)" using worker_turn_chan(5) [OF assms(1-3)] t(2) by simp
  ultimately show ?thesis using t(2) assms(4) unfolding kept_def by (metis length_map nth_map)
qed

text \<open>A step of another goroutine leaves the stop channel and the running flag alone.\<close>

lemma go_step_kept:
  assumes "go_step env inp gs s g = Some (Done (s', g', new))" and "a < length (sv_heap s)" and "\<not> client_free a gs"
    and "\<not> receives a g" and "sc_stop (sv_heap s ! a) \<noteq> []"
  shows "kept a s s'"
proof (cases g)
  case (Delayed dReq sa rxTS)
  then obtain now where "serve_delay env now dReq sa rxTS gs s = Some (Done (s', g', new))" using assms(1) by (auto simp: step_results)
  then show ?thesis
    using delay_request_kept [OF assms(2)]
    by (auto simp: serve_delay_def Let_def split: option.splits if_splits outcome.splits)
next
  case (Tlvs sa sg tlvs)
  have "kept a s (fst (next_tlv sa sg tlvs s))"
    using kept_refl [OF assms(2)] by (cases "(sa, sg, tlvs, s)" rule: next_tlv.cases) (auto simp: Let_def)
  then show ?thesis using assms(1) Tlvs by (auto simp: step_results)
next
  case (Requests sa sg v t tlvs)
  then obtain now where r: "serve_request env now sa sg v t tlvs gs s = Some (Done (s', g', new))" using assms(1) by (auto simp: step_results)
  obtain w where w: "findWorker env (SourcePortIdentity (sig_Header sg)) 0 s = Some w"
    using r by (auto simp: serve_request_def Let_def split: option.splits)
  show ?thesis
    using r w grant_client_kept [OF assms(2), of env now sa "SourcePortIdentity (sig_Header sg)" t "req_interval env v"
        "now + wrap64 (uint (req_DurationField v) * Second)" w]
    by (auto simp: serve_request_def Let_def sendSignalingGrant_def split: if_splits prod.splits intro!: kept_client)
next
  case (Stops b sa sg tlvs)
  then obtain now where "stop_client now b sa sg tlvs s = Done (s', g', new)" "client_free b gs" using assms(1) by (auto simp: step_results)
  then show ?thesis
    using assms(3) kept_refl [OF assms(2)] by (cases "Stop now (sv_heap s ! b)") (auto simp: stop_client_def intro!: kept_client)
next
  case (StopWaits b sa sg tlvs)
  then show ?thesis using assms kept_refl [OF assms(2)] by (auto simp: step_results intro!: kept_client)
next
  case (StartRuns b ctx)
  then show ?thesis
    using assms kept_refl [OF assms(2)] by (auto simp: step_results start_runs_def Let_def split: if_splits intro!: kept_client)
next
  case (ArmTicker b ctx)
  then show ?thesis
    using assms kept_refl [OF assms(2)] by (auto simp: step_results arm_ticker_def Let_def split: if_splits intro!: kept_client)
next
  case (SelectLoop b ctx)
  then show ?thesis
    using assms kept_refl [OF assms(2)] by (auto simp: step_results select_loop_def split: input.splits intro!: kept_client)
next
  case (Ticked b ctx)
  then obtain now where "ticked now b ctx s = Done (s', g', new)" "client_free b gs" using assms(1) by (auto simp: step_results)
  then show ?thesis
    using assms(3) kept_refl [OF assms(2)]
    by (auto simp: ticked_def Let_def split: if_splits outcome.splits prod.splits intro!: kept_client)
next
  case (Leaves b)
  then show ?thesis
    using assms kept_refl [OF assms(2)] by (auto simp: step_results leave_loop_def Let_def split: prod.splits intro!: kept_client)
next
  case (TakesStock w es ws p)
  then show ?thesis
    using assms kept_refl [OF assms(2)] by (cases es) (auto simp: step_results next_entry_def visit_entry_def split: prod.splits)
qed (use assms kept_refl [OF assms(2)] in \<open>auto simp: step_results read_event_def read_general_def find_cancelled_def
  drain_loop_def next_worker_def Let_def report_def
  split: input.splits sum.splits option.splits if_splits list.splits prod.splits\<close>)

subsection \<open>A handler that waits for ever\<close>

definition stuck :: "nat \<Rightarrow> addr \<Rightarrow> system \<Rightarrow> bool" where
  "stuck i a y \<longleftrightarrow> i < length (sy_go y) \<and> holds_client a (sy_go y ! i) \<and> a < length (sv_heap (sy_server y))
     \<and> sc_stop (sv_heap (sy_server y) ! a) \<noteq> [] \<and> \<not> list_ex (receives a) (sy_go y)"

lemma receives_release: "receives a (release w ch g) \<Longrightarrow> receives a g"
  by (cases g) (auto split: if_splits)

lemma find_kept:
  assumes "table_step gs g s s'" and "stock_ok s g" and "\<not> client_free a gs" and "FindSubscription k t (sv_sw s ! w) = Some a"
  shows "FindSubscription k t (sv_sw s' ! w) = Some a"
proof -
  consider "w_clients (sv_sw s' ! w) = w_clients (sv_sw s ! w)" | "registers gs s w (sv_sw s' ! w)" | "removes gs g s w (sv_sw s' ! w)"
    using assms(1) by (auto simp: table_step_def)
  then show ?thesis
  proof cases
    case 1
    then show ?thesis using assms(4) FindSubscription_cong by metis
  next
    case 2
    then obtain k' t' b where r: "w_clients (sv_sw s' ! w) = w_clients (RegisterSubscription k' t' b (sv_sw s ! w))"
      "(k', t') \<noteq> (k, t)"
      using assms(3,4) by (auto simp: registers_def)
    then show ?thesis using assms(4) FindSubscription_cong [OF r(1), of k t] by (auto simp: table.find_register)
  next
    case 3
    then obtain t' k' a' where r: "w_clients (sv_sw s' ! w) = w_clients (delete_entry t' k' (sv_sw s ! w))"
      "FindSubscription k' t' (sv_sw s ! w) = Some a'" "client_free a' gs"
      using assms(2) by (auto simp: removes_def)
    then have "\<not> (k = k' \<and> t = t')" using assms(3,4) by auto
    then show ?thesis using assms(4) FindSubscription_cong [OF r(1), of k t] by (auto simp: find_delete)
  qed
qed

lemma stuck_step:
  assumes "sys_inv env n y" and "locks_inv n y" and "stuck i a y" and "sys_exec env m y = Some (Done y')"
  shows "stuck i a y'" and "sy_go y' ! i = sy_go y ! i" and "kept a (sy_server y) (sy_server y')"
    and "FindSubscription k t (sv_sw (sy_server y) ! w) = Some a \<Longrightarrow> FindSubscription k t (sv_sw (sy_server y') ! w) = Some a"
proof -
  let ?s = "sy_server y" and ?s' = "sy_server y'" and ?gs = "sy_go y"
  have st: "i < length ?gs" "holds_client a (?gs ! i)" "a < length (sv_heap ?s)" "sc_stop (sv_heap ?s ! a) \<noteq> []"
    "\<forall>g \<in> set ?gs. \<not> receives a g"
    using assms(3) by (auto simp: stuck_def list_ex_iff)
  have held: "\<not> client_free a ?gs" using st(1,2) by (auto simp: client_free_def list_ex_iff)
  have "kept a ?s ?s' \<and> sy_go y' ! i = ?gs ! i \<and> length ?gs \<le> length (sy_go y') \<and> (\<forall>g \<in> set (sy_go y'). \<not> receives a g)
    \<and> (FindSubscription k t (sv_sw ?s ! w) = Some a \<longrightarrow> FindSubscription k t (sv_sw ?s' ! w) = Some a)"
  proof (cases m)
    case (Step j inp)
    then obtain g new where r: "go_step env inp ?gs ?s (?gs ! j) = Some (Done (?s', g, new))" "j < length ?gs"
      "sy_go y' = ?gs[j := g] @ new"
      using assms(4) by (auto split: if_splits option.splits outcome.splits)
    note sh = go_step_shape [OF r(1), unfolded shape_def prod.case]
    have "\<not> receives a (?gs ! j)" "stock_ok ?s (?gs ! j)" using st(5) r(2) assms(2) by (simp_all add: locks_inv_def)
    then have k: "kept a ?s ?s'" "\<not> receives a g" and f: "FindSubscription k t (sv_sw ?s ! w) = Some a \<Longrightarrow> FindSubscription k t (sv_sw ?s' ! w) = Some a"
      using go_step_kept [OF r(1) st(3) held] st(4) sh held find_kept [OF go_step_table [OF r(1)] _ held] by auto
    have "j \<noteq> i"
    proof
      assume "j = i"
      then show False using r(1) st(2,4) by (cases "?gs ! i") (auto simp: step_results)
    qed
    then have "sy_go y' ! i = ?gs ! i" using r(3) st(1) by (simp add: nth_append)
    moreover have "\<forall>x \<in> set (sy_go y'). \<not> receives a x"
      using r(3) st(5) k(2) sh set_update_subset_insert [of ?gs j g] by auto
    ultimately show ?thesis using k(1) f r(3) by simp
  next
    case (Turn v ch io)
    then have r: "worker_turn env v ch io ?s = Some (Done ?s')" "v < length (sv_sw ?s)" "sy_go y' = map (release v ch) ?gs"
      using assms(4) by (auto split: if_splits option.splits outcome.splits)
    have inv: "server_inv env n ?s" using assms(1) by (simp add: sys_inv_def)
    have "sy_go y' ! i = ?gs ! i" using r(3) st(1,2) by (cases "?gs ! i") auto
    then show ?thesis
      using r(3) worker_turn_kept [OF inv r(2,1) st(3)] st(5) receives_release
        FindSubscription_cong [OF worker_turn_chan(4) [OF inv r(2,1)], of k t w] by auto
  next
    case Reload
    then have "?s' = reload_config env ?s" "sy_go y' = ?gs" using assms(4) by auto
    then show ?thesis
      using st(3,5) by (auto simp: reload_config_def kept_def on_stats_def split: sum.splits)
  qed
  then show "stuck i a y'" "sy_go y' ! i = sy_go y ! i" "kept a ?s ?s'"
    "FindSubscription k t (sv_sw ?s ! w) = Some a \<Longrightarrow> FindSubscription k t (sv_sw ?s' ! w) = Some a"
    using st by (auto simp: stuck_def kept_def list_ex_iff)
qed

text \<open>The handler of SIGTERM still has to visit an entry.\<close>

fun must_visit :: "nat \<Rightarrow> u8 \<times> PortIdentity \<times> addr \<Rightarrow> goroutine \<Rightarrow> bool" where
  "must_visit w e (Inventory ws (Terminates n)) = (w \<in> set ws \<or> 0 < n)"
| "must_visit w e (TakesStock v es ws (Terminates n)) = (v = w \<and> e \<in> set es \<or> w \<in> set ws \<or> 0 < n)"
| "must_visit w e Terminated = False"
| "must_visit w e g = True"

lemma must_visit_free: "\<not> terminating g \<Longrightarrow> must_visit w e g"
  by (cases "(w, e, g)" rule: must_visit.cases) auto

lemma must_visit_step:
  assumes "go_step env inp gs s g = Some (Done (s', g', new))" and "must_visit w (t, k, a) g" and "\<not> client_free a gs"
    and "FindSubscription k t (sv_sw s ! w) = Some a" and "w < length (sv_sw s)"
  shows "must_visit w (t, k, a) g'"
proof (cases "terminating g \<or> g = AwaitSigterm")
  case False
  then have "\<not> terminating g'" using go_step_shape [OF assms(1)] by (auto simp: shape_def)
  then show ?thesis by (rule must_visit_free)
next
  case True
  have "(t, k, a) \<in> set (entries_of (sv_sw s ! w))" using table.find_entry [OF assms(4)] by (simp add: entries_of_set)
  moreover have "w \<in> set (all_workers s)" using assms(5) by (simp add: all_workers_def)
  moreover have "must_visit w (t, k, a) (stock_done (Terminates m) s)" if "0 < m" for m
    using that \<open>w \<in> set (all_workers s)\<close> by (cases m) simp_all
  ultimately show ?thesis
    using True assms(1-3)
    by (cases g rule: terminating.cases)
      (auto simp: step_results next_worker_def next_entry_def split: list.splits input.splits prod.splits)
qed


lemma must_visit_release: "go_ok n s g \<Longrightarrow> must_visit w e g \<Longrightarrow> must_visit w e (release v ch g)"
proof (cases g)
  case (Sends v' c r k)
  assume "go_ok n s g"
  then have "must_visit w e k" using Sends by (cases k) auto
  then show "must_visit w e (release v ch g)" using Sends by simp
qed simp_all

text \<open>What stays as it is from a stuck state on.\<close>

definition jammed :: "nat \<Rightarrow> addr \<Rightarrow> nat \<Rightarrow> PortIdentity \<Rightarrow> u8 \<Rightarrow> system \<Rightarrow> bool" where
  "jammed i a w k t y \<longleftrightarrow> stuck i a y \<and> FindSubscription k t (sv_sw (sy_server y) ! w) = Some a
     \<and> (\<forall>g \<in> set (sy_go y). must_visit w (t, k, a) g)"

lemma jammed_step:
  assumes "sys_inv env n y" and "locks_inv n y" and "jammed i a w k t y" and "w < n" and "sys_exec env m y = Some (Done y')"
  shows "jammed i a w k t y'"
proof -
  let ?s = "sy_server y" and ?gs = "sy_go y"
  have j: "stuck i a y" "FindSubscription k t (sv_sw ?s ! w) = Some a" "\<forall>g \<in> set ?gs. must_visit w (t, k, a) g"
    using assms(3) by (simp_all add: jammed_def)
  have held: "\<not> client_free a ?gs" using j(1) by (auto simp: stuck_def client_free_def list_ex_iff)
  have l: "w < length (sv_sw ?s)" using assms(1,4) by (simp add: sys_inv_def server_inv_def)
  have "\<forall>g \<in> set (sy_go y'). must_visit w (t, k, a) g"
  proof (cases m)
    case (Step x inp)
    then obtain g new where r: "go_step env inp ?gs ?s (?gs ! x) = Some (Done (sy_server y', g, new))" "x < length ?gs"
      "sy_go y' = ?gs[x := g] @ new"
      using assms(5) by (auto split: if_splits option.splits outcome.splits)
    have "must_visit w (t, k, a) g" using must_visit_step [OF r(1) _ held j(2) l] j(3) r(2) by simp
    moreover have "\<forall>h \<in> set new. must_visit w (t, k, a) h" using go_step_shape [OF r(1)] by (auto simp: shape_def)
    ultimately show ?thesis using r(3) j(3) set_update_subset_insert [of ?gs x g] by auto
  next
    case (Turn v ch io)
    then show ?thesis
      using assms(1,5) j(3) must_visit_release [of n ?s] by (auto simp: sys_inv_def split: if_splits option.splits outcome.splits)
  next
    case Reload
    then show ?thesis using assms(5) j(3) by auto
  qed
  then show ?thesis using stuck_step(1,4) [OF assms(1,2) j(1) assms(5)] j(2) by (simp add: jammed_def)
qed

lemma jammed_forever:
  assumes "sys_reachable env y y'" and "sys_inv env n y" and "locks_inv n y" and "jammed i a w k t y" and "w < n"
  shows "jammed i a w k t y' \<and> sy_go y' ! i = sy_go y ! i
    \<and> sc_running (sv_heap (sy_server y') ! a) = sc_running (sv_heap (sy_server y) ! a) \<and> sys_inv env n y' \<and> locks_inv n y'"
  using assms
proof (induction rule: sys_reachable.induct)
  case (sys_move y1 m y2)
  then have i: "jammed i a w k t y1" "sys_inv env n y1" "locks_inv n y1" by simp_all
  then have "stuck i a y1" by (simp add: jammed_def)
  note st = stuck_step(2,3) [OF i(2,3) this sys_move.hyps(2)]
  show ?case
    using sys_move jammed_step [OF i(2,3,1) sys_move.prems(4) sys_move.hyps(2)] st sys_inv_step(1) [OF i(2) sys_move.hyps(2)]
      locks_inv_step [OF i(2,3) sys_move.hyps(2)] by (auto simp: kept_def)
qed simp


text \<open>The goroutine of the client that ticked waits for the lock.\<close>

lemma ticked_waits:
  assumes "sys_exec env m y = Some (Done y')" and "i < length (sy_go y)" and "holds_client a (sy_go y ! i)"
    and "j < length (sy_go y) \<and> sy_go y ! j = Ticked a ctx"
  shows "j < length (sy_go y') \<and> sy_go y' ! j = Ticked a ctx"
proof (cases m)
  case (Step x inp)
  have "\<not> client_free a (sy_go y)" using assms(2,3) nth_mem by (fastforce simp: client_free_def list_ex_iff)
  then show ?thesis
    using assms(1,4) Step by (cases "x = j")
      (auto simp: at_time_def unless_held_def nth_append split: if_splits option.splits outcome.splits input.splits)
qed (use assms in \<open>auto split: if_splits option.splits outcome.splits\<close>)

lemma ticked_forever:
  assumes "sys_reachable env y y'" and "sys_inv env n y" and "locks_inv n y" and "jammed i a w k t y" and "w < n"
    and "j < length (sy_go y)" and "sy_go y ! j = Ticked a ctx"
  shows "j < length (sy_go y') \<and> sy_go y' ! j = Ticked a ctx"
  using assms(1)
proof (induction rule: sys_reachable.induct)
  case (sys_move y1 m y2)
  have "stuck i a y1" using jammed_forever [OF sys_move.hyps(1) assms(2-5)] by (simp add: jammed_def)
  then show ?case using ticked_waits [OF sys_move.hyps(2) _ _ sys_move.IH] by (auto simp: stuck_def)
qed (use assms in simp)

subsection \<open>Two cancels\<close>

lemma table_free_update: "table_free w gs \<Longrightarrow> \<not> holds_table w g \<Longrightarrow> table_free w (gs[i := g])"
  using set_update_subset_insert [of gs i g] by (auto simp: table_free_def list_ex_iff)

lemma client_free_update: "client_free a gs \<Longrightarrow> \<not> holds_client a g \<Longrightarrow> client_free a (gs[i := g])"
  using set_update_subset_insert [of gs i g] by (auto simp: client_free_def list_ex_iff)

lemma sys_move3:
  assumes "sys_exec env m1 y = Some (Done y1)" and "sys_exec env m2 y1 = Some (Done y2)" and "sys_exec env m3 y2 = Some (Done y3)"
  shows "sys_reachable env y y3"
  using sys_reachable.sys_move [OF sys_reachable.sys_move [OF sys_reachable.sys_move [OF sys_reachable.sys_begin assms(1)] assms(2)] assms(3)] .

text \<open>A handler serves a cancel TLV of a client that is found.\<close>

lemma cancel_served:
  assumes "i < length (sy_go y)" and "sy_go y ! i = Tlvs sa sg (CancelUnicastTransmissionTLV v # tlvs)"
    and "findWorker env (SourcePortIdentity (sig_Header sg)) 0 (sy_server y) = Some w"
    and "FindSubscription (SourcePortIdentity (sig_Header sg)) t (sv_sw (sy_server y) ! w) = Some a"
    and "t = Unicast_MsgType (cancel_MsgTypeAndFlags v)" and "table_free w (sy_go y)" and "client_free a (sy_go y)"
    and "stop_client now a sa sg tlvs (on_stats (IncRXSignalingCancel t) (sy_server y)) = Done (s', g, [])"
  shows "sys_reachable env y \<lparr>sy_server = s', sy_go = (sy_go y)[i := g]\<rparr>"
proof (rule sys_move3)
  let ?s = "on_stats (IncRXSignalingCancel t) (sy_server y)" and ?gs = "sy_go y"
  show "sys_exec env (Step i (Go now)) y = Some (Done \<lparr>sy_server = ?s, sy_go = ?gs[i := Cancels sa sg t tlvs]\<rparr>)"
    using assms(1,2,5) by (simp add: at_time_def always_def Let_def)
  show "sys_exec env (Step i (Go now)) \<lparr>sy_server = ?s, sy_go = ?gs[i := Cancels sa sg t tlvs]\<rparr>
      = Some (Done \<lparr>sy_server = ?s, sy_go = ?gs[i := Stops a sa sg tlvs]\<rparr>)"
    using assms(1,3,4,6) by (simp add: at_time_def find_cancelled_def table_free_update)
  show "sys_exec env (Step i (Go now)) \<lparr>sy_server = ?s, sy_go = ?gs[i := Stops a sa sg tlvs]\<rparr>
      = Some (Done \<lparr>sy_server = s', sy_go = (sy_go y)[i := g]\<rparr>)"
    using assms(1,7,8) by (simp add: at_time_def unless_held_def client_free_update)
qed

lemma two_cancels:
  assumes "i < length (sy_go y)" and "sy_go y ! i = Tlvs sa sg [CancelUnicastTransmissionTLV v, CancelUnicastTransmissionTLV v]"
    and "j < length (sy_go y)" and "sy_go y ! j = SelectLoop a ctx"
    and "findWorker env (SourcePortIdentity (sig_Header sg)) 0 (sy_server y) = Some w"
    and "FindSubscription (SourcePortIdentity (sig_Header sg)) t (sv_sw (sy_server y) ! w) = Some a"
    and "t = Unicast_MsgType (cancel_MsgTypeAndFlags v)"
    and "a < length (sv_heap (sy_server y))" and "sc_running (sv_heap (sy_server y) ! a)" and "sc_stop (sv_heap (sy_server y) ! a) = []"
    and "table_free w (sy_go y)" and "client_free a (sy_go y)"
  shows "\<exists>s'. sys_reachable env y \<lparr>sy_server = s', sy_go = (sy_go y)[j := Ticked a ctx, i := StopWaits a sa sg []]\<rparr>
    \<and> sv_sw s' = sv_sw (sy_server y) \<and> length (sv_heap s') = length (sv_heap (sy_server y))
    \<and> sc_stop (sv_heap s' ! a) = [True] \<and> sc_running (sv_heap s' ! a)"
proof -
  let ?s = "sy_server y" and ?gs = "(sy_go y)[j := Ticked a ctx]" and ?c = "sv_heap (sy_server y) ! a"
  let ?f = "on_stats (IncRXSignalingCancel t)" and ?id = "SourcePortIdentity (sig_Header sg)" and ?C = "CancelUnicastTransmissionTLV v"
  let ?y0 = "\<lparr>sy_server = ?s, sy_go = ?gs\<rparr>"
  have ij: "i \<noteq> j" using assms(2,4) by auto
  have "sys_exec env (Step j TickReady) y = Some (Done ?y0)"
    using assms(3,4) by (simp add: select_loop_def always_def)
  then have r0: "sys_reachable env y ?y0" by (rule sys_reachable.sys_move [OF sys_reachable.sys_begin])
  have free: "table_free w ?gs" "client_free a ?gs" using assms(11,12) by (simp_all add: table_free_update client_free_update)
  let ?s1 = "on_client a (\<lambda>_. ?c\<lparr>sc_expire := 0, sc_stop := [True]\<rparr>) (?f ?s)"
  let ?y1 = "\<lparr>sy_server = ?s1, sy_go = ?gs[i := Tlvs sa sg [?C]]\<rparr>"
  have "stop_client 0 a sa sg [?C] (?f ?s) = Done (?s1, Tlvs sa sg [?C], [])"
    using assms(9,10) by (simp add: stop_client_def Stop_def Let_def)
  then have r1: "sys_reachable env ?y0 ?y1"
    using cancel_served [of i ?y0 sa sg v "[?C]" env w t a 0 ?s1] assms(1,2,5-7) ij free by simp
  let ?s2 = "on_client a (\<lambda>_. ?c\<lparr>sc_stop := [True], sc_expire := 0\<rparr>) (?f ?s1)"
  have "stop_client 0 a sa sg [] (?f ?s1) = Done (?s2, StopWaits a sa sg [], [])"
    using assms(8-10) by (simp add: stop_client_def Stop_def Let_def)
  moreover have "findWorker env ?id 0 ?s1 = Some w" using assms(5) by (simp add: findWorker_def Let_def split: if_splits)
  ultimately have "sys_reachable env ?y1 \<lparr>sy_server = ?s2, sy_go = ?gs[i := StopWaits a sa sg []]\<rparr>"
    using cancel_served [of i ?y1 sa sg v "[]" env w t a 0 ?s2 "StopWaits a sa sg []"] assms(1,6,7) ij free
    by (simp add: table_free_update client_free_update)
  then have "sys_reachable env y \<lparr>sy_server = ?s2, sy_go = ?gs[i := StopWaits a sa sg []]\<rparr>"
    using sys_reachable_trans r0 r1 by blast
  then show ?thesis using assms(8,9) by (intro exI [of _ ?s2]) simp
qed


text \<open>C4: two cancels of the same subscription in one signaling message can block the server for good. When the goroutine of a running subscription is in its select and no other one receives for it, the ticker can fire before the second cancel: from then on, whatever happens, the handler of the message waits with the lock of the client held, the goroutine waits for that lock, the client stays registered and running, and SIGTERM no longer ends the program, since the drain never gets past this client.\<close>

theorem two_cancels_deadlock:
  assumes "started env s0" and "sys_reachable env (sys_start s0) y"
    and "i < length (sy_go y)" and "sy_go y ! i = Tlvs sa sg [CancelUnicastTransmissionTLV v, CancelUnicastTransmissionTLV v]"
    and "j < length (sy_go y)" and "sy_go y ! j = SelectLoop a ctx"
    and "\<forall>x < length (sy_go y). x \<noteq> j \<longrightarrow> \<not> receives a (sy_go y ! x)"
    and "findWorker env (SourcePortIdentity (sig_Header sg)) 0 (sy_server y) = Some w"
    and "t = Unicast_MsgType (cancel_MsgTypeAndFlags v)"
    and "FindSubscription (SourcePortIdentity (sig_Header sg)) t (sv_sw (sy_server y) ! w) = Some a"
    and "sc_running (sv_heap (sy_server y) ! a)" and "sc_stop (sv_heap (sy_server y) ! a) = []"
    and "table_free w (sy_go y)" and "client_free a (sy_go y)" and "\<forall>g \<in> set (sy_go y). \<not> terminating g"
  shows "\<exists>y1. sys_reachable env y y1 \<and> (\<forall>y2. sys_reachable env y1 y2 \<longrightarrow>
      sy_go y2 ! i = StopWaits a sa sg [] \<and> sy_go y2 ! j = Ticked a ctx \<and> sc_running (sv_heap (sy_server y2) ! a)
      \<and> FindSubscription (SourcePortIdentity (sig_Header sg)) t (sv_sw (sy_server y2) ! w) = Some a
      \<and> Terminated \<notin> set (sy_go y2))"
proof -
  let ?n = "length (sv_sw s0)" and ?k = "SourcePortIdentity (sig_Header sg)"
  let ?gs = "(sy_go y)[j := Ticked a ctx, i := StopWaits a sa sg []]"
  have inv: "sys_inv env ?n y" "locks_inv ?n y" using started_sys(1) [OF assms(1,2)] started_locks [OF assms(1,2)] .
  then have s: "server_inv env ?n (sy_server y)" by (simp add: sys_inv_def)
  have w: "w < ?n" using findWorker_less [OF s assms(8)] .
  have a: "a < length (sv_heap (sy_server y))" using found_entry [OF s w assms(10)] by (simp add: entry_ok_def)
  obtain s' where s': "sys_reachable env y \<lparr>sy_server = s', sy_go = ?gs\<rparr>" "sv_sw s' = sv_sw (sy_server y)"
    "length (sv_heap s') = length (sv_heap (sy_server y))" "sc_stop (sv_heap s' ! a) = [True]" "sc_running (sv_heap s' ! a)"
    using two_cancels [OF assms(3-6,8,10,9) a assms(11-14)] by blast
  let ?y1 = "\<lparr>sy_server = s', sy_go = ?gs\<rparr>"
  have ij: "i \<noteq> j" using assms(4,6) by auto
  have "\<not> receives a (?gs ! x)" if "x < length ?gs" for x
    using assms(3,5,7) that by (cases "x = i"; cases "x = j") auto
  then have "\<not> list_ex (receives a) ?gs" by (auto simp: list_ex_iff in_set_conv_nth)
  then have st: "stuck i a ?y1" using s' a assms(3) by (simp add: stuck_def)
  have "must_visit w e (?gs ! x)" if "x < length ?gs" for x e
    using assms(3,5,15) that by (cases "x = i"; cases "x = j") (auto intro: must_visit_free)
  then have "\<forall>g \<in> set ?gs. must_visit w (t, ?k, a) g" by (auto simp: in_set_conv_nth)
  then have jam: "jammed i a w ?k t ?y1" using st s'(2) assms(10) by (simp add: jammed_def)
  have r: "sys_reachable env (sys_start s0) ?y1" using sys_reachable_trans [OF s'(1) assms(2)] .
  note inv1 = started_sys(1) [OF assms(1) r] started_locks [OF assms(1) r]
  have j: "j < length (sy_go ?y1)" "sy_go ?y1 ! j = Ticked a ctx" using assms(5) ij by simp_all
  have "sy_go y2 ! i = StopWaits a sa sg [] \<and> sy_go y2 ! j = Ticked a ctx \<and> sc_running (sv_heap (sy_server y2) ! a)
      \<and> FindSubscription ?k t (sv_sw (sy_server y2) ! w) = Some a \<and> Terminated \<notin> set (sy_go y2)" if "sys_reachable env ?y1 y2" for y2
    using jammed_forever [OF that inv1 jam w] ticked_forever [OF that inv1 jam w j] s'(5) assms(3) by (auto simp: jammed_def)
  then show ?thesis using s'(1) by blast
qed


definition sample_cancelled :: "move list" where
  "sample_cancelled = sample_looping @
     [Step 11 (sample_message [CancelUnicastTransmissionTLV sample_cancel, CancelUnicastTransmissionTLV sample_cancel])]"

abbreviation sample_cancels :: "TLV list" where
  "sample_cancels \<equiv> [CancelUnicastTransmissionTLV sample_cancel, CancelUnicastTransmissionTLV sample_cancel]"

lemma sample_jam:
  "case sys_run sample_senv sample_cancelled (sys_start sample_server) of None \<Rightarrow> False
   | Some y \<Rightarrow> length (sy_go y) = 24 \<and> sy_go y ! 11 = Tlvs sample_sender (sample_sg sample_cancels) sample_cancels
     \<and> sy_go y ! 23 = SelectLoop 0 0 \<and> list_all (\<lambda>x. x \<noteq> 23 \<longrightarrow> \<not> receives 0 (sy_go y ! x)) [0..<24]
     \<and> findWorker sample_senv (SourcePortIdentity (sig_Header (sample_sg sample_cancels))) 0 (sy_server y) = Some 1
     \<and> FindSubscription (SourcePortIdentity (sig_Header (sample_sg sample_cancels))) 0 (sv_sw (sy_server y) ! 1) = Some 0
     \<and> sc_running (sv_heap (sy_server y) ! 0) \<and> sc_stop (sv_heap (sy_server y) ! 0) = []
     \<and> table_free 1 (sy_go y) \<and> client_free 0 (sy_go y) \<and> list_all (\<lambda>g. \<not> terminating g) (sy_go y)"
  by code_simp

theorem two_cancels_deadlock_witness:
  "\<exists>y y1. sys_run sample_senv sample_cancelled (sys_start sample_server) = Some y \<and> sys_reachable sample_senv y y1
     \<and> (\<forall>y2. sys_reachable sample_senv y1 y2 \<longrightarrow> sc_running (sv_heap (sy_server y2) ! 0) \<and> Terminated \<notin> set (sy_go y2))"
proof -
  let ?sg = "sample_sg sample_cancels"
  obtain y where y: "sys_run sample_senv sample_cancelled (sys_start sample_server) = Some y" "11 < length (sy_go y)"
    "sy_go y ! 11 = Tlvs sample_sender ?sg sample_cancels" "23 < length (sy_go y)" "sy_go y ! 23 = SelectLoop 0 0"
    "\<forall>x < length (sy_go y). x \<noteq> 23 \<longrightarrow> \<not> receives 0 (sy_go y ! x)"
    "findWorker sample_senv (SourcePortIdentity (sig_Header ?sg)) 0 (sy_server y) = Some 1"
    "FindSubscription (SourcePortIdentity (sig_Header ?sg)) 0 (sv_sw (sy_server y) ! 1) = Some 0"
    "sc_running (sv_heap (sy_server y) ! 0)" "sc_stop (sv_heap (sy_server y) ! 0) = []"
    "table_free 1 (sy_go y)" "client_free 0 (sy_go y)" "\<forall>g \<in> set (sy_go y). \<not> terminating g"
    using sample_jam by (auto simp: list_all_iff split: option.splits)
  have t: "0 = Unicast_MsgType (cancel_MsgTypeAndFlags sample_cancel)" by code_simp
  from two_cancels_deadlock [OF sample_started sys_run_reachable [OF y(1)] y(2-7) t y(8-13)] y(1) show ?thesis by blast
qed

text \<open>
  Between the check that a client runs and the end of its renewal its goroutine can end: two renewals then start
  two goroutines for it.
\<close>

definition sample_race :: "move list" where
  "sample_race = sample_looping @ sample_asks 10 @ sample_asks 11 @
     [Step 12 (sample_message [CancelUnicastTransmissionTLV sample_cancel]), Step 12 (Go 0), Step 12 (Go 0), Step 12 (Go 0),
      Step 23 StopReady, Step 23 (Go 0), Turn 1 SignalingQueue sample_io, Turn 1 SignalingQueue sample_io,
      Step 10 (Go 0), Step 11 (Go 0), Step 24 (Go 0), Step 25 (Go 0), Turn 1 Queue sample_io, Turn 1 Queue sample_io,
      Step 24 (Go 0), Step 25 (Go 0)]"

lemma renewals_race:
  "\<exists>y. sys_reachable sample_senv (sys_start sample_server) y \<and> sy_go y ! 24 = SelectLoop 0 0 \<and> sy_go y ! 25 = SelectLoop 0 0"
proof -
  have "case sys_run sample_senv sample_race (sys_start sample_server) of None \<Rightarrow> False
    | Some y \<Rightarrow> sy_go y ! 24 = SelectLoop 0 0 \<and> sy_go y ! 25 = SelectLoop 0 0" by code_simp
  then obtain y where "sys_run sample_senv sample_race (sys_start sample_server) = Some y"
    "sy_go y ! 24 = SelectLoop 0 0 \<and> sy_go y ! 25 = SelectLoop 0 0" by (auto split: option.splits)
  then show ?thesis using sys_run_reachable by blast
qed

end
