(* ===== verification/Ptp_Progress.thy ===== *)
theory Ptp_Progress
  imports Ptp_Deadlock
begin

section \<open>Going on (\<^verbatim>\<open>src/server\<close>)\<close>

text \<open>
  As long as no handler waits in \<^verbatim>\<open>Stop\<close>, every wait of the server ends: sends are received, inventories
  release the tables they hold, and SIGTERM ends the program.
\<close>

fun in_stop :: "goroutine \<Rightarrow> bool" where
  "in_stop (StopWaits a sa sg tlvs) = True"
| "in_stop g = False"

lemma none_in_stop: "\<not> list_ex in_stop gs \<Longrightarrow> client_free a gs"
  unfolding client_free_def list_ex_iff by (metis holds_client.elims(2) in_stop.simps(1))

subsection \<open>Inventories finish\<close>

lemma sys_stepI:
  assumes "go_step env inp gs s (gs ! i) = Some (Done (s', g, []))" and "i < length gs"
  shows "sys_reachable env \<lparr>sy_server = s, sy_go = gs\<rparr> \<lparr>sy_server = s', sy_go = gs[i := g]\<rparr>"
proof (rule sys_reachable.sys_move [OF sys_reachable.sys_begin])
  show "sys_exec env (Step i inp) \<lparr>sy_server = s, sy_go = gs\<rparr> = Some (Done \<lparr>sy_server = s', sy_go = gs[i := g]\<rparr>)"
    using assms by simp
qed

lemma workers_visit [simp]: "length (sv_sw (visit_entry w t k a s)) = length (sv_sw s)"
  by (simp add: visit_entry_def)

text \<open>An inventory that holds a table goes through the entries that are left and releases it.\<close>

lemma stock_released:
  assumes "i < length gs" and "gs ! i = TakesStock w es ws p" and "\<And>a. client_free a gs"
  shows "\<exists>s'. sys_reachable env \<lparr>sy_server = s, sy_go = gs\<rparr> \<lparr>sy_server = s', sy_go = gs[i := Inventory ws p]\<rparr>
    \<and> length (sv_sw s') = length (sv_sw s)"
  using assms
proof (induction es arbitrary: s gs)
  case Nil
  have "sys_reachable env \<lparr>sy_server = s, sy_go = gs\<rparr> \<lparr>sy_server = s, sy_go = gs[i := Inventory ws p]\<rparr>"
    using Nil by (intro sys_stepI [where inp = "Go 0"]) (simp_all add: at_time_def next_entry_def always_def)
  then show ?case by blast
next
  case (Cons e es)
  obtain t k a where e: "e = (t, k, a)" by (cases e)
  let ?s = "visit_entry w t k a s" and ?gs = "gs[i := TakesStock w es ws p]"
  have r: "sys_reachable env \<lparr>sy_server = s, sy_go = gs\<rparr> \<lparr>sy_server = ?s, sy_go = ?gs\<rparr>"
    using Cons.prems e
    by (intro sys_stepI [where inp = "Go 0"]) (simp_all add: at_time_def next_entry_def unless_held_def)
  have "i < length ?gs" "?gs ! i = TakesStock w es ws p" "\<And>b. client_free b ?gs"
    using Cons.prems by (simp_all add: client_free_update)
  from Cons.IH [OF this, of ?s] obtain s' where
    "sys_reachable env \<lparr>sy_server = ?s, sy_go = ?gs\<rparr> \<lparr>sy_server = s', sy_go = gs[i := Inventory ws p]\<rparr>"
    "length (sv_sw s') = length (sv_sw s)" by auto
  then show ?case using sys_reachable_trans r by blast
qed

text \<open>It then takes stock of the workers that are left, if their tables are free.\<close>

lemma stock_taken:
  assumes "i < length gs" and "gs ! i = Inventory ws p" and "\<And>a. client_free a gs" and "\<And>w. table_free w gs"
  shows "\<exists>s'. sys_reachable env \<lparr>sy_server = s, sy_go = gs\<rparr> \<lparr>sy_server = s', sy_go = gs[i := Inventory [] p]\<rparr>
    \<and> length (sv_sw s') = length (sv_sw s)"
  using assms
proof (induction ws arbitrary: s gs)
  case Nil
  then have "gs[i := Inventory [] p] = gs" by (metis list_update_id)
  then show ?case using sys_reachable.sys_begin by metis
next
  case (Cons w ws)
  let ?es = "remdups (entries_of (sv_sw s ! w))"
  let ?gs1 = "gs[i := TakesStock w ?es ws p]" and ?gs2 = "gs[i := Inventory ws p]"
  have r1: "sys_reachable env \<lparr>sy_server = s, sy_go = gs\<rparr> \<lparr>sy_server = s, sy_go = ?gs1\<rparr>"
    using Cons.prems
    by (intro sys_stepI [where inp = "Entries ?es"]) (simp_all add: next_worker_def unless_held_def)
  have "i < length ?gs1" "?gs1 ! i = TakesStock w ?es ws p" "\<And>a. client_free a ?gs1"
    using Cons.prems by (simp_all add: client_free_update)
  from stock_released [OF this, of env s] obtain s1 where
    r2: "sys_reachable env \<lparr>sy_server = s, sy_go = ?gs1\<rparr> \<lparr>sy_server = s1, sy_go = ?gs2\<rparr>" "length (sv_sw s1) = length (sv_sw s)"
    by auto
  have "i < length ?gs2" "?gs2 ! i = Inventory ws p" "\<And>a. client_free a ?gs2" "\<And>w. table_free w ?gs2"
    using Cons.prems by (simp_all add: client_free_update table_free_update)
  from Cons.IH [OF this, of s1] obtain s2 where
    "sys_reachable env \<lparr>sy_server = s1, sy_go = ?gs2\<rparr> \<lparr>sy_server = s2, sy_go = gs[i := Inventory [] p]\<rparr>"
    "length (sv_sw s2) = length (sv_sw s1)" by auto
  then show ?case using sys_reachable_trans r1 r2 by metis
qed

text \<open>The rounds of the drain before the program ends.\<close>

lemma rounds_end:
  assumes "i < length gs" and "gs ! i = Inventory ws (Terminates m)" and "\<And>a. client_free a gs" and "\<And>w. table_free w gs"
  shows "\<exists>s'. sys_reachable env \<lparr>sy_server = s, sy_go = gs\<rparr> \<lparr>sy_server = s', sy_go = gs[i := Terminated]\<rparr>"
  using assms
proof (induction m arbitrary: s gs ws)
  case (0 s gs ws)
  from stock_taken [OF 0, of env s] obtain s1 where
    r: "sys_reachable env \<lparr>sy_server = s, sy_go = gs\<rparr> \<lparr>sy_server = s1, sy_go = gs[i := Inventory [] (Terminates 0)]\<rparr>" by auto
  have "sys_reachable env \<lparr>sy_server = s1, sy_go = gs[i := Inventory [] (Terminates 0)]\<rparr>
      \<lparr>sy_server = s1, sy_go = gs[i := Inventory [] (Terminates 0), i := Terminated]\<rparr>"
    using 0 by (intro sys_stepI [where inp = "Go 0"]) (simp_all add: at_time_def next_worker_def always_def)
  then show ?case using sys_reachable_trans [OF _ r] by auto
next
  case (Suc m s gs ws)
  let ?g = "Inventory [] (Terminates (Suc m))"
  from stock_taken [OF Suc.prems, of env s] obtain s1 where
    r1: "sys_reachable env \<lparr>sy_server = s, sy_go = gs\<rparr> \<lparr>sy_server = s1, sy_go = gs[i := ?g]\<rparr>" by auto
  let ?gs = "gs[i := Inventory (all_workers s1) (Terminates m)]"
  have "sys_reachable env \<lparr>sy_server = s1, sy_go = gs[i := ?g]\<rparr> \<lparr>sy_server = s1, sy_go = gs[i := ?g, i := Inventory (all_workers s1) (Terminates m)]\<rparr>"
    using Suc.prems by (intro sys_stepI [where inp = "Go 0"]) (simp_all add: at_time_def next_worker_def always_def)
  then have r2: "sys_reachable env \<lparr>sy_server = s, sy_go = gs\<rparr> \<lparr>sy_server = s1, sy_go = ?gs\<rparr>"
    using sys_reachable_trans [OF _ r1] by auto
  have "i < length ?gs" "?gs ! i = Inventory (all_workers s1) (Terminates m)" "\<And>a. client_free a ?gs" "\<And>w. table_free w ?gs"
    using Suc.prems by (simp_all add: client_free_update table_free_update)
  from Suc.IH [OF this, of s1] show ?case using sys_reachable_trans [OF _ r2] by auto
qed

text \<open>Tables that are held are released first.\<close>

fun takes_stock :: "goroutine \<Rightarrow> bool" where
  "takes_stock (TakesStock w es ws p) = True"
| "takes_stock g = False"

lemma takes_stock_iff: "takes_stock g \<longleftrightarrow> (\<exists>w. holds_table w g)"
  by (cases g) auto

lemma no_stock_free: "\<not> (\<exists>j < length gs. takes_stock (gs ! j)) \<Longrightarrow> table_free w gs"
  using takes_stock_iff by (auto simp: table_free_def list_ex_iff in_set_conv_nth)

lemma filter_update_less:
  "j < length gs \<Longrightarrow> P (gs ! j) \<Longrightarrow> \<not> P g \<Longrightarrow> length (filter P (gs[j := g])) < length (filter P gs)"
  by (induction gs arbitrary: j) (auto split: nat.split simp: nth_Cons')

lemma tables_released:
  assumes "\<And>a. client_free a gs" and "i < length gs" and "\<not> takes_stock (gs ! i)"
  shows "\<exists>s' gs'. sys_reachable env \<lparr>sy_server = s, sy_go = gs\<rparr> \<lparr>sy_server = s', sy_go = gs'\<rparr>
    \<and> (\<forall>a. client_free a gs') \<and> (\<forall>w. table_free w gs') \<and> length gs' = length gs \<and> gs' ! i = gs ! i"
  using assms
proof (induction "length (filter takes_stock gs)" arbitrary: gs s rule: less_induct)
  case less
  show ?case
  proof (cases "\<exists>j < length gs. takes_stock (gs ! j)")
    case True
    then obtain j w es ws p where j: "j < length gs" "gs ! j = TakesStock w es ws p"
      by (metis takes_stock.elims(2))
    let ?gs = "gs[j := Inventory ws p]"
    from stock_released [OF j less.prems(1), of env s] obtain s1 where
      r: "sys_reachable env \<lparr>sy_server = s, sy_go = gs\<rparr> \<lparr>sy_server = s1, sy_go = ?gs\<rparr>" by auto
    have ij: "?gs ! i = gs ! i" using j less.prems(3) by (cases "i = j") auto
    have "length (filter takes_stock ?gs) < length (filter takes_stock gs)"
      using j by (intro filter_update_less) simp_all
    moreover have "\<And>a. client_free a ?gs" "i < length ?gs" "\<not> takes_stock (?gs ! i)"
      using less.prems ij by (simp_all add: client_free_update)
    ultimately obtain s' gs' where "sys_reachable env \<lparr>sy_server = s1, sy_go = ?gs\<rparr> \<lparr>sy_server = s', sy_go = gs'\<rparr>"
      "\<forall>a. client_free a gs'" "\<forall>w. table_free w gs'" "length gs' = length gs" "gs' ! i = gs ! i"
      using less.hyps [of ?gs s1] ij by auto
    then show ?thesis using sys_reachable_trans [OF _ r] by blast
  next
    case False
    then have "\<And>w. table_free w gs" by (rule no_stock_free)
    then show ?thesis using less.prems(1) sys_reachable.sys_begin by blast
  qed
qed

subsection \<open>The only wait that may not end\<close>

lemma step_enabled:
  assumes "server_inv env n s" and "\<And>a. client_free a gs" and "\<And>w. table_free w gs"
    and "g \<in> set gs" and "g \<noteq> Ended" and "g \<noteq> Terminated" and "\<And>w ch r k. g \<noteq> Sends w ch r k"
  shows "\<exists>inp r. go_step env inp gs s g = Some r"
proof -
  have found: "found_free o' gs" for o' using assms(2) by (simp add: found_free_def split: option.split)
  have w: "\<exists>w. findWorker env k o' s = Some w" for k o' using assms(1) by (auto simp: findWorker_eq server_inv_def)
  show ?thesis
  proof (cases g)
    case (Delayed dReq sa rxTS)
    then show ?thesis
      using w found assms(3) by (intro exI [of _ "Go 0"]) (auto simp: at_time_def serve_delay_def Let_def split: option.split outcome.split)
  next
    case (Requests sa sg v t tlvs)
    then show ?thesis
      using w found assms(3) by (intro exI [of _ "Go 0"]) (auto simp: at_time_def serve_request_def Let_def split: option.split prod.split)
  next
    case (Cancels sa sg t tlvs)
    then show ?thesis
      using w assms(3) by (intro exI [of _ "Go 0"]) (auto simp: at_time_def find_cancelled_def split: option.split)
  next
    case ReadEvent
    show ?thesis unfolding ReadEvent by (intro exI [of _ "EventIn undefined undefined undefined undefined"]) simp
  next
    case ReadGeneral
    show ?thesis unfolding ReadGeneral by (intro exI [of _ "GeneralIn undefined undefined undefined"]) simp
  next
    case (SelectLoop a ctx)
    show ?thesis unfolding SelectLoop by (intro exI [of _ TickReady]) (simp add: select_loop_def always_def)
  next
    case Reports
    show ?thesis unfolding Reports by (intro exI [of _ "Order undefined"]) (simp add: always_def)
  next
    case (Inventory ws p)
    show ?thesis
    proof (cases ws)
      case Nil
      then show ?thesis unfolding Inventory by (intro exI [of _ "Go 0"]) (simp add: next_worker_def at_time_def always_def)
    next
      case (Cons v vs)
      then show ?thesis
        unfolding Inventory using assms(3)
        by (intro exI [of _ "Entries (remdups (entries_of (sv_sw s ! v)))"]) (simp add: next_worker_def unless_held_def)
    qed
  next
    case (StopWaits a sa sg tlvs)
    then show ?thesis using assms(2) [of a] assms(4) by (auto simp: client_free_def list_ex_iff)
  next
    case (TakesStock v es ws p)
    then show ?thesis using assms(3) [of v] assms(4) by (auto simp: table_free_def list_ex_iff)
  qed (use assms(2-) in \<open>auto simp: at_time_def unless_held_def always_def intro!: exI [of _ "Go 0"]\<close>)
qed


lemma sample_no_stop:
  "case sys_run sample_senv (sample_asks 10) (sys_start sample_server) of None \<Rightarrow> False
   | Some y \<Rightarrow> \<not> list_ex in_stop (sy_go y) \<and> list_all (\<lambda>g. \<not> takes_stock g) (sy_go y)"
  by code_simp



lemma sample_sigterm:
  "case sys_run sample_senv sample_looping (sys_start sample_server) of None \<Rightarrow> False
   | Some y \<Rightarrow> \<not> list_ex in_stop (sy_go y) \<and> length (sy_go y) = 24 \<and> sy_go y ! 21 = AwaitSigterm"
  by code_simp


end
