(* ===== verification/Ptp_Wire.thy ===== *)
theory Ptp_Wire
  imports Ptp_Kernel Ptp_Liveness
begin

section \<open>Packets and the kernel (\<^verbatim>\<open>src/server\<close>, \<^verbatim>\<open>src/timestamp\<close>)\<close>

text \<open>
  A turn of a send worker with the transmit timestamp it reads: the reader that the worker calls fills in what
  \<^verbatim>\<open>Ptp_Worker\<close> takes as an input. The theorems follow a timestamp from the control message of the kernel to the
  packet on the wire. The worker reuses its two control buffers, so nothing is assumed of what they hold. In
  the other direction, an iteration of each handler with the read of the packet at its start.
\<close>

abbreviation defaultTXTS :: nat where "defaultTXTS \<equiv> 100"

text \<open>
  What the reader of the worker's path answers; \<^term>\<open>None\<close> when it waits or the program ends in it.
\<close>

definition read_tx ::
  "unix_abi \<Rightarrow> bool \<Rightarrow> bytes \<Rightarrow> bytes \<Rightarrow> u32 \<Rightarrow> kernel \<Rightarrow> ((time \<times> int \<times> bool) \<times> kernel) option" where
  "read_tx abi olderKernel oob toob seqID k =
     (case (if olderKernel then ReadTXtimestampBuf abi defaultTXTS oob toob k
            else ReadTimeStampSeqIDBuf abi defaultTXTS toob seqID k) of
        Some (Val (txTS, attempts, err), k) \<Rightarrow> Some ((txTS, int attempts, err \<noteq> None), k)
      | _ \<Rightarrow> None)"

text \<open>
  A turn for a timed packet whose sends the kernel accepts. The sequence number is that of the Sync
  packet, for a Sync subscription after its update.
\<close>

definition timed_seqID :: "SubscriptionClient \<Rightarrow> u32" where
  "timed_seqID c = ucast (SequenceID (sync_Header (sc_syncP
     (if sc_subscriptionType c = MessageSync then UpdateSync c else c))))"

definition timed_turn ::
  "unix_abi \<Rightarrow> bytes \<Rightarrow> bytes \<Rightarrow> kernel \<Rightarrow> (duration \<Rightarrow> int) \<Rightarrow> Config \<Rightarrow> addr \<Rightarrow> sendWorker \<Rightarrow> heap \<Rightarrow> JSONStats
     \<Rightarrow> (worker_result \<times> kernel) option" where
  "timed_turn abi oob toob k log2i cfg a s h stats =
     (case read_tx abi (w_olderKernel s) oob toob (timed_seqID (h ! a)) k of
        None \<Rightarrow> None
      | Some (txts, k) \<Rightarrow>
          (case worker_queue_step log2i cfg \<lparr>io_event = SendOk, io_txts = txts, io_general = SendOk\<rparr> a s h stats of
             None \<Rightarrow> None
           | Some r \<Rightarrow> Some (r, k)))"

subsection \<open>What the kernel holds\<close>

text \<open>
  The error queue gives, after failures and messages for other packets, control messages with the time
  of the packet with the given number, before the attempts are used up.
\<close>

definition answers_for :: "unix_abi \<Rightarrow> u32 \<Rightarrow> nat \<Rightarrow> kernel \<Rightarrow> cmsg list \<Rightarrow> bool" where
  "answers_for abi seqID room k ms \<longleftrightarrow> (\<exists>pre b rest. k_recvs k = pre @ Inr b # rest
     \<and> (\<forall>r \<in> set pre. useless abi seqID room r) \<and> length pre < defaultTXTS \<and> ready (length pre + 1) k
     \<and> length b \<le> room \<and> holds_msgs abi b (int (length b)) 0 ms \<and> (\<forall>m \<in> set ms. sized abi m)
     \<and> snd (seq_timestamp abi seqID ms) = None)"

text \<open>The error queue gives control messages, the last of them with a time, and is then empty.\<close>

definition answers_newest :: "unix_abi \<Rightarrow> nat \<Rightarrow> kernel \<Rightarrow> cmsg list \<Rightarrow> bool" where
  "answers_newest abi room k ms \<longleftrightarrow> (\<exists>es bs e rest. k_recvs k = map Inl es @ map Inr bs @ Inl e # rest \<and> bs \<noteq> []
     \<and> length es + length bs < defaultTXTS \<and> quick (length es + 1) k \<and> (\<forall>x \<in> set bs. length x \<le> room)
     \<and> holds_msgs abi (last bs) (int (length (last bs))) 0 ms \<and> (\<forall>m \<in> set ms. sized abi m)
     \<and> snd (first_timestamp abi ms) = None)"

lemma read_tx_newer:
  assumes "cmsg_abi abi" and "answers_for abi seqID (length toob) k ms" and "toob \<noteq> []"
  obtains n k' where "read_tx abi False oob toob seqID k = Some ((fst (seq_timestamp abi seqID ms), n, False), k')"
proof -
  note abi = cmsg_abi.header_size [OF assms(1)] cmsg_abi.header_pos [OF assms(1)] cmsg_abi.error_pos [OF assms(1)]
  obtain pre b rest where q: "k_recvs k = pre @ Inr b # rest" "\<forall>r \<in> set pre. useless abi seqID (length toob) r"
    "length pre < defaultTXTS" "ready (length pre + 1) k" "length b \<le> length toob"
    "holds_msgs abi b (int (length b)) 0 ms" "\<forall>m \<in> set ms. sized abi m" "snd (seq_timestamp abi seqID ms) = None"
    using assms(2) by (auto simp: answers_for_def)
  from read_seq_returns [OF abi q(1,2,3,4) assms(3) q(5-8)] show ?thesis
    using that by (auto simp: read_tx_def)
qed

lemma read_tx_older:
  assumes "cmsg_abi abi" and "answers_newest abi (length toob) k ms" and "toob \<noteq> []" and "length oob = length toob"
  obtains n k' where "read_tx abi True oob toob seqID k = Some ((fst (first_timestamp abi ms), n, False), k')"
proof -
  note abi = cmsg_abi.header_size [OF assms(1)] cmsg_abi.header_pos [OF assms(1)] cmsg_abi.error_pos [OF assms(1)]
  obtain es bs e rest where q: "k_recvs k = map Inl es @ map Inr bs @ Inl e # rest" "bs \<noteq> []"
    "length es + length bs < defaultTXTS" "quick (length es + 1) k" "\<forall>x \<in> set bs. length x \<le> length toob"
    "holds_msgs abi (last bs) (int (length (last bs))) 0 ms" "\<forall>m \<in> set ms. sized abi m"
    "snd (first_timestamp abi ms) = None"
    using assms(2) by (auto simp: answers_newest_def)
  from read_tx_returns [OF abi q(1-4) assms(3,4) q(5-7)] show ?thesis
    using that q(8) by (auto simp: read_tx_def)
qed

subsection \<open>From the control message to the wire\<close>

text \<open>The time a turn reads, and the one it puts into the Follow\_Up.\<close>

definition kernel_time :: "unix_abi \<Rightarrow> bool \<Rightarrow> u32 \<Rightarrow> cmsg list \<Rightarrow> time" where
  "kernel_time abi older seqID ms = (if older then fst (first_timestamp abi ms) else fst (seq_timestamp abi seqID ms))"

lemma read_tx_answer:
  assumes "cmsg_abi abi" and "length oob = length toob" and "toob \<noteq> []"
    and "if older then answers_newest abi (length toob) k ms else answers_for abi seqID (length toob) k ms"
  obtains n k' where "read_tx abi older oob toob seqID k = Some ((kernel_time abi older seqID ms, n, False), k')"
proof (cases older)
  case True
  then have "answers_newest abi (length toob) k ms" using assms(4) by simp
  from read_tx_older [OF assms(1) this assms(3,2)] show ?thesis using that True by (auto simp: kernel_time_def)
next
  case False
  then have "answers_for abi seqID (length toob) k ms" using assms(4) by simp
  from read_tx_newer [OF assms(1) this assms(3)] show ?thesis using that False by (auto simp: kernel_time_def)
qed

lemma timed_seqID_sync: "sc_subscriptionType c = MessageSync \<Longrightarrow> timed_seqID c = ucast (sc_sequenceID c)"
  by (simp add: timed_seqID_def packet_updates)

text \<open>C15: the time of a Sync travels from the kernel's control message to the Follow\_Up: when the error queue holds it within the attempts, after any failures and messages of other packets, the turn returns and sends exactly a Sync and a Follow\_Up of the same sequence number, and the Follow\_Up carries the time the control message of this Sync holds (on older kernels, of the newest message), whatever the reused buffers held. The UTC offset is added for software timestamps on the older path only.\<close>

theorem sync_time_from_kernel:
  assumes "cmsg_abi abi" and "length oob = length toob" and "toob \<noteq> []"
    and "wf_client (h ! a)" and "a < length h" and "sc_subscriptionType (h ! a) = MessageSync" and "length (w_buf s) = 128"
    and "seqID = ucast (sc_sequenceID (h ! a))"
    and "if w_olderKernel s then answers_newest abi (length toob) k ms else answers_for abi seqID (length toob) k ms"
  shows "\<exists>s' h' stats' k' e g p q. timed_turn abi oob toob k log2i cfg a s h stats = Some ((s', h', stats', [e, g]), k')
    \<and> sent_seq e = (if w_olderKernel s then None else Some seqID)
    \<and> DecodePacket (sent_bytes e) = Some (Inr (PSyncDelayReq p)) \<and> DecodePacket (sent_bytes g) = Some (Inr (PFollowUp q))
    \<and> SequenceID (sync_Header p) = sc_sequenceID (h ! a) \<and> SequenceID (fup_Header q) = sc_sequenceID (h ! a)
    \<and> PreciseOriginTimestamp q = NewTimestamp (kernel_time abi (w_olderKernel s) seqID ms
        + (if w_olderKernel s \<and> TimestampType (cfg_static cfg) \<noteq> HW then UTCOffset (cfg_dynamic cfg) else 0))"
proof -
  obtain n k' where r: "read_tx abi (w_olderKernel s) oob toob seqID k
      = Some ((kernel_time abi (w_olderKernel s) seqID ms, n, False), k')"
    using read_tx_answer [OF assms(1-3,9)] .
  let ?io = "\<lparr>io_event = SendOk, io_txts = (kernel_time abi (w_olderKernel s) seqID ms, n, False), io_general = SendOk\<rparr>"
  have t: "timed_seqID (h ! a) = seqID" using assms(6,8) by (simp add: timed_seqID_sync)
  from sync_turn [OF assms(4-7), of ?io "kernel_time abi (w_olderKernel s) seqID ms" n log2i cfg stats]
  show ?thesis using r assms(8) by (auto simp: timed_turn_def t tx_time_def)
qed

definition sample_sync :: SubscriptionClient where
  "sample_sync = (sample_client MessageSync)\<lparr>sc_sequenceID := 77\<rparr>"

lemma sample_answers: "answers_for linux_amd64 77 128 sample_kernel [sample_ts, sample_err]"
proof -
  have "useless linux_amd64 77 128 (Inl (Errno ''EAGAIN''))" by (simp add: useless_def)
  moreover have "seq_timestamp linux_amd64 77 [sample_ts, sample_err] = (5000000007, None)" by code_simp
  ultimately show ?thesis
    unfolding answers_for_def
    by (intro exI [of _ "[Inl (Errno ''EAGAIN'')]"] exI [of _ sample_control] exI [of _ "[Inl (Errno ''EAGAIN'')]"])
      (use sample_holds sample_sized sample_length in \<open>simp add: sample_kernel_def ready_def quick_def\<close>)
qed

theorem sync_time_from_kernel_witness:
  "\<exists>s' h' stats' k' e g q. timed_turn linux_amd64 (replicate 128 0) (replicate 128 0) sample_kernel log2_ideal sample_config 0
      (newSendWorker 0) [sample_sync] NewJSONStats = Some ((s', h', stats', [e, g]), k')
    \<and> DecodePacket (sent_bytes g) = Some (Inr (PFollowUp q)) \<and> PreciseOriginTimestamp q = NewTimestamp 5000000007"
proof -
  have f: "seq_timestamp linux_amd64 77 [sample_ts, sample_err] = (5000000007, None)" by code_simp
  have "wf_client sample_sync" using sample_client_wf [of MessageSync] by (simp add: sample_sync_def wf_client_def)
  then show ?thesis
    using sync_time_from_kernel [OF amd64.cmsg_abi_axioms, of "replicate 128 0" "replicate 128 0" "[sample_sync]" 0
        "newSendWorker 0" 77 sample_kernel "[sample_ts, sample_err]" log2_ideal sample_config NewJSONStats]
      sample_answers f
    by (simp add: sample_sync_def newSendWorker_def kernel_time_def) blast
qed

subsection \<open>Reading packets\<close>

text \<open>What the kernel gives a handler: an error, or the payload, the control bytes and the sender.\<close>

definition receive_event ::
  "unix_abi \<Rightarrow> bytes \<Rightarrow> bytes \<Rightarrow> errno + bytes \<times> bytes \<times> Sockaddr \<Rightarrow> server_env \<Rightarrow> time \<Rightarrow> SyncDelayReq \<Rightarrow> Server
     \<Rightarrow> Server outcome access option" where
  "receive_event abi buf oob msg env now dReq s =
     map_option (\<lambda>r. abind r (\<lambda>(buf, bbuf, eclisa, rxTS, err).
         Val (if err \<noteq> None then Done s else handleEventMessage env now dReq (take bbuf buf) eclisa rxTS s)))
       (ReadPacketWithRXTimestampBuf abi buf oob msg)"

definition readPacketBuf :: "bytes \<Rightarrow> errno + bytes \<times> Sockaddr \<Rightarrow> bytes \<times> nat \<times> Sockaddr \<times> errno option" where
  "readPacketBuf buf msg =
     (case msg of
        Inl err \<Rightarrow> (buf, 0, SockaddrNil, Some err)
      | Inr (payload, saddr) \<Rightarrow> (payload @ drop (length payload) buf, length payload, saddr, None))"

definition receive_general ::
  "bytes \<Rightarrow> errno + bytes \<times> Sockaddr \<Rightarrow> server_env \<Rightarrow> time \<Rightarrow> Signaling \<Rightarrow> Server \<Rightarrow> Server outcome" where
  "receive_general buf msg env now signaling s =
     (case readPacketBuf buf msg of
        (buf, bbuf, gclisa, Some err) \<Rightarrow> Done s
      | (buf, bbuf, gclisa, None) \<Rightarrow> handleGeneralMessage env now signaling (take bbuf buf) gclisa s)"

lemma receive_event_eq:
  assumes "cmsg_abi abi" and "holds_msgs abi ctl (int (length ctl)) 0 ms" and "\<forall>m \<in> set ms. sized abi m"
  shows "receive_event abi buf oob (Inr (payload, ctl, sa)) env now dReq s = Some (Val
    (if snd (first_timestamp abi ms) \<noteq> None then Done s
     else handleEventMessage env now dReq payload sa (fst (first_timestamp abi ms)) s))"
  using cmsg_abi.scans_eq(1) [OF assms(1) holds_msgs_append [OF assms(2)] assms(3), of "drop (length ctl) oob"]
  by (cases "first_timestamp abi ms") (simp add: receive_event_def ReadPacketWithRXTimestampBuf_def)

lemma receive_general_eq: "receive_general buf (Inr (payload, sa)) env now sg s = handleGeneralMessage env now sg payload sa s"
  by (simp add: receive_general_def readPacketBuf_def)


abbreviation sample_bytes :: bytes where
  "sample_bytes \<equiv> packet_bytes (PSyncDelayReq (sample_delay FlagUnicast))"

lemma sample_delay_facts:
  "run_done sample_subscribed" "\<not> ctx_Err (sample_state sample_subscribed)" "ProbeMsgType sample_bytes = Inr MessageDelayReq"
  "SyncDelayReq_UnmarshalBinary (zero_SyncDelayReq\<lparr>sync_TLVs := []\<rparr>) sample_bytes = Some (sample_delay FlagUnicast, None)"
  "FlagField (sync_Header (sample_delay FlagUnicast)) \<noteq> FlagProfileSpecific1 OR FlagUnicast"
  "findWorker sample_senv (SourcePortIdentity (sync_Header (sample_delay FlagUnicast)))
     (workerOffset_of 0 (sync_TLVs (sample_delay FlagUnicast))) (sample_state sample_subscribed) = Some 1"
  "FindSubscription (SourcePortIdentity (sync_Header (sample_delay FlagUnicast))) MessageDelayResp
     (sv_sw (sample_state sample_subscribed) ! 1) = Some 0"
  by code_simp+


end
