(* ===== verification/Ptp_Handlers.thy ===== *)
theory Ptp_Handlers
  imports Ptp_Wire
begin

section \<open>The loops of the handlers (\<^verbatim>\<open>src/server/server.go\<close>)\<close>

text \<open>
  \<^verbatim>\<open>handleEventMessages\<close> and \<^verbatim>\<open>handleGeneralMessages\<close> as loops with the local variables that they allocate once and
  use again for every packet: the buffers of the read and the structure a packet is decoded into. The locale
  states what makes such a handler safe: the answer to a packet does not depend on what its locals hold.
\<close>

subsection \<open>Loops over packets\<close>

text \<open>
  What arrives: the time, and what the kernel gives. Between two packets the other goroutines change the
  server in any way. The loop ends with a panic, or waits with \<^term>\<open>None\<close>.
\<close>

type_synonym answer = "Server outcome access option"

fun handler_loop ::
  "('l \<Rightarrow> 'm \<Rightarrow> Server \<Rightarrow> answer) \<Rightarrow> ('l \<Rightarrow> 'm \<Rightarrow> Server \<Rightarrow> 'l) \<Rightarrow> ((Server \<Rightarrow> Server) \<times> 'm) list \<Rightarrow> 'l \<Rightarrow> Server \<Rightarrow> answer" where
  "handler_loop iteration left [] l s = Some (Val (Done s))"
| "handler_loop iteration left ((others, m) # ms) l s =
     (case iteration l m (others s) of
        Some (Val (Done s')) \<Rightarrow> handler_loop iteration left ms (left l m (others s)) s'
      | r \<Rightarrow> r)"

text \<open>The reference: new locals for every packet.\<close>

fun fresh_loop :: "('l \<Rightarrow> 'm \<Rightarrow> Server \<Rightarrow> answer) \<Rightarrow> 'l \<Rightarrow> ((Server \<Rightarrow> Server) \<times> 'm) list \<Rightarrow> Server \<Rightarrow> answer" where
  "fresh_loop iteration l0 [] s = Some (Val (Done s))"
| "fresh_loop iteration l0 ((others, m) # ms) s =
     (case iteration l0 m (others s) of Some (Val (Done s')) \<Rightarrow> fresh_loop iteration l0 ms s' | r \<Rightarrow> r)"

locale stateless_handler =
  fixes iteration :: "'l \<Rightarrow> 'm \<Rightarrow> Server \<Rightarrow> answer" and accepts :: "'m \<Rightarrow> bool"
  assumes locals_irrelevant: "accepts m \<Longrightarrow> iteration l m s = iteration l' m s"
begin

lemma loop_fresh:
  "list_all (\<lambda>(others, m). accepts m) ms \<Longrightarrow> handler_loop iteration left ms l s = fresh_loop iteration l0 ms s"
proof (induction ms arbitrary: l s)
  case (Cons om ms)
  obtain others m where om: "om = (others, m)" by (cases om)
  then have "accepts m" using Cons.prems by simp
  from locals_irrelevant [OF this, of l "others s" l0] show ?case
    using Cons om by (auto split: option.split access.split outcome.split)
qed simp

end

subsection \<open>The event handler\<close>

abbreviation PayloadSizeBytes :: nat where "PayloadSizeBytes \<equiv> 128"

record event_locals =
  el_buf :: bytes
  el_oob :: bytes
  el_dReq :: SyncDelayReq

definition event_begin :: event_locals where
  "event_begin = \<lparr>el_buf = replicate PayloadSizeBytes 0, el_oob = replicate ControlSizeBytes 0, el_dReq = zero_SyncDelayReq\<rparr>"

type_synonym event_arrival = "time \<times> (errno + bytes \<times> bytes \<times> Sockaddr)"

definition event_iteration :: "unix_abi \<Rightarrow> server_env \<Rightarrow> event_locals \<Rightarrow> event_arrival \<Rightarrow> Server \<Rightarrow> answer" where
  "event_iteration abi env l m s = (case m of (now, msg) \<Rightarrow> receive_event abi (el_buf l) (el_oob l) msg env now (el_dReq l) s)"

text \<open>What an iteration leaves in the locals: what was read, and what was decoded of a delay request.\<close>

definition event_left :: "unix_abi \<Rightarrow> event_locals \<Rightarrow> event_arrival \<Rightarrow> Server \<Rightarrow> event_locals" where
  "event_left abi l m s =
     (case snd m of
        Inl err \<Rightarrow> l
      | Inr (payload, ctl, sa) \<Rightarrow>
          (let decoded = (case ReadPacketWithRXTimestampBuf abi (el_buf l) (el_oob l) (snd m) of
                 Some (Val (buf, bbuf, eclisa, rxTS, None)) \<Rightarrow>
                   ProbeMsgType (take bbuf buf) = Inr MessageDelayReq \<and> \<not> ctx_Err s
               | _ \<Rightarrow> False)
           in \<lparr>el_buf = payload @ drop (length payload) (el_buf l), el_oob = ctl @ drop (length ctl) (el_oob l),
               el_dReq = (if decoded then
                   (case SyncDelayReq_UnmarshalBinary ((el_dReq l)\<lparr>sync_TLVs := []\<rparr>) payload of
                      Some (d, err) \<Rightarrow> d | None \<Rightarrow> el_dReq l)
                 else el_dReq l)\<rparr>))"

text \<open>Control messages as the kernel writes them.\<close>

definition from_kernel :: "unix_abi \<Rightarrow> event_arrival \<Rightarrow> bool" where
  "from_kernel abi m \<longleftrightarrow> (case snd m of Inl err \<Rightarrow> True
     | Inr (payload, ctl, sa) \<Rightarrow> \<exists>ms. holds_msgs abi ctl (int (length ctl)) 0 ms \<and> (\<forall>m \<in> set ms. sized abi m))"

subsection \<open>The general handler\<close>

record general_locals =
  gl_buf :: bytes
  gl_signaling :: Signaling

definition general_begin :: general_locals where
  "general_begin = \<lparr>gl_buf = replicate PayloadSizeBytes 0, gl_signaling = zero_Signaling\<rparr>"

type_synonym general_arrival = "time \<times> (errno + bytes \<times> Sockaddr)"

definition general_iteration :: "server_env \<Rightarrow> general_locals \<Rightarrow> general_arrival \<Rightarrow> Server \<Rightarrow> answer" where
  "general_iteration env l m s =
     (case m of (now, msg) \<Rightarrow> Some (Val (receive_general (gl_buf l) msg env now (gl_signaling l) s)))"

definition general_left :: "general_locals \<Rightarrow> general_arrival \<Rightarrow> Server \<Rightarrow> general_locals" where
  "general_left l m s =
     (case readPacketBuf (gl_buf l) (snd m) of
        (buf, bbuf, gclisa, Some err) \<Rightarrow> l
      | (buf, bbuf, gclisa, None) \<Rightarrow>
          \<lparr>gl_buf = buf,
           gl_signaling = (if ProbeMsgType (take bbuf buf) = Inr MessageSignaling then
               (case Signaling_UnmarshalBinary ((gl_signaling l)\<lparr>sig_TLVs := []\<rparr>) (take bbuf buf) of
                  Some (sg, err) \<Rightarrow> sg | None \<Rightarrow> gl_signaling l)
             else gl_signaling l)\<rparr>)"

subsection \<open>Decoding into a structure that was used before\<close>

text \<open>A packet that is accepted overwrites every field; what a rejected one leaves is not used.\<close>

definition accepted :: "('a \<times> go_error option) option \<Rightarrow> 'a option option" where
  "accepted r = map_option (\<lambda>(p, err). if err = None then Some p else None) r"

lemma seconds_copy_fresh: "6 \<le> length b \<Longrightarrow> seconds_copy s b = seconds_copy s' b"
  using seconds_copy_Some seconds_list_inj by metis

lemma sync_decoded_fresh:
  "accepted (SyncDelayReq_UnmarshalBinary (d\<lparr>sync_TLVs := ts\<rparr>) b) = accepted (SyncDelayReq_UnmarshalBinary (d'\<lparr>sync_TLVs := ts\<rparr>) b)"
proof (cases "length b < headerSize + 10")
  case False
  then have sec: "seconds_copy x (drop 34 b) = seconds_copy y (drop 34 b)" for x y by (intro seconds_copy_fresh) simp
  show ?thesis
    unfolding SyncDelayReq_UnmarshalBinary_def accepted_def Let_def
    using False
    by (simp add: sec [of "ts_Seconds (sync_OriginTimestamp d)" "ts_Seconds (sync_OriginTimestamp d')"] split: option.split bind_split prod.split)
qed (simp add: SyncDelayReq_UnmarshalBinary_def accepted_def)

lemma signaling_decoded_fresh:
  "accepted (Signaling_UnmarshalBinary (d\<lparr>sig_TLVs := ts\<rparr>) b) = accepted (Signaling_UnmarshalBinary (d'\<lparr>sig_TLVs := ts\<rparr>) b)"
  unfolding Signaling_UnmarshalBinary_def accepted_def Let_def
  by (simp split: option.split bind_split prod.split)

lemma accepted_case:
  assumes "accepted r = accepted r'"
  shows "(case r of None \<Rightarrow> x | Some (p, Some e) \<Rightarrow> y | Some (p, None) \<Rightarrow> f p)
    = (case r' of None \<Rightarrow> x | Some (p, Some e) \<Rightarrow> y | Some (p, None) \<Rightarrow> f p)"
proof (cases r; cases r')
  fix a b assume "r = Some a" "r' = Some b"
  then show ?thesis using assms by (cases a; cases b) (auto simp: accepted_def split: option.splits if_splits)
qed (use assms in \<open>auto simp: accepted_def\<close>)

lemma event_fresh: "handleEventMessage env now d buf sa t s = handleEventMessage env now d' buf sa t s"
  unfolding handleEventMessage_def accepted_case [OF sync_decoded_fresh [of "[]" d buf d']] ..

lemma general_fresh: "handleGeneralMessage env now g buf sa s = handleGeneralMessage env now g' buf sa s"
  unfolding handleGeneralMessage_def accepted_case [OF signaling_decoded_fresh [of "[]" g buf g']] ..


lemma event_done:
  assumes "server_inv env n s"
  shows "\<exists>s'. handleEventMessage env now d buf sa t s = Done s'"
proof -
  have "handleEventMessage env now d buf sa t s \<noteq> Hang s'" for s'
    by (auto simp: handleEventMessage_def delay_request_def Let_def split: sum.split option.split)
  then show ?thesis using event_no_crash [OF assms, of now d buf sa t] by (cases "handleEventMessage env now d buf sa t s") auto
qed

subsection \<open>Both handlers are stateless\<close>

lemma event_iteration_eq:
  assumes "cmsg_abi abi" and "from_kernel abi (now, msg)"
  shows "\<exists>t failed. event_iteration abi env l (now, msg) s = Some (Val (case msg of Inl e \<Rightarrow> Done s
    | Inr (payload, ctl, sa) \<Rightarrow> if failed then Done s else handleEventMessage env now (el_dReq l) payload sa t s))
    \<and> (\<forall>l'. event_iteration abi env l' (now, msg) s = event_iteration abi env l (now, msg) s)"
proof (cases msg)
  case (Inl e)
  then show ?thesis by (simp add: event_iteration_def receive_event_def ReadPacketWithRXTimestampBuf_def)
next
  case (Inr m)
  obtain payload ctl sa where m: "m = (payload, ctl, sa)" by (cases m)
  obtain ms where ms: "holds_msgs abi ctl (int (length ctl)) 0 ms" "\<forall>m \<in> set ms. sized abi m"
    using assms(2) Inr m by (auto simp: from_kernel_def)
  show ?thesis
    using receive_event_eq [OF assms(1) ms] event_fresh [of env now _ payload sa _ s "el_dReq l"] Inr m
    by (intro exI [of _ "fst (first_timestamp abi ms)"] exI [of _ "snd (first_timestamp abi ms) \<noteq> None"])
      (simp add: event_iteration_def)
qed

interpretation event_handler: stateless_handler "event_iteration abi env" "\<lambda>m. cmsg_abi abi \<and> from_kernel abi m" for abi env
proof unfold_locales
  fix m l s l' assume "cmsg_abi abi \<and> from_kernel abi m"
  then show "event_iteration abi env l m s = event_iteration abi env l' m s"
    using event_iteration_eq [of abi "fst m" "snd m" env l s] by auto
qed

interpretation general_handler: stateless_handler "general_iteration env" "\<lambda>m. True" for env
proof unfold_locales
  fix m l s l'
  show "general_iteration env l m s = general_iteration env l' m s"
    using general_fresh [of env _ "gl_signaling l" _ _ s "gl_signaling l'"]
    by (auto simp: general_iteration_def receive_general_def readPacketBuf_def split: prod.split sum.split)
qed

text \<open>C9: no packet influences the answer to a later one through the buffers and the structures a handler reuses: the loop of each handler, with what every iteration leaves in its locals, does the same as one with new, zeroed locals for every packet, whatever the other goroutines do in between.\<close>

theorem handlers_stateless:
  assumes "cmsg_abi abi" and "list_all (\<lambda>(others, m). from_kernel abi m) es"
  shows "handler_loop (event_iteration abi env) (event_left abi) es event_begin s = fresh_loop (event_iteration abi env) event_begin es s
    \<and> handler_loop (general_iteration env) general_left gs general_begin s = fresh_loop (general_iteration env) general_begin gs s"
proof
  have "list_all (\<lambda>(others, m). cmsg_abi abi \<and> from_kernel abi m) es" using assms by (simp add: list_all_iff split_def)
  then show "handler_loop (event_iteration abi env) (event_left abi) es event_begin s = fresh_loop (event_iteration abi env) event_begin es s"
    by (rule event_handler.loop_fresh)
  show "handler_loop (general_iteration env) general_left gs general_begin s = fresh_loop (general_iteration env) general_begin gs s"
    by (rule general_handler.loop_fresh) (simp add: list_all_iff split_def)
qed

definition sample_event :: "(Server \<Rightarrow> Server) \<times> event_arrival" where
  "sample_event = (\<lambda>s. s, 5, Inr (sample_bytes, sample_control, SockaddrInet4 319 [10, 0, 0, 9]))"

lemma sample_event_kernel: "list_all (\<lambda>(others, m). from_kernel linux_amd64 m) [sample_event, sample_event]"
proof -
  have "from_kernel linux_amd64 (snd sample_event)"
    unfolding sample_event_def from_kernel_def snd_conv sum.case prod.case using sample_holds sample_sized by blast
  then show ?thesis by (simp add: split_def)
qed

theorem handlers_stateless_witness:
  "handler_loop (event_iteration linux_amd64 sample_senv) (event_left linux_amd64) [sample_event, sample_event] event_begin sample_server
     = fresh_loop (event_iteration linux_amd64 sample_senv) event_begin [sample_event, sample_event] sample_server"
  using handlers_stateless [OF amd64.cmsg_abi_axioms sample_event_kernel] by blast

text \<open>The event handler serves for ever: whatever packets arrive and whatever the other goroutines do in between, its loop neither panics nor reads outside its buffers nor waits for anything but the next packet, and the server stays in a reachable state.\<close>

lemma event_handler_serves:
  assumes "started env s0" and "reachable env s0 s" and "cmsg_abi abi"
    and "\<forall>(others, m) \<in> set es. from_kernel abi m \<and> (\<forall>s. reachable env s0 s \<longrightarrow> reachable env s0 (others s))"
  shows "\<exists>s'. handler_loop (event_iteration abi env) (event_left abi) es l s = Some (Val (Done s')) \<and> reachable env s0 s'"
  using assms(2,4)
proof (induction es arbitrary: l s)
  case (Cons e es)
  obtain others now msg where e: "e = (others, now, msg)" by (cases e)
  let ?s = "others s"
  have k: "from_kernel abi (now, msg)" and r: "reachable env s0 ?s" using Cons.prems e by auto
  obtain t failed where eq: "event_iteration abi env l (now, msg) ?s = Some (Val (case msg of Inl e \<Rightarrow> Done ?s
      | Inr (payload, ctl, sa) \<Rightarrow> if failed then Done ?s else handleEventMessage env now (el_dReq l) payload sa t ?s))"
    using event_iteration_eq [OF assms(3) k, of env l ?s] by blast
  have h: "\<exists>s'. handleEventMessage env now d p sa t ?s = Done s' \<and> reachable env s0 s'" for d p sa
    using event_done [OF started_inv [OF assms(1) r], of now d p sa t] reachable.iteration [OF r, of "EventPacket now d p sa t"] by auto
  obtain s' where "event_iteration abi env l (now, msg) ?s = Some (Val (Done s'))" "reachable env s0 s'"
    using eq r by (auto split: sum.splits prod.splits if_splits) (use h in blast)
  then show ?case using Cons.IH [of s' "event_left abi l (now, msg) ?s"] Cons.prems(2) e by auto
qed simp

lemma event_handler_serves_witness:
  "\<exists>s'. handler_loop (event_iteration linux_amd64 sample_senv) (event_left linux_amd64) [sample_event, sample_event] event_begin sample_server
     = Some (Val (Done s'))"
proof -
  have "\<forall>(others, m) \<in> set [sample_event, sample_event].
      from_kernel linux_amd64 m \<and> (\<forall>s. reachable sample_senv sample_server s \<longrightarrow> reachable sample_senv sample_server (others s))"
    using sample_event_kernel by (simp add: sample_event_def)
  from event_handler_serves [OF sample_started reachable.start amd64.cmsg_abi_axioms this, of event_begin] show ?thesis by blast
qed

end
