(* ===== verification/Ptp_Float.thy ===== *)
theory Ptp_Float
  imports Ptp_Types Complex_Main
begin

section \<open>Intervals and corrections in floating point (\<^verbatim>\<open>src/protocol/types.go\<close>)\<close>

text \<open>
  The conversions of time intervals and corrections between the 48.16 fixed-point form of the wire and
  \<^verbatim>\<open>float64\<close>, with the part of binary64 arithmetic they use: integers rounded to 53 bits, scaling by a power
  of two, comparison, truncation, and \<^verbatim>\<open>%.3f\<close>. A finite float is \<open>m * 2 ^ e\<close>. The two zeros
  are not distinguished: no operation here makes a negative zero out of anything else.
\<close>

subsection \<open>Binary64\<close>

datatype float64 = Finite int int | PosInf | NegInf | NaN

fun bits :: "nat \<Rightarrow> nat" where
  "bits n = (if n = 0 then 0 else Suc (bits (n div 2)))"

declare bits.simps [simp del]

text \<open>Dividing by a power of two, rounded to the nearest integer, ties to even.\<close>

definition round_shift :: "nat \<Rightarrow> nat \<Rightarrow> nat" where
  "round_shift n k =
     (let q = n div 2 ^ k; r = n mod 2 ^ k
      in if 2 * r < 2 ^ k \<or> 2 * r = 2 ^ k \<and> even q then q else q + 1)"

definition float_of_int :: "int \<Rightarrow> float64" where
  "float_of_int i = (let n = nat \<bar>i\<bar>; k = bits n - 53 in Finite (sgn i * int (round_shift n k)) (int k))"

text \<open>
  Scaling by \<open>2 ^ 16\<close> is exact unless it overflows, and by \<open>2 ^ -16\<close> when the float is an integer.
\<close>

fun times_twoPow16 :: "float64 \<Rightarrow> float64" where
  "times_twoPow16 (Finite m e) =
     (if e + 16 \<ge> 0 \<and> \<bar>m\<bar> * 2 ^ nat (e + 16) \<ge> 2 ^ 1024 then (if m < 0 then NegInf else PosInf)
      else Finite m (e + 16))"
| "times_twoPow16 f = f"

fun div_twoPow16 :: "float64 \<Rightarrow> float64" where
  "div_twoPow16 (Finite m e) = Finite m (e - 16)"
| "div_twoPow16 f = f"

fun float_less :: "float64 \<Rightarrow> float64 \<Rightarrow> bool" where
  "float_less (Finite m e) (Finite n f) \<longleftrightarrow>
     (let d = min e f in m * 2 ^ nat (e - d) < n * 2 ^ nat (f - d))"
| "float_less NaN g \<longleftrightarrow> False"
| "float_less f NaN \<longleftrightarrow> False"
| "float_less f NegInf \<longleftrightarrow> False"
| "float_less PosInf g \<longleftrightarrow> False"
| "float_less NegInf g \<longleftrightarrow> True"
| "float_less f PosInf \<longleftrightarrow> True"

text \<open>
  Conversion to \<^verbatim>\<open>int64\<close> drops the fraction. What it gives for a value out of range the language leaves
  to the implementation: the argument \<open>oor\<close>.
\<close>

definition truncate_float :: "int \<Rightarrow> int \<Rightarrow> int" where
  "truncate_float m e = (if e \<ge> 0 then m * 2 ^ nat e else sgn m * (\<bar>m\<bar> div 2 ^ nat (- e)))"

fun int64_of_float :: "int \<Rightarrow> float64 \<Rightarrow> int" where
  "int64_of_float oor (Finite m e) =
     (let v = truncate_float m e in if - (2 ^ 63) \<le> v \<and> v < 2 ^ 63 then v else oor)"
| "int64_of_float oor f = oor"

text \<open>\<^verbatim>\<open>%.3f\<close>: the exact value rounded to three decimals, ties to even.\<close>

definition pad3 :: "nat \<Rightarrow> string" where
  "pad3 n = (let s = nat_digits n in replicate (3 - length s) CHR ''0'' @ s)"

fun fmt_f3 :: "float64 \<Rightarrow> string" where
  "fmt_f3 (Finite m e) =
     (let n = nat \<bar>m\<bar> * 1000;
          q = (if e \<ge> 0 then n * 2 ^ nat e else round_shift n (nat (- e)))
      in (if m < 0 then ''-'' else []) @ nat_digits (q div 1000) @ ''.'' @ pad3 (q mod 1000))"
| "fmt_f3 PosInf = ''+Inf''"
| "fmt_f3 NegInf = ''-Inf''"
| "fmt_f3 NaN = ''NaN''"

subsection \<open>Time intervals and corrections\<close>

definition IntFloat_Value :: "u64 \<Rightarrow> float64" where
  "IntFloat_Value t = div_twoPow16 (float_of_int (sint t))"

definition TimeInterval_Nanoseconds :: "u64 \<Rightarrow> float64" where
  "TimeInterval_Nanoseconds t = IntFloat_Value t"

definition TimeInterval_String :: "u64 \<Rightarrow> string" where
  "TimeInterval_String t = ''TimeInterval('' @ fmt_f3 (TimeInterval_Nanoseconds t) @ ''ns)''"

definition NewTimeInterval :: "int \<Rightarrow> float64 \<Rightarrow> u64" where
  "NewTimeInterval oor ns = word_of_int (int64_of_float oor (times_twoPow16 ns))"

definition Correction_Nanoseconds :: "u64 \<Rightarrow> float64" where
  "Correction_Nanoseconds t = (if TooBig t then PosInf else IntFloat_Value t)"

definition Correction_Duration :: "int \<Rightarrow> u64 \<Rightarrow> duration" where
  "Correction_Duration oor t =
     (if \<not> TooBig t then int64_of_float oor (Correction_Nanoseconds t) else 0)"

definition Correction_String :: "u64 \<Rightarrow> string" where
  "Correction_String t =
     (if TooBig t then ''Correction(Too big)''
      else ''Correction('' @ fmt_f3 (Correction_Nanoseconds t) @ ''ns)'')"

text \<open>The constant of the comparison is a \<^verbatim>\<open>float64\<close>: it is rounded too.\<close>

definition NewCorrection :: "int \<Rightarrow> float64 \<Rightarrow> u64" where
  "NewCorrection oor ns =
     (let t = times_twoPow16 ns
      in if float_less (float_of_int 0x7fffffffffffffff) t then 0x7fffffffffffffff
         else word_of_int (int64_of_float oor (times_twoPow16 ns)))"

subsection \<open>Rounding\<close>

lemma bits_le: "n < 2 ^ b \<Longrightarrow> bits n \<le> b"
proof (induction b arbitrary: n)
  case (Suc b)
  then have "bits (n div 2) \<le> b" by auto
  then show ?case by (subst bits.simps) simp
qed (simp add: bits.simps)

lemma round_shift_0 [simp]: "round_shift n 0 = n"
  by (simp add: round_shift_def)

lemma round_shift_near: "2 * \<bar>int (round_shift n k * 2 ^ k) - int n\<bar> \<le> 2 ^ k"
proof -
  define q r where "q = n div 2 ^ k" and "r = n mod 2 ^ k"
  have "n = q * 2 ^ k + r" unfolding q_def r_def by (rule div_mult_mod_eq [symmetric])
  then have n: "int n = int q * 2 ^ k + int r" by simp
  have r: "r < 2 ^ k" by (simp add: r_def)
  then have r': "int r < 2 ^ k" by (metis of_nat_less_iff of_nat_numeral of_nat_power)
  have "round_shift n k = q \<and> 2 * r \<le> 2 ^ k \<or> round_shift n k = q + 1 \<and> 2 ^ k \<le> 2 * r"
    by (auto simp: round_shift_def Let_def q_def r_def)
  then have "round_shift n k = q \<and> 2 * int r \<le> 2 ^ k \<or> round_shift n k = q + 1 \<and> 2 ^ k \<le> 2 * int r"
    by (metis (mono_tags) of_nat_le_iff of_nat_mult of_nat_numeral of_nat_power)
  then show ?thesis using n r' by (auto simp: algebra_simps)
qed

lemma round_shift_le:
  assumes "n \<le> c * 2 ^ k"
  shows "round_shift n k \<le> c"
proof (cases "n = c * 2 ^ k")
  case False
  then have "n div 2 ^ k < c" using assms by (simp add: less_mult_imp_div_less)
  then show ?thesis by (auto simp: round_shift_def Let_def)
qed (simp add: round_shift_def)

lemma float_of_int_exact: "\<bar>i\<bar> < 2 ^ 53 \<Longrightarrow> float_of_int i = Finite i 0"
proof -
  assume i: "\<bar>i\<bar> < 2 ^ 53"
  then have "nat \<bar>i\<bar> < 2 ^ 53" by (simp add: nat_less_iff)
  then have "bits (nat \<bar>i\<bar>) - 53 = 0" using bits_le by fastforce
  then show ?thesis by (simp add: float_of_int_def Let_def mult_sgn_abs)
qed

lemma bits_gt: "n < 2 ^ bits n"
proof (induction n rule: bits.induct)
  case (1 n)
  then show ?case by (subst bits.simps) auto
qed

text \<open>The natural number nearest to one of 64 bits that has 53 significant ones.\<close>

lemma round53:
  assumes "n \<le> 2 ^ 63"
  defines "k \<equiv> bits n - 53"
  shows "k \<le> 11" and "round_shift n k \<le> 2 ^ 53" and "round_shift n k * 2 ^ k \<le> 2 ^ 63"
    and "\<bar>int (round_shift n k * 2 ^ k) - int n\<bar> \<le> 512"
proof -
  have "n < 2 ^ 64" using assms(1) by simp
  then show k: "k \<le> 11" using bits_le by (fastforce simp: k_def)
  have "bits n \<le> 53 + k" by (simp add: k_def)
  then have "n \<le> 2 ^ 53 * 2 ^ k"
    using bits_gt [of n] power_increasing [of "bits n" "53 + k" "2::nat"] by (simp add: power_add)
  then show "round_shift n k \<le> 2 ^ 53" by (rule round_shift_le)
  have "n \<le> 2 ^ (63 - k) * 2 ^ k" using assms(1) k by (simp flip: power_add)
  then have "round_shift n k * 2 ^ k \<le> 2 ^ (63 - k) * 2 ^ k" using round_shift_le by (meson mult_le_mono1)
  then show "round_shift n k * 2 ^ k \<le> 2 ^ 63" using k by (simp flip: power_add)
  show "\<bar>int (round_shift n k * 2 ^ k) - int n\<bar> \<le> 512"
  proof (cases "n = 2 ^ 63")
    case True
    have "(2::nat) ^ k dvd 2 ^ 63" using k by (intro le_imp_power_dvd) simp
    then have "n mod 2 ^ k = 0" using True by (metis mod_eq_0_iff_dvd)
    then show ?thesis by (auto simp: round_shift_def Let_def)
  next
    case False
    then have "bits n \<le> 63" using assms(1) bits_le by (meson le_neq_implies_less)
    then have "(2::int) ^ k \<le> 1024" using power_increasing [of k 10 "2::int"] by (simp add: k_def)
    then have "2 * \<bar>int (round_shift n k * 2 ^ k) - int n\<bar> \<le> 1024" by (rule order_trans [OF round_shift_near])
    moreover have "2 * x \<le> 1024 \<Longrightarrow> x \<le> 512" for x :: int by simp
    ultimately show ?thesis by blast
  qed
qed

lemma float_of_int_near:
  assumes "- (2 ^ 63) \<le> i" and "i < 2 ^ 63"
  obtains m k where "float_of_int i = Finite m (int k)" and "k \<le> 11" and "\<bar>m\<bar> \<le> 2 ^ 53"
    and "\<bar>m * 2 ^ k - i\<bar> \<le> 512" and "- (2 ^ 63) \<le> m * 2 ^ k" and "m * 2 ^ k \<le> 2 ^ 63"
proof -
  define n k where "n = nat \<bar>i\<bar>" and "k = bits n - 53"
  let ?r = "round_shift n k"
  have n: "n \<le> 2 ^ 63" "int n = \<bar>i\<bar>" using assms by (auto simp: n_def)
  note r = round53 [OF n(1), folded k_def]
  have b: "int ?r \<le> 2 ^ 53" using of_nat_mono [OF r(2), where 'a = int] by simp
  have c: "int ?r * 2 ^ k \<le> 2 ^ 63" using of_nat_mono [OF r(3), where 'a = int] by simp
  have d: "\<bar>int ?r * 2 ^ k - int n\<bar> \<le> 512" using r(4) by simp
  have "float_of_int i = Finite (sgn i * int ?r) (int k)"
    by (simp add: float_of_int_def Let_def n_def k_def)
  moreover have "\<bar>sgn i * x\<bar> \<le> \<bar>x\<bar>" for x by (simp add: abs_mult sgn_if)
  from this [of "int ?r"] this [of "int ?r * 2 ^ k"] this [of "int ?r * 2 ^ k - int n"]
  have "\<bar>sgn i * int ?r\<bar> \<le> 2 ^ 53" "\<bar>sgn i * int ?r * 2 ^ k\<bar> \<le> 2 ^ 63"
    "\<bar>sgn i * (int ?r * 2 ^ k - int n)\<bar> \<le> 512" using b c d by (simp_all add: mult.assoc)
  moreover have "sgn i * (int ?r * 2 ^ k - int n) = sgn i * int ?r * 2 ^ k - i"
    using n(2) by (simp add: right_diff_distrib mult.assoc sgn_mult_abs)
  ultimately show ?thesis
    using r(1) by (intro that [of "sgn i * int ?r" k]) (simp_all add: abs_le_iff)
qed

lemma sint64_range: "- (2 ^ 63) \<le> sint (t :: u64)" "sint (t :: u64) < 2 ^ 63"
  using sint_ge [of t] sint_lt [of t] by simp_all
subsection \<open>Conversions\<close>

lemma sint64_trunc [simp]: "sint (word_of_int i :: u64) = i" if "- (2 ^ 63) \<le> i" "i < 2 ^ 63" for i
  using that by (simp add: signed_of_int signed_take_bit_int_eq_self)

lemma scaled_back:
  assumes "k \<le> 11" and "\<bar>m\<bar> \<le> 2 ^ 53"
  shows "times_twoPow16 (div_twoPow16 (Finite m (int k))) = Finite m (int k)"
proof -
  have "\<bar>m\<bar> * 2 ^ k \<le> 2 ^ 53 * 2 ^ 11"
    using assms power_increasing [of k 11 "2::int"] by (intro mult_mono) auto
  also have "\<dots> < (2::int) ^ 1024" by simp
  finally show ?thesis by simp
qed

text \<open>The value of a finite float.\<close>

definition fval :: "int \<Rightarrow> int \<Rightarrow> rat" where
  "fval m e = of_int m * 2 powi e"

lemma fval_split: "0 \<le> j \<Longrightarrow> fval m (j + e) = of_int (m * 2 ^ nat j) * 2 powi e"
proof -
  assume j: "0 \<le> j"
  have "(2::rat) powi (j + e) = 2 powi j * 2 powi e" by (simp add: power_int_add)
  moreover have "(2::rat) powi j = of_int (2 ^ nat j)" using j by (simp add: power_int_def)
  ultimately show ?thesis unfolding fval_def by (simp only: of_int_mult mult.assoc)
qed

lemma fval_nonneg: "0 \<le> e \<Longrightarrow> fval m e = of_int (m * 2 ^ nat e)"
  using fval_split [of e m 0] by simp

lemma float_less_fval: "float_less (Finite m e) (Finite n f) \<longleftrightarrow> fval m e < fval n f"
proof -
  define d where "d = min e f"
  have "fval m e = of_int (m * 2 ^ nat (e - d)) * 2 powi d" "fval n f = of_int (n * 2 ^ nat (f - d)) * 2 powi d"
    using fval_split [of "e - d" m d] fval_split [of "f - d" n d] by (simp_all add: d_def)
  moreover have "(0::rat) < 2 powi d" by simp
  ultimately show ?thesis
    by (simp only: float_less.simps Let_def d_def [symmetric] mult_less_cancel_right_pos of_int_less_iff)
qed

text \<open>Truncation gives the integer part of the value.\<close>

lemma truncate_float_fval:
  "truncate_float m e = (if m \<ge> 0 then \<lfloor>fval m e\<rfloor> else \<lceil>fval m e\<rceil>)"
proof (cases "0 \<le> e")
  case False
  have p: "(2::rat) powi e = 1 / of_int (2 ^ nat (- e))" using False by (simp add: power_int_def inverse_eq_divide power_one_over)
  have f: "fval m e = of_int m / of_int (2 ^ nat (- e))" unfolding fval_def p by simp
  have "\<lfloor>fval m e\<rfloor> = m div 2 ^ nat (- e)" unfolding f by (rule floor_divide_of_int_eq)
  moreover have "\<lceil>fval m e\<rceil> = - (- m div 2 ^ nat (- e))" unfolding f by (rule ceiling_divide_eq_div)
  ultimately show ?thesis using False by (auto simp: truncate_float_def sgn_if)
qed (simp add: truncate_float_def fval_nonneg del: of_int_mult of_int_power)

lemma scaled_float:
  "times_twoPow16 (Finite m e) = Finite m (e + 16) \<or>
   2 ^ 1024 \<le> \<bar>fval m (e + 16)\<bar> \<and> times_twoPow16 (Finite m e) = (if m < 0 then NegInf else PosInf)"
proof (cases "0 \<le> e + 16")
  case True
  then have "\<bar>fval m (e + 16)\<bar> = of_int (\<bar>m\<bar> * 2 ^ nat (e + 16))" by (simp add: fval_nonneg abs_mult)
  moreover have "(2::rat) ^ 1024 = of_int (2 ^ 1024)" by (simp only: of_int_power of_int_numeral)
  ultimately have "2 ^ 1024 \<le> \<bar>fval m (e + 16)\<bar> \<longleftrightarrow> 2 ^ 1024 \<le> \<bar>m\<bar> * 2 ^ nat (e + 16)"
    by (simp only: of_int_le_iff)
  then show ?thesis using True by (simp only: times_twoPow16.simps) (simp split: if_split del: power_numeral)
qed simp

lemma max_float: "float_of_int 0x7fffffffffffffff = Finite (2 ^ 53) 10" "fval (2 ^ 53) 10 = 2 ^ 63"
proof -
  have "bits 9223372036854775807 = 63" by (simp add: bits.simps)
  then show "float_of_int 0x7fffffffffffffff = Finite (2 ^ 53) 10"
    by (simp add: float_of_int_def Let_def round_shift_def)
qed (simp add: fval_def power_int_def)

lemma interval_scaled:
  obtains m k where "times_twoPow16 (IntFloat_Value t) = Finite m (int k)" and "fval m (int k) = of_int (m * 2 ^ k)"
    and "\<bar>m * 2 ^ k - sint t\<bar> \<le> 512" and "- (2 ^ 63) \<le> m * 2 ^ k" and "k \<le> 11"
    and "IntFloat_Value t = Finite m (int k - 16)" and "m * 2 ^ k \<le> 2 ^ 63"
proof -
  obtain m k where f: "float_of_int (sint t) = Finite m (int k)" "k \<le> 11" "\<bar>m\<bar> \<le> 2 ^ 53"
    "\<bar>m * 2 ^ k - sint t\<bar> \<le> 512" "- (2 ^ 63) \<le> m * 2 ^ k" "m * 2 ^ k \<le> 2 ^ 63"
    using float_of_int_near [OF sint64_range [of t]] by metis
  then show ?thesis
    using scaled_back [OF f(2,3)] that [of m k] by (simp add: IntFloat_Value_def fval_nonneg)
qed

lemma interval_there_and_back:
  assumes "sint t < 2 ^ 63 - 512"
  shows "\<bar>sint (NewTimeInterval oor (TimeInterval_Nanoseconds t)) - sint t\<bar> \<le> 512"
    and "NewCorrection oor (Correction_Nanoseconds t) = NewTimeInterval oor (TimeInterval_Nanoseconds t)"
proof -
  obtain m k where f: "times_twoPow16 (IntFloat_Value t) = Finite m (int k)" "fval m (int k) = of_int (m * 2 ^ k)"
    "\<bar>m * 2 ^ k - sint t\<bar> \<le> 512" "- (2 ^ 63) \<le> m * 2 ^ k" using interval_scaled [of t] by metis
  have lt: "m * 2 ^ k < 2 ^ 63" using f(3) assms by linarith
  then have "int64_of_float oor (Finite m (int k)) = m * 2 ^ k" using f(4) by (simp add: truncate_float_def)
  then have "sint (NewTimeInterval oor (TimeInterval_Nanoseconds t)) = m * 2 ^ k"
    unfolding NewTimeInterval_def TimeInterval_Nanoseconds_def f(1) using f(4) lt by (simp only: sint64_trunc)
  then show "\<bar>sint (NewTimeInterval oor (TimeInterval_Nanoseconds t)) - sint t\<bar> \<le> 512" using f(3) by simp
  have "fval m (int k) < of_int (2 ^ 63)" using lt unfolding f(2) of_int_less_iff .
  then have "\<not> float_less (Finite (2 ^ 53) 10) (Finite m (int k))"
    unfolding float_less_fval max_float(2) by simp
  moreover have "\<not> TooBig t"
  proof
    assume "TooBig t"
    then have "sint t = 2 ^ 63 - 1" by (simp add: TooBig_def)
    then show False using assms by simp
  qed
  ultimately show "NewCorrection oor (Correction_Nanoseconds t) = NewTimeInterval oor (TimeInterval_Nanoseconds t)"
    using f(1) by (simp add: NewCorrection_def NewTimeInterval_def TimeInterval_Nanoseconds_def
        Correction_Nanoseconds_def max_float(1) del: float_less.simps)
qed

lemma interval_exact:
  assumes "\<bar>sint t\<bar> < 2 ^ 53"
  shows "IntFloat_Value t = Finite (sint t) (- 16)" and "NewTimeInterval oor (TimeInterval_Nanoseconds t) = t"
  using assms
  by (auto simp: IntFloat_Value_def float_of_int_exact NewTimeInterval_def TimeInterval_Nanoseconds_def
      truncate_float_def Let_def)

text \<open>C36: an interval or a correction survives the conversion to floating-point nanoseconds and back exactly when it has at most 53 bits, and up to 512 units (1/128 ns) otherwise, as long as it is at least 512 below the largest value.\<close>

theorem correction_float_roundtrip:
  assumes "sint t < 2 ^ 63 - 512"
  shows "\<bar>sint (NewTimeInterval oor (TimeInterval_Nanoseconds t)) - sint t\<bar> \<le> 512
    \<and> NewCorrection oor (Correction_Nanoseconds t) = NewTimeInterval oor (TimeInterval_Nanoseconds t)
    \<and> (\<bar>sint t\<bar> < 2 ^ 53 \<longrightarrow> NewTimeInterval oor (TimeInterval_Nanoseconds t) = t)"
  using interval_there_and_back [OF assms] interval_exact(2) by blast

theorem correction_float_roundtrip_witness:
  "NewCorrection 0 (Correction_Nanoseconds 0x28000) = 0x28000"
  using correction_float_roundtrip [of "0x28000" 0] by simp

lemma fval_sign: "0 \<le> fval m e \<longleftrightarrow> 0 \<le> m"
proof -
  have "\<not> (2::rat) powi e \<le> 0" by (simp add: not_le)
  then show ?thesis by (auto simp: fval_def zero_le_mult_iff)
qed

lemma new_correction_finite:
  assumes "times_twoPow16 (Finite m e) = Finite m (e + 16)"
  defines "x \<equiv> fval m (e + 16)"
  shows "NewCorrection oor (Finite m e) =
    (if x > 2 ^ 63 then 0x7fffffffffffffff
     else word_of_int (let v = if m \<ge> 0 then \<lfloor>x\<rfloor> else \<lceil>x\<rceil> in if - (2 ^ 63) \<le> v \<and> v < 2 ^ 63 then v else oor))"
  unfolding NewCorrection_def Let_def max_float(1) assms(1) float_less_fval max_float(2) int64_of_float.simps
    truncate_float_fval x_def by (rule refl)

lemma new_correction_infinite:
  assumes "times_twoPow16 (Finite m e) = (if m < 0 then NegInf else PosInf)"
  shows "NewCorrection oor (Finite m e) = (if m < 0 then word_of_int oor else 0x7fffffffffffffff)"
  using assms by (cases "m < 0") (simp_all add: NewCorrection_def max_float(1) Let_def)

lemma too_big_mark [simp]: "TooBig 0x7fffffffffffffff"
  by (simp add: TooBig_def)

lemma integer_part_bounds:
  fixes x :: rat
  defines "v \<equiv> if x \<ge> 0 then \<lfloor>x\<rfloor> else \<lceil>x\<rceil>"
  shows "- (2 ^ 63) \<le> x \<Longrightarrow> x < 2 ^ 63 \<Longrightarrow> - (2 ^ 63) \<le> v \<and> v < 2 ^ 63"
    and "x = 2 ^ 63 \<or> x \<le> - (2 ^ 63) - 1 \<Longrightarrow> \<not> (- (2 ^ 63) \<le> v \<and> v < 2 ^ 63)"
  unfolding v_def by (auto simp: le_floor_iff floor_less_iff le_ceiling_iff ceiling_less_iff ceiling_le_iff) 

text \<open>C37: building a correction from finite nanoseconds, \<open>x\<close> being the value in units: above \<open>2 ^ 63\<close> it is the mark for too big, between the bounds it is the integer part of \<open>x\<close>, and at exactly \<open>2 ^ 63\<close>, as below the least value, it is whatever the platform's conversion gives: the bound of the check is rounded up to \<open>2 ^ 63\<close>, so the check misses that value.\<close>

theorem new_correction_saturates:
  assumes "x = fval m (e + 16)"
  shows "(x > 2 ^ 63 \<longrightarrow> TooBig (NewCorrection oor (Finite m e)))
    \<and> (- (2 ^ 63) \<le> x \<and> x < 2 ^ 63
         \<longrightarrow> sint (NewCorrection oor (Finite m e)) = (if x \<ge> 0 then \<lfloor>x\<rfloor> else \<lceil>x\<rceil>))
    \<and> (x = 2 ^ 63 \<or> x \<le> - (2 ^ 63) - 1 \<longrightarrow> NewCorrection oor (Finite m e) = word_of_int oor)"
proof -
  have m: "0 \<le> m \<longleftrightarrow> 0 \<le> x" by (simp add: assms fval_sign)
  consider (finite) "times_twoPow16 (Finite m e) = Finite m (e + 16)"
    | (infinite) "2 ^ 1024 \<le> \<bar>x\<bar>" "times_twoPow16 (Finite m e) = (if m < 0 then NegInf else PosInf)"
    using scaled_float [of m e] assms by blast
  then show ?thesis
  proof cases
    case finite
    have c: "NewCorrection oor (Finite m e) = (if x > 2 ^ 63 then 0x7fffffffffffffff
      else word_of_int (let v = if x \<ge> 0 then \<lfloor>x\<rfloor> else \<lceil>x\<rceil> in if - (2 ^ 63) \<le> v \<and> v < 2 ^ 63 then v else oor))"
      using new_correction_finite [OF finite, of oor] unfolding m assms [symmetric] .
    then show ?thesis
      using integer_part_bounds [of x] sint64_trunc [of "if x \<ge> 0 then \<lfloor>x\<rfloor> else \<lceil>x\<rceil>"] unfolding Let_def by auto
  next
    case infinite
    have "(2::rat) ^ 63 + 1 < 2 ^ 1024" by simp
    then show ?thesis
      using infinite(1) new_correction_infinite [OF infinite(2), of oor] m by (auto simp: abs_if not_less)
  qed
qed

theorem new_correction_saturates_witness:
  "fval 1 (47 + 16) = 2 ^ 63 \<and> NewCorrection (- (2 ^ 63)) (Finite 1 47) = 0x8000000000000000"
  using new_correction_saturates [of "2 ^ 63" 1 47 "- (2 ^ 63)"] by (simp add: fval_def power_int_def)

lemma quotients_near: "\<bar>a - b\<bar> \<le> 512 \<Longrightarrow> \<bar>sgn a * (\<bar>a\<bar> div 65536) - sgn b * (\<bar>b\<bar> div 65536)\<bar> \<le> (1::int)"
proof -
  assume d: "\<bar>a - b\<bar> \<le> 512"
  have le: "x div 65536 \<le> y div 65536 + 1" if "x \<le> y + 512" for x y :: int
    using zdiv_mono1 [of x "y + 65536" 65536] that by simp
  have small: "\<bar>x\<bar> div 65536 = 0" if "\<bar>x\<bar> \<le> 512" for x :: int using that by simp
  consider "0 \<le> a" "0 \<le> b" | "a < 0" "b < 0" | "\<bar>a\<bar> \<le> 512" "\<bar>b\<bar> \<le> 512" using d by linarith
  then show ?thesis
  proof cases
    case 1 then show ?thesis using le [of a b] le [of b a] d by (auto simp: sgn_if abs_le_iff)
  next
    case 2 then show ?thesis using le [of "- a" "- b"] le [of "- b" "- a"] d by (auto simp: abs_le_iff)
  next
    case 3 then show ?thesis by (simp add: small)
  qed
qed

lemma truncate_scaled:
  assumes "k \<le> 16"
  shows "truncate_float m (int k - 16) = sgn (m * 2 ^ k) * (\<bar>m * 2 ^ k\<bar> div 65536)"
proof -
  have "(65536::int) = 2 ^ (16 - k) * 2 ^ k" using assms by (simp flip: power_add)
  then have "\<bar>m * 2 ^ k\<bar> div 65536 = \<bar>m\<bar> * 2 ^ k div (2 ^ (16 - k) * 2 ^ k)" by (simp only: abs_mult power_abs abs_numeral)
  then have "\<bar>m * 2 ^ k\<bar> div 65536 = \<bar>m\<bar> div 2 ^ (16 - k)" by simp
  moreover have "nat (16 - int k) = 16 - k" by linarith
  ultimately show ?thesis using assms by (cases "k = 16") (simp_all add: truncate_float_def sgn_mult mult_sgn_abs)
qed

text \<open>The duration of a correction is its whole nanoseconds when it has at most 53 bits; otherwise the rounding of the float can move it by one nanosecond; and it is 0 when the correction is too big.\<close>

lemma correction_duration:
  "(\<bar>sint t\<bar> < 2 ^ 53 \<longrightarrow> Correction_Duration oor t = sgn (sint t) * (\<bar>sint t\<bar> div 65536))
   \<and> (\<not> TooBig t \<longrightarrow> \<bar>Correction_Duration oor t - sgn (sint t) * (\<bar>sint t\<bar> div 65536)\<bar> \<le> 1)
   \<and> (TooBig t \<longrightarrow> Correction_Duration oor t = 0)"
proof (cases "TooBig t")
  case True
  then have "sint t = 2 ^ 63 - 1" by (simp add: TooBig_def)
  then show ?thesis using True by (simp add: Correction_Duration_def)
next
  case False
  obtain m k where f: "IntFloat_Value t = Finite m (int k - 16)" "\<bar>m * 2 ^ k - sint t\<bar> \<le> 512" "k \<le> 11"
    "- (2 ^ 63) \<le> m * 2 ^ k" "m * 2 ^ k \<le> 2 ^ 63" using interval_scaled [of t] by metis
  let ?q = "sgn (m * 2 ^ k) * (\<bar>m * 2 ^ k\<bar> div 65536)"
  have "\<bar>m * 2 ^ k\<bar> div 65536 \<le> 2 ^ 63 div 65536" using f(4,5) by (intro zdiv_mono1) (auto simp: abs_le_iff)
  moreover have "0 \<le> \<bar>m * 2 ^ k\<bar> div 65536" by simp
  ultimately have "\<bar>?q\<bar> \<le> 2 ^ 47" unfolding abs_mult [of "sgn _"] by (auto simp: sgn_if simp del: abs_mult)
  then have "Correction_Duration oor t = ?q"
    using False f(1) truncate_scaled [of k m] f(3)
    by (simp add: Correction_Duration_def Correction_Nanoseconds_def Let_def abs_le_iff)
  then have "\<bar>Correction_Duration oor t - sgn (sint t) * (\<bar>sint t\<bar> div 65536)\<bar> \<le> 1"
    using quotients_near [OF f(2)] by (simp only:)
  moreover have "Correction_Duration oor t = sgn (sint t) * (\<bar>sint t\<bar> div 65536)" if t: "\<bar>sint t\<bar> < 2 ^ 53"
  proof -
    have "\<bar>sint t\<bar> div 65536 \<le> \<bar>sint t\<bar>" by (simp add: div_le_dividend)
    then have "\<bar>sgn (sint t) * (\<bar>sint t\<bar> div 65536)\<bar> < 2 ^ 63" using t by (auto simp: abs_mult sgn_if)
    then show ?thesis
      using False interval_exact(1) [OF t]
      by (simp add: Correction_Duration_def Correction_Nanoseconds_def Let_def truncate_float_def abs_less_iff)
  qed
  ultimately show ?thesis using False by blast
qed

lemma correction_duration_witness: "Correction_Duration 0 0x28000 = 2"
  using correction_duration [of "0x28000" 0] by simp

end
