(* ===== verification/Ptp_Text.thy ===== *)
theory Ptp_Text
  imports Ptp_Types
begin

section \<open>Names and textual forms (\<^verbatim>\<open>src/protocol/types.go\<close>)\<close>

text \<open>
  The enumerations of the protocol with their tables of names, and the textual forms of identities and
  points in time. A Go map that is only read is an association list; a key that is not in it gives the
  empty string. How the \<^verbatim>\<open>time\<close> package prints a point in time depends on the local time zone: \<open>time_String\<close>
  stands for it.
\<close>

subsection \<open>Enumerations and their names\<close>

definition TLVTypeToString :: "(u16 \<times> string) list" where
  "TLVTypeToString =
    [(TLVManagement, ''MANAGEMENT''),
     (TLVManagementErrorStatus, ''MANAGEMENT_ERROR_STATUS''),
     (TLVOrganizationExtension, ''ORGANIZATION_EXTENSION''),
     (TLVRequestUnicastTransmission, ''REQUEST_UNICAST_TRANSMISSION''),
     (TLVGrantUnicastTransmission, ''GRANT_UNICAST_TRANSMISSION''),
     (TLVCancelUnicastTransmission, ''CANCEL_UNICAST_TRANSMISSION''),
     (TLVAcknowledgeCancelUnicastTransmission, ''ACKNOWLEDGE_CANCEL_UNICAST_TRANSMISSION''),
     (TLVPathTrace, ''PATH_TRACE''),
     (TLVAlternateTimeOffsetIndicator, ''ALTERNATE_TIME_OFFSET_INDICATOR''),
     (TLVAlternateResponsePort, ''ALTERNATE_RESPONSE_PORT'')]"

definition TLVType_String :: "u16 \<Rightarrow> string" where
  "TLVType_String t = (case map_of TLVTypeToString t of Some s \<Rightarrow> s | None \<Rightarrow> [])"

abbreviation TimeSourceAtomicClock :: u8 where "TimeSourceAtomicClock \<equiv> 0x10"
abbreviation TimeSourceTerrestrialRadio :: u8 where "TimeSourceTerrestrialRadio \<equiv> 0x30"
abbreviation TimeSourceSerialTimeCode :: u8 where "TimeSourceSerialTimeCode \<equiv> 0x39"
abbreviation TimeSourcePTP :: u8 where "TimeSourcePTP \<equiv> 0x40"
abbreviation TimeSourceNTP :: u8 where "TimeSourceNTP \<equiv> 0x50"
abbreviation TimeSourceHandSet :: u8 where "TimeSourceHandSet \<equiv> 0x60"
abbreviation TimeSourceOther :: u8 where "TimeSourceOther \<equiv> 0x90"
abbreviation TimeSourceInternalOscillator :: u8 where "TimeSourceInternalOscillator \<equiv> 0xa0"

definition TimeSourceToString :: "(u8 \<times> string) list" where
  "TimeSourceToString =
    [(TimeSourceAtomicClock, ''ATOMIC_CLOCK''),
     (TimeSourceGNSS, ''GNSS''),
     (TimeSourceTerrestrialRadio, ''TERRESTRIAL_RADIO''),
     (TimeSourceSerialTimeCode, ''SERIAL_TIME_CODE''),
     (TimeSourcePTP, ''PTP''),
     (TimeSourceNTP, ''NTP''),
     (TimeSourceHandSet, ''HAND_SET''),
     (TimeSourceOther, ''OTHER''),
     (TimeSourceInternalOscillator, ''INTERNAL_OSCILLATOR'')]"

definition TimeSource_String :: "u8 \<Rightarrow> string" where
  "TimeSource_String t = (case map_of TimeSourceToString t of Some s \<Rightarrow> s | None \<Rightarrow> [])"

abbreviation PortStateInitializing :: u8 where "PortStateInitializing \<equiv> 1"
abbreviation PortStateFaulty :: u8 where "PortStateFaulty \<equiv> 2"
abbreviation PortStateDisabled :: u8 where "PortStateDisabled \<equiv> 3"
abbreviation PortStateListening :: u8 where "PortStateListening \<equiv> 4"
abbreviation PortStatePreMaster :: u8 where "PortStatePreMaster \<equiv> 5"
abbreviation PortStateMaster :: u8 where "PortStateMaster \<equiv> 6"
abbreviation PortStatePassive :: u8 where "PortStatePassive \<equiv> 7"
abbreviation PortStateUncalibrated :: u8 where "PortStateUncalibrated \<equiv> 8"
abbreviation PortStateSlave :: u8 where "PortStateSlave \<equiv> 9"
abbreviation PortStateGrandMaster :: u8 where "PortStateGrandMaster \<equiv> 10"

definition PortStateToString :: "(u8 \<times> string) list" where
  "PortStateToString =
    [(PortStateInitializing, ''INITIALIZING''),
     (PortStateFaulty, ''FAULTY''),
     (PortStateDisabled, ''DISABLED''),
     (PortStateListening, ''LISTENING''),
     (PortStatePreMaster, ''PRE_MASTER''),
     (PortStateMaster, ''MASTER''),
     (PortStatePassive, ''PASSIVE''),
     (PortStateUncalibrated, ''UNCALIBRATED''),
     (PortStateSlave, ''SLAVE''),
     (PortStateGrandMaster, ''GRAND_MASTER'')]"

definition PortState_String :: "u8 \<Rightarrow> string" where
  "PortState_String t = (case map_of PortStateToString t of Some s \<Rightarrow> s | None \<Rightarrow> [])"

abbreviation TransportTypeUDS :: u16 where "TransportTypeUDS \<equiv> 0"
abbreviation TransportTypeIEEE8023 :: u16 where "TransportTypeIEEE8023 \<equiv> 3"
abbreviation TransportTypeDeviceNet :: u16 where "TransportTypeDeviceNet \<equiv> 4"
abbreviation TransportTypeControlNet :: u16 where "TransportTypeControlNet \<equiv> 5"
abbreviation TransportTypePROFINET :: u16 where "TransportTypePROFINET \<equiv> 6"

definition TransportTypeToString :: "(u16 \<times> string) list" where
  "TransportTypeToString =
    [(TransportTypeUDS, ''UDS''),
     (TransportTypeUDPIPV4, ''UDP_IPV4''),
     (TransportTypeUDPIPV6, ''UDP_IPV6''),
     (TransportTypeIEEE8023, ''IEEE_802_3''),
     (TransportTypeDeviceNet, ''DEVICENET''),
     (TransportTypeControlNet, ''CONTROLNET''),
     (TransportTypePROFINET, ''PROFINET'')]"

definition TransportType_String :: "u16 \<Rightarrow> string" where
  "TransportType_String t = (case map_of TransportTypeToString t of Some s \<Rightarrow> s | None \<Rightarrow> [])"

subsection \<open>Identities and times\<close>

definition hex_digit :: "nat \<Rightarrow> char" where
  "hex_digit n = ''0123456789abcdef'' ! n"

text \<open>\<^verbatim>\<open>%02x\<close> of a byte.\<close>

definition fmt_02x :: "u8 \<Rightarrow> string" where
  "fmt_02x b = [hex_digit (unat b div 16), hex_digit (unat b mod 16)]"

definition ClockIdentity_String :: "u64 \<Rightarrow> string" where
  "ClockIdentity_String c =
     (let ptr = be64 c
      in fmt_02x (ptr ! 0) @ fmt_02x (ptr ! 1) @ fmt_02x (ptr ! 2) @ ''.'' @
         fmt_02x (ptr ! 3) @ fmt_02x (ptr ! 4) @ ''.'' @
         fmt_02x (ptr ! 5) @ fmt_02x (ptr ! 6) @ fmt_02x (ptr ! 7))"

definition PortIdentity_String :: "PortIdentity \<Rightarrow> string" where
  "PortIdentity_String p = ClockIdentity_String (ClockIdentity p) @ ''-'' @ fmt_d (uint (PortNumber p))"

definition PTPSeconds_String :: "(time \<Rightarrow> string) \<Rightarrow> PTPSeconds \<Rightarrow> string" where
  "PTPSeconds_String time_String s =
     (if PTPSeconds_Empty s then ''PTPSeconds(empty)''
      else ''PTPSeconds('' @ time_String (PTPSeconds_Time s) @ '')'')"

definition Timestamp_String :: "(time \<Rightarrow> string) \<Rightarrow> Timestamp \<Rightarrow> string" where
  "Timestamp_String time_String t =
     (if Timestamp_Empty t then ''Timestamp(empty)''
      else ''Timestamp('' @ time_String (Timestamp_Time t) @ '')'')"

subsection \<open>Names are unambiguous\<close>

text \<open>A table in which no key and no name occurs twice and no name is empty.\<close>

definition naming :: "('a \<times> string) list \<Rightarrow> bool" where
  "naming t \<longleftrightarrow> distinct (map fst t) \<and> distinct (map snd t) \<and> [] \<notin> snd ` set t"

lemma naming_inj:
  assumes "naming t" and "map_of t a = Some s" and "map_of t b = Some s"
  shows "a = b"
  using assms(1) map_of_SomeD [OF assms(2)] map_of_SomeD [OF assms(3)]
    inj_onD [of snd "set t" "(a, s)" "(b, s)"]
  by (simp add: naming_def distinct_map)

lemma naming_tables:
  "naming MessageTypeToString" "naming TLVTypeToString" "naming TimeSourceToString" "naming PortStateToString"
  "naming TransportTypeToString"
  by (simp_all add: naming_def MessageTypeToString_def TLVTypeToString_def TimeSourceToString_def
      PortStateToString_def TransportTypeToString_def)

lemma hex_digit_inj: "m < 16 \<Longrightarrow> n < 16 \<Longrightarrow> hex_digit m = hex_digit n \<longleftrightarrow> m = n"
proof -
  assume "m < 16" "n < 16"
  moreover have "distinct ''0123456789abcdef''" by simp
  ultimately show ?thesis unfolding hex_digit_def by (simp add: nth_eq_iff_index_eq)
qed

lemma fmt_02x_inj: "fmt_02x a = fmt_02x b \<longleftrightarrow> a = b"
proof -
  have l: "unat x div 16 < 16" "unat x mod 16 < 16" for x :: u8
    using unsigned_less [of x, where 'a = nat] by (simp_all add: less_mult_imp_div_less)
  have "unat a = unat b" if "unat a div 16 = unat b div 16" "unat a mod 16 = unat b mod 16"
    using that by (metis div_mult_mod_eq)
  then show ?thesis by (auto simp: fmt_02x_def hex_digit_inj [OF l(1) l(1)] hex_digit_inj [OF l(2) l(2)] word_unat_eq_iff)
qed

lemma fmt_02x_length [simp]: "length (fmt_02x b) = 2"
  by (simp add: fmt_02x_def)

lemma ClockIdentity_String_length [simp]: "length (ClockIdentity_String c) = 18"
  by (simp add: ClockIdentity_String_def Let_def)

lemma ClockIdentity_String_inj: "ClockIdentity_String c = ClockIdentity_String d \<longleftrightarrow> c = d"
proof
  assume "ClockIdentity_String c = ClockIdentity_String d"
  then have "\<forall>i < 8. be64 c ! i = be64 d ! i"
    by (simp add: ClockIdentity_String_def Let_def append_eq_append_conv fmt_02x_inj All_less_Suc numeral_eq_Suc del: be_bytes_def)
  then have "be64 c = be64 d" by (intro nth_equalityI) simp_all
  then show "c = d" by (metis be64c.enc_inj)
qed simp

text \<open>Two port identities have the same textual form only if they are equal.\<close>

lemma identity_text_injective: "PortIdentity_String p = PortIdentity_String q \<longleftrightarrow> p = q"
proof (cases p; cases q)
  fix c n d m assume "p = PortIdentity c n" "q = PortIdentity d m"
  then show ?thesis
    by (auto simp: PortIdentity_String_def append_eq_append_conv ClockIdentity_String_inj fmt_d_inj word_uint_eq_iff)
qed

end
