(* ===== verification/Spec2Isabelle.thy ===== *)
theory Spec2Isabelle
  imports Ptp_Main Ptp_Progress Ptp_Handlers Ptp_Float Ptp_Text
begin

text \<open>
  A model of \<^verbatim>\<open>ptp4u\<close>, a two-step unicast server for the Precision Time Protocol written in Go, and
  the theorems that say what it does. Paths are those under \<^verbatim>\<open>src/\<close>.

  \<^bold>\<open>The program.\<close> \<^verbatim>\<open>main.go\<close> reads flags and the dynamic configuration (\<^verbatim>\<open>server/config.go\<close>)
  and starts the server (\<^verbatim>\<open>server/server.go\<close>). The server listens on the event port for delay
  requests and on the general port for signaling messages, both decoded by \<^verbatim>\<open>protocol/\<close>. A
  grant of unicast transmission creates a subscription (\<^verbatim>\<open>server/subscription.go\<close>), a goroutine
  that on every tick puts itself on a channel of one of the send workers (\<^verbatim>\<open>server/worker.go\<close>). The
  worker updates the packets of the subscription, sends them, and reads the transmit timestamp of a
  Sync from the kernel (\<^verbatim>\<open>timestamp/\<close>) for the Follow\_Up. Counters live in \<^verbatim>\<open>stats/\<close>. The files that
  \<^verbatim>\<open>drain/\<close> looks for end all subscriptions, SIGHUP reloads the dynamic configuration, SIGTERM
  removes the pid file and exits.

  \<^bold>\<open>The theories\<close>, in the order in which they build on each other:
  \<^descr> \<^verbatim>\<open>Ptp_Prelude\<close>: what the model needs of Go: fixed-width integers, slices with bound checks,
    byte orders, panics as \<^term>\<open>None\<close>, decimal numbers; the locale \<open>codec\<close> (an encoding that decodes whatever
    follows it) and its extension \<open>fixed_layout\<close>, interpreted on the integer codecs here, on the TLVs in
    \<^verbatim>\<open>Ptp_TLV\<close> and on the message header in \<^verbatim>\<open>Ptp_Packets\<close>.
  \<^descr> \<^verbatim>\<open>Ptp_Types\<close> (\<^verbatim>\<open>protocol/types.go\<close>, \<^verbatim>\<open>protocol/unicast.go\<close>): identities, timestamps, clock
    accuracy, log intervals, texts and addresses. Round trips of timestamps and intervals, the order
    of port identities, the accuracy class.
  \<^descr> \<^verbatim>\<open>Ptp_TLV\<close> (\<^verbatim>\<open>protocol/tlvs.go\<close>): every TLV with its marshalling, and \<^const>\<open>writeTLVs\<close> and \<^const>\<open>readTLVs\<close>.
    Round trip of lists of TLVs; what decoding a path trace loses.
  \<^descr> \<^verbatim>\<open>Ptp_Packets\<close> (\<^verbatim>\<open>protocol/protocol.go\<close>): headers, messages, \<^const>\<open>BytesTo\<close> and \<^const>\<open>DecodePacket\<close>. Round
    trip of every message; \<^const>\<open>DecodePacket\<close> panics on no input and what it accepts is well-formed.
  \<^descr> \<^verbatim>\<open>Ptp_Stats\<close> (\<^verbatim>\<open>stats/\<close>): counter maps behind the locale \<open>counter_map\<close>, interpreted on the
    association lists of the code; the JSON reporter. Counters count under any interleaving, the
    export loses nothing as long as types have names, a snapshot reports what was there.
  \<^descr> \<^verbatim>\<open>Ptp_Timestamp\<close> (\<^verbatim>\<open>timestamp/timestamp.go\<close>): timestamp kinds, IP and socket addresses.
  \<^descr> \<^verbatim>\<open>Ptp_Config\<close> (\<^verbatim>\<open>server/config.go\<close>, \<^verbatim>\<open>drain/\<close>, \<^verbatim>\<open>main.go\<close>): configurations, their validation,
    reading and writing, the pid file, drain files, start-up. Only validated configurations reach
    the server; a written configuration is read back.
  \<^descr> \<^verbatim>\<open>Ptp_Subscription\<close> (\<^verbatim>\<open>server/subscription.go\<close>): \<^typ>\<open>SubscriptionClient\<close> with the five packets it owns
    and their updates; \<^verbatim>\<open>Start\<close> as its parts before, at and after the \<^verbatim>\<open>select\<close>.
  \<^descr> \<^verbatim>\<open>Ptp_Worker\<close> (\<^verbatim>\<open>server/worker.go\<close>): \<^typ>\<open>sendWorker\<close>, its tables behind the locale
    \<open>subscription_table\<close>, one function per case of the send loop. A Sync and its Follow\_Up belong
    together; the inventory keeps what runs.
  \<^descr> \<^verbatim>\<open>Ptp_Server\<close> (\<^verbatim>\<open>server/server.go\<close>): \<^typ>\<open>Server\<close>, one function per iteration of every goroutine,
    \<^const>\<open>exec\<close> for one step of the whole program and runs as sequences of steps in any order.
  \<^descr> \<^verbatim>\<open>Ptp_Invariant\<close>, \<^verbatim>\<open>Ptp_Safety\<close>, \<^verbatim>\<open>Ptp_Liveness\<close>: the invariants of the server by induction on
    runs, and what follows from them: which steps can panic, that all packets sent decode, that a
    client stays with one worker, grants, refusals and cancellations, drains, the exchanges from a
    request that arrives to the packets that leave, and what repeated requests cause.
  \<^descr> \<^verbatim>\<open>Ptp_Kernel\<close> (\<^verbatim>\<open>timestamp/timestamp_linux.go\<close>): the scans over control messages, refined against a
    reference on lists of messages inside the locale \<open>cmsg_abi\<close> of a platform's layout, interpreted
    for Linux on amd64; the loops that read transmit timestamps.
  \<^descr> \<^verbatim>\<open>Ptp_Sockets\<close> (\<^verbatim>\<open>timestamp/timestamp_linux.go\<close>, \<^verbatim>\<open>dscp/dscp.go\<close>, the socket set-up of
    \<^verbatim>\<open>server/worker.go\<close> and \<^verbatim>\<open>server/server.go\<close>): set-up as system calls in a state monad, the calls made
    so far being the state.
  \<^descr> \<^verbatim>\<open>Ptp_Wire\<close> (\<^verbatim>\<open>server/worker.go\<close>, \<^verbatim>\<open>server/server.go\<close>): worker turns and handlers joined with the reads
    of \<^verbatim>\<open>Ptp_Kernel\<close>. A transmit time travels from the control message to the Follow\_Up, a receive
    time from the control message to the delay response.
  \<^descr> \<^verbatim>\<open>Ptp_Handlers\<close> (\<^verbatim>\<open>server/server.go\<close>): the handlers as loops with the locals they reuse for every packet. The
    locale \<open>stateless_handler\<close>, interpreted on both, says that such a loop is one with new locals for every packet. The
    event handler goes on for ever.
  \<^descr> \<^verbatim>\<open>Ptp_Threads\<close> (\<^verbatim>\<open>server/\<close>): the server at a finer grain, every goroutine being at one of the places where it
    can wait: a send on a channel of a worker whose buffer is full, the send of \<^verbatim>\<open>Stop\<close>, the lock of a client, the lock of a
    worker's table, the \<^verbatim>\<open>select\<close> of a subscription. A step goes from one such place to the next. The invariant of the
    server holds at this grain too.
  \<^descr> \<^verbatim>\<open>Ptp_Channels\<close>, \<^verbatim>\<open>Ptp_Locks\<close>, \<^verbatim>\<open>Ptp_Deadlock\<close>, \<^verbatim>\<open>Ptp_Progress\<close>: what follows at that grain. Channels are bounded and
    senders are served in turn; locks exclude; two cancels in one message can block the server for good; nothing else
    can, and without such a wait SIGTERM ends the program.
  \<^descr> \<^verbatim>\<open>Ptp_Float\<close>, \<^verbatim>\<open>Ptp_Text\<close> (\<^verbatim>\<open>protocol/types.go\<close>): \<^typ>\<open>float64\<close> with the operations the code uses, time
    intervals and corrections, and the \<^verbatim>\<open>String\<close> methods. Which corrections survive the way through a float,
    when the conversion saturates, that identities are told apart by their texts.
  \<^descr> \<^verbatim>\<open>Ptp_Flags\<close>, \<^verbatim>\<open>Ptp_Main\<close> (\<^verbatim>\<open>main.go\<close>, \<^verbatim>\<open>Start\<close> of \<^verbatim>\<open>server/server.go\<close>): the flags with the parser of Go's
    \<^verbatim>\<open>flag\<close> package, \<^const>\<open>main\<close> and the life of the process from the command line to the exit status. Every
    configuration can be given by flags; the invariants hold as long as the program serves; what each exit
    status means.

  \<^bold>\<open>State.\<close> A Go structure is a record with the fields of the source. Structures shared by pointer
  (subscription clients) live on a heap, \<^term>\<open>sv_heap\<close>, and are named by address; a channel is the list of what was
  sent and not received; a context is a number and the cancelled ones are kept in the state; a goroutine
  of a subscription is a pair of a client and a context. \<^term>\<open>sv_sent\<close> is not a field of the
  program: it records what was handed to the kernel.

  \<^bold>\<open>Panics, errors and loops.\<close> A panic is \<^term>\<open>None\<close> in the codecs, \<^term>\<open>Crash\<close> in the server and
  \<^term>\<open>Panic\<close> in the kernel scans, where \<^term>\<open>Unmapped\<close> is a read through an unsafe pointer that leaves the
  buffer. Errors are values. Loops over slices and attempts are structural recursions. The
  scans over control messages and the poll after an interrupt may run forever in the source: the scans are
  partial functions into \<^typ>\<open>'a option\<close>, \<^term>\<open>None\<close> meaning that they do not return, and are proved to
  return when no length in the buffer is negative. The answers of the kernel are lists of results; a
  call for which the list has no answer left waits. A run of the server is a list of events of any
  length, so no bound is chosen.

  \<^bold>\<open>Parameters.\<close> Code outside the repository is an argument: the hash of the worker choice and the
  binary logarithm on floats (\<^typ>\<open>server_env\<close>), files, network interfaces, address parsing
  and the YAML package (\<^typ>\<open>config_env\<close>), the sizes, layouts and constants of the \<^verbatim>\<open>unix\<close> package
  (\<^typ>\<open>unix_abi\<close>, \<^typ>\<open>ts_abi\<close>), the kernel's answers (\<^typ>\<open>kernel\<close>, \<^typ>\<open>net_kernel\<close>,
  \<^typ>\<open>worker_io\<close>), and the order in which a Go map is traversed.

  \<^bold>\<open>Not modelled.\<close>
  \<^item> The HTTP servers for monitoring and profiling: standard library code. Their addresses, the reply
    to a monitoring request and the exit when one fails are modelled.
  \<^item> Data races. In \<^verbatim>\<open>Ptp_Server\<close> and what builds on it an iteration of a goroutine is one step: an iteration
    that would wait for room on a channel goes on, the list that models the channel holding its buffer and
    then what the waiting senders send, in their order; its length as the program sees it is bounded by the
    capacity, \<^const>\<open>chan_len\<close>. In \<^verbatim>\<open>Ptp_Threads\<close> goroutines wait, and what one does between two places where it waits is one
    step; locks that it takes and releases one after the other there are taken as one. What holds of whole
    iterations need not hold of the finer steps: the lemma \<open>renewals_race\<close> shows a run of those in which one client has two
    goroutines.
  \<^item> \<^verbatim>\<open>protocol/doc.go\<close> holds no code.
\<close>

end
